(* ===== verification/Prelude.thy ===== *)
theory Prelude
  imports Main "HOL-Library.Word"
begin

text \<open>
  Shared vocabulary of the development: the named theorem collections, the machine types of
  Go that the components use, big-endian encoding as in \<^verbatim>\<open>encoding/binary\<close>, the byte/string
  conversions, the functions of the package \<^verbatim>\<open>strings\<close> that the sources call, Go maps with a
  zero value, and the generic lemmas on lists and maps that the component theories share.
\<close>

unbundle bit_operations_syntax

named_theorems go_defs \<open>definitions of Go library functions, unfolded to evaluate them\<close>
named_theorems go_string \<open>facts on the string functions\<close>
named_theorems wire_simps \<open>evaluation of reads and writes on the wire\<close>
named_theorems run_simps \<open>evaluation of the session's calls\<close>

type_synonym byte = "8 word"
type_synonym uint32 = "32 word"
type_synonym uint64 = "64 word"
type_synonym address = string


subsection \<open>Big-endian 32-bit integers\<close>

definition be_uint32 :: "byte \<Rightarrow> byte \<Rightarrow> byte \<Rightarrow> byte \<Rightarrow> uint32" where
  "be_uint32 b0 b1 b2 b3 =
     push_bit 24 (ucast b0) OR push_bit 16 (ucast b1) OR push_bit 8 (ucast b2) OR ucast b3"

definition uint32_be :: "uint32 \<Rightarrow> byte list" where
  "uint32_be w = [ucast (drop_bit 24 w), ucast (drop_bit 16 w), ucast (drop_bit 8 w), ucast w]"

fun be_uint32_list :: "byte list \<Rightarrow> uint32" where
  "be_uint32_list (b0 # b1 # b2 # b3 # bs) = be_uint32 b0 b1 b2 b3"
| "be_uint32_list bs = 0"

lemma bit_be_uint32:
  "n < 32 \<Longrightarrow> bit (be_uint32 b0 b1 b2 b3) n =
     (if n < 8 then bit b3 n else if n < 16 then bit b2 (n - 8)
      else if n < 24 then bit b1 (n - 16) else bit b0 (n - 24))"
  by (auto simp: be_uint32_def bit_or_iff bit_push_bit_iff bit_ucast_iff dest: bit_imp_le_length)

lemma be_uint32_uint32_be:
  "be_uint32 (ucast (drop_bit 24 w)) (ucast (drop_bit 16 w)) (ucast (drop_bit 8 w)) (ucast w) = w"
  by (rule bit_word_eqI) (auto simp: bit_be_uint32 bit_ucast_iff bit_drop_bit_eq)

lemma be_uint32_list_uint32_be [simp]: "be_uint32_list (uint32_be w @ bs) = w"
  by (simp add: uint32_be_def be_uint32_uint32_be)

lemma length_uint32_be [simp]: "length (uint32_be w) = 4"
  by (simp add: uint32_be_def)


subsection \<open>Bytes and strings\<close>

text \<open>
  A Go string is a sequence of bytes, as a HOL \<open>string\<close> is: a \<open>char\<close> has eight bits. The two
  functions are the conversions \<^verbatim>\<open>[]byte(s)\<close> and \<^verbatim>\<open>string(b)\<close>.
\<close>

definition bytes_of :: "string \<Rightarrow> byte list" where
  [go_defs]: "bytes_of s = map of_char s"

definition string_of :: "byte list \<Rightarrow> string" where
  [go_defs]: "string_of bs = map (\<lambda>b. char_of (unat b)) bs"

lemma length_bytes_of [simp]: "length (bytes_of s) = length s"
  by (simp add: bytes_of_def)

lemma length_string_of [simp]: "length (string_of bs) = length bs"
  by (simp add: string_of_def)

lemma bytes_of_append [simp]: "bytes_of (s @ t) = bytes_of s @ bytes_of t"
  by (simp add: bytes_of_def)

lemma string_of_append [simp]: "string_of (s @ t) = string_of s @ string_of t"
  by (simp add: string_of_def)

lemma unat_of_char_byte: "unat (of_char c :: byte) = of_char c"
proof -
  have "(of_char c :: byte) = of_nat (of_char c)"
    by (simp add: of_nat_of_char)
  moreover have "(of_char c :: nat) < 256"
    by (rule nat_of_char_less_256)
  ultimately show ?thesis
    by (simp add: unat_of_nat)
qed

lemma of_char_char_of_byte: "(of_char (char_of (unat b)) :: byte) = b"
proof -
  have lt: "unat b < 256"
    using unsigned_less [of b] by simp
  have "(of_char (char_of (unat b)) :: byte) = of_nat (of_char (char_of (unat b)))"
    by (simp only: of_nat_of_char)
  also have "\<dots> = of_nat (unat b)"
    using lt by simp
  also have "\<dots> = b"
    by simp
  finally show ?thesis .
qed

lemma string_of_bytes_of [simp]: "string_of (bytes_of s) = s"
  by (simp add: string_of_def bytes_of_def o_def unat_of_char_byte)

lemma bytes_of_string_of [simp]: "bytes_of (string_of bs) = bs"
  by (simp add: string_of_def bytes_of_def o_def of_char_char_of_byte)


subsection \<open>The package \<^verbatim>\<open>strings\<close>\<close>

definition has_prefix :: "string \<Rightarrow> string \<Rightarrow> bool" where
  [go_defs]: "has_prefix s p = (take (length p) s = p)"

fun str_index :: "string \<Rightarrow> string \<Rightarrow> nat option" where
  "str_index s sub =
     (if has_prefix s sub then Some 0
      else case s of [] \<Rightarrow> None | _ # s' \<Rightarrow> map_option Suc (str_index s' sub))"

declare str_index.simps [simp del]

text \<open>\<open>strings.IndexByte\<close>.\<close>

definition index_byte :: "string \<Rightarrow> char \<Rightarrow> nat option" where
  "index_byte s c = str_index s [c]"

text \<open>\<open>strings.Cut(s, sep)\<close>: the parts around the first separator, and whether there is one.\<close>

definition str_cut :: "string \<Rightarrow> string \<Rightarrow> string \<times> string \<times> bool" where
  "str_cut s sep =
     (case str_index s sep of
        None \<Rightarrow> (s, [], False)
      | Some i \<Rightarrow> (take i s, drop (i + length sep) s, True))"

text \<open>\<open>strings.Split(s, sep)\<close> for a one-byte separator.\<close>

fun str_split :: "string \<Rightarrow> char \<Rightarrow> string list" where
  "str_split [] c = [[]]"
| "str_split (x # xs) c =
     (if x = c then [] # str_split xs c
      else case str_split xs c of [] \<Rightarrow> [[x]] | y # ys \<Rightarrow> (x # y) # ys)"

definition trim_suffix :: "string \<Rightarrow> string \<Rightarrow> string" where
  "trim_suffix s suf =
     (if length suf \<le> length s \<and> drop (length s - length suf) s = suf
      then take (length s - length suf) s else s)"

text \<open>
  \<open>strings.ToLower\<close> and \<open>strings.EqualFold\<close>, as far as a comparison with an ASCII word can tell:
  the ASCII letters, and the only two other runes whose lower case is ASCII, U+0130 (bytes
  C4 B0, lower case i) and U+212A (bytes E2 84 AA, lower case k). Every other rune keeps a
  byte above 7F and so differs from an ASCII word before and after.
\<close>

definition lower_char :: "char \<Rightarrow> char" where
  "lower_char c =
     (let n = of_char c :: nat in if 65 \<le> n \<and> n \<le> 90 then char_of (n + 32) else c)"

fun str_to_lower :: "string \<Rightarrow> string" where
  "str_to_lower [] = []"
| "str_to_lower (c # cs) =
     (if c = CHR 0xC4 \<and> take 1 cs = [CHR 0xB0] then CHR ''i'' # str_to_lower (drop 1 cs)
      else if c = CHR 0xE2 \<and> take 2 cs = [CHR 0x84, CHR 0xAA]
        then CHR ''k'' # str_to_lower (drop 2 cs)
      else lower_char c # str_to_lower cs)"

lemma str_index_bound: "str_index s sub = Some i \<Longrightarrow> i + length sub \<le> length s"
proof (induction s arbitrary: i)
  case Nil
  then show ?case
    by (auto simp: str_index.simps [of "[]"] has_prefix_def split: if_splits)
next
  case (Cons x s)
  show ?case
  proof (cases "has_prefix (x # s) sub")
    case True
    with Cons.prems have "i = 0"
      by (simp add: str_index.simps [of "x # s"])
    moreover from True have "length (take (length sub) (x # s)) = length sub"
      by (simp add: has_prefix_def)
    ultimately show ?thesis
      by (simp add: min_def split: if_splits)
  next
    case False
    with Cons.prems obtain j where "str_index s sub = Some j" and "i = Suc j"
      by (auto simp: str_index.simps [of "x # s"])
    with Cons.IH show ?thesis
      by fastforce
  qed
qed

lemma str_index_notin: "c \<notin> set xs \<Longrightarrow> str_index (xs @ c # ys) [c] = Some (length xs)"
  by (induction xs) (auto simp: str_index.simps [of "_ # _"] has_prefix_def)

lemma str_index_None: "c \<notin> set xs \<Longrightarrow> str_index xs [c] = None"
  by (induction xs) (auto simp: str_index.simps [of "_ # _"] str_index.simps [of "[]"] has_prefix_def)

lemma str_cut_notin [go_string]:
  "c \<notin> set xs \<Longrightarrow> str_cut (xs @ c # ys) [c] = (xs, ys, True)"
  by (simp add: str_cut_def str_index_notin)

lemma str_split_not_Nil [simp]: "str_split s c \<noteq> []"
  by (induction s) (auto split: list.splits)

lemma str_split_notin [go_string]: "c \<notin> set xs \<Longrightarrow> str_split xs c = [xs]"
  by (induction xs) auto

lemma str_split_append [go_string]:
  "c \<notin> set xs \<Longrightarrow> str_split (xs @ c # ys) c = xs # str_split ys c"
  by (induction xs) auto


subsection \<open>Go maps\<close>

text \<open>
  A read of a Go map at a missing key gives the zero value of its element type. Here for a
  \<open>map[string]int\<close>, and with a default for the other element types.
\<close>

definition map_get :: "('k \<rightharpoonup> 'v) \<Rightarrow> 'v \<Rightarrow> 'k \<Rightarrow> 'v" where
  "map_get m z k = (case m k of None \<Rightarrow> z | Some v \<Rightarrow> v)"

lemma map_get_upd [simp]: "map_get (m(k \<mapsto> v)) z k' = (if k' = k then v else map_get m z k')"
  by (simp add: map_get_def)

lemma map_get_del [simp]: "map_get (m(k := None)) z k' = (if k' = k then z else map_get m z k')"
  by (simp add: map_get_def)

lemma map_get_empty [simp]: "map_get Map.empty z k = z"
  by (simp add: map_get_def)


subsection \<open>Lists\<close>

lemma sum_list_map_eq_0_iff_nat: "sum_list (map f xs) = (0::nat) \<longleftrightarrow> (\<forall>x \<in> set xs. f x = 0)"
  by (induction xs) auto

lemma foldl_append_singleton: "foldl (\<lambda>acc x. acc @ [f x]) ys xs = ys @ map f xs"
  by (induction xs arbitrary: ys) auto


lemma count_list_remove1:
  "count_list (remove1 b xs) c = (if c = b then count_list xs c - 1 else count_list xs c)"
  by (induction xs) auto


subsection \<open>The scan for a strict minimum\<close>

text \<open>
  The loop \<^verbatim>\<open>for _, c := range cs { if f(c) < bestV { best, bestV = key(c), f(c) } }\<close> over any
  strict comparison: it ends at the first element that attains the minimum, or keeps its start.
\<close>

fun scan_min :: "('v \<Rightarrow> 'v \<Rightarrow> bool) \<Rightarrow> ('c \<Rightarrow> 'v) \<Rightarrow> ('c \<Rightarrow> 'a) \<Rightarrow> 'a \<Rightarrow> 'v \<Rightarrow> 'c list \<Rightarrow> 'a" where
  "scan_min lt f key best v [] = best"
| "scan_min lt f key best v (c # cs) =
     (if lt (f c) v then scan_min lt f key (key c) (f c) cs else scan_min lt f key best v cs)"

lemma scan_min_first:
  assumes trans: "\<And>x y z. lt x y \<Longrightarrow> lt y z \<Longrightarrow> lt x z" and irr: "\<And>x. \<not> lt x x"
    and neg: "\<And>x y z. \<not> lt x y \<Longrightarrow> lt z y \<Longrightarrow> \<not> lt x z"
  shows "scan_min lt f key best v cs = best \<and> (\<forall>c \<in> set cs. \<not> lt (f c) v)
    \<or> (\<exists>i < length cs. scan_min lt f key best v cs = key (cs ! i) \<and> lt (f (cs ! i)) v
         \<and> (\<forall>j < length cs. \<not> lt (f (cs ! j)) (f (cs ! i)))
         \<and> (\<forall>j < i. f (cs ! j) \<noteq> f (cs ! i)))"
proof (induction cs arbitrary: best v)
  case Nil
  show ?case by simp
next
  case (Cons c cs)
  let ?v = "if lt (f c) v then f c else v" and ?b = "if lt (f c) v then key c else best"
  have eq: "scan_min lt f key best v (c # cs) = scan_min lt f key ?b ?v cs" by simp
  have nc: "\<not> lt (f c) ?v" by (simp add: irr)
  from Cons.IH [of ?b ?v] consider
      (keep) "scan_min lt f key ?b ?v cs = ?b" "\<forall>c \<in> set cs. \<not> lt (f c) ?v"
    | (find) i where "i < length cs" "scan_min lt f key ?b ?v cs = key (cs ! i)" "lt (f (cs ! i)) ?v"
        "\<forall>j < length cs. \<not> lt (f (cs ! j)) (f (cs ! i))" "\<forall>j < i. f (cs ! j) \<noteq> f (cs ! i)"
    by blast
  then show ?case
  proof cases
    case keep
    show ?thesis
    proof (cases "lt (f c) v")
      case True
      with keep show ?thesis
        unfolding eq by (intro disjI2 exI [of _ 0]) (auto simp: irr nth_Cons')
    next
      case False
      with keep show ?thesis unfolding eq by auto
    qed
  next
    case find
    have "lt (f (cs ! i)) v"
      using find(3) trans by (cases "lt (f c) v") auto
    moreover have "\<not> lt (f c) (f (cs ! i))"
      using nc find(3) by (rule neg)
    moreover have "f c \<noteq> f (cs ! i)"
      using nc find(3) by auto
    ultimately show ?thesis
      unfolding eq using find
      by (intro disjI2 exI [of _ "Suc i"]) (auto simp: nth_Cons' less_Suc_eq_0_disj)
  qed
qed


subsection \<open>Transition systems\<close>

text \<open>
  A component whose operations interleave is a partial function from an event and a state to the
  next state, \<open>None\<close> when the event cannot happen. A state is reachable by finitely many events.
\<close>

fun run_steps :: "('e \<Rightarrow> 's \<Rightarrow> 's option) \<Rightarrow> 'e list \<Rightarrow> 's \<Rightarrow> 's option" where
  "run_steps exec [] s = Some s"
| "run_steps exec (e # es) s = (case exec e s of None \<Rightarrow> None | Some s' \<Rightarrow> run_steps exec es s')"

lemma run_steps_append: "run_steps exec (xs @ ys) s = (case run_steps exec xs s of None \<Rightarrow> None | Some s' \<Rightarrow> run_steps exec ys s')"
  by (induction xs arbitrary: s) (auto split: option.splits)

inductive reach :: "('e \<Rightarrow> 's \<Rightarrow> 's option) \<Rightarrow> 's \<Rightarrow> 's \<Rightarrow> bool" for exec init where
  reach_init: "reach exec init init"
| reach_step: "reach exec init s \<Longrightarrow> exec e s = Some s' \<Longrightarrow> reach exec init s'"

lemma reach_run: "reach exec init s \<Longrightarrow> run_steps exec es s = Some s' \<Longrightarrow> reach exec init s'"
proof (induction es arbitrary: s)
  case (Cons e es)
  from Cons.prems(2) obtain s1 where s1: "exec e s = Some s1" "run_steps exec es s1 = Some s'"
    by (auto split: option.splits)
  from reach_step [OF Cons.prems(1) s1(1)] s1(2) show ?case by (rule Cons.IH)
qed simp

locale step_invariant =
  fixes exec :: "'e \<Rightarrow> 's \<Rightarrow> 's option"
    and init :: 's
    and invar :: "'s \<Rightarrow> bool"
  assumes invar_init: "invar init"
    and invar_step: "invar s \<Longrightarrow> exec e s = Some s' \<Longrightarrow> invar s'"
begin

lemma invar_reach: "reach exec init s \<Longrightarrow> invar s"
  by (induction rule: reach.induct) (rule invar_init, erule (1) invar_step)

lemma invar_run: "run_steps exec es init = Some s \<Longrightarrow> invar s"
  by (rule invar_reach, rule reach_run [OF reach_init])

end

text \<open>
  Refinement of a labelled specification: a state of the component is seen as a state of the specification by
  \<open>abs\<close>, what an event lets its callers see is its \<open>label\<close>, and each event is a step of the specification under
  its label. Every run of the component then has a trace of labels that the specification allows.
\<close>

fun run_labels :: "('e \<Rightarrow> 's \<Rightarrow> 's option) \<Rightarrow> ('e \<Rightarrow> 's \<Rightarrow> 's \<Rightarrow> 'l) \<Rightarrow> 'e list \<Rightarrow> 's \<Rightarrow> 'l list" where
  "run_labels exec label [] s = []"
| "run_labels exec label (e # es) s =
     (case exec e s of None \<Rightarrow> [] | Some s' \<Rightarrow> label e s s' # run_labels exec label es s')"

inductive traced :: "('a \<Rightarrow> 'l \<Rightarrow> 'a \<Rightarrow> bool) \<Rightarrow> 'a \<Rightarrow> 'l list \<Rightarrow> 'a \<Rightarrow> bool" for astep where
  traced_Nil: "traced astep a [] a"
| traced_Cons: "astep a l b \<Longrightarrow> traced astep b ls c \<Longrightarrow> traced astep a (l # ls) c"

locale refinement = step_invariant exec init invar
  for exec :: "'e \<Rightarrow> 's \<Rightarrow> 's option" and init :: 's and invar :: "'s \<Rightarrow> bool" +
  fixes abs :: "'s \<Rightarrow> 'a"
    and label :: "'e \<Rightarrow> 's \<Rightarrow> 's \<Rightarrow> 'l"
    and astep :: "'a \<Rightarrow> 'l \<Rightarrow> 'a \<Rightarrow> bool"
  assumes refines_step: "invar s \<Longrightarrow> exec e s = Some s' \<Longrightarrow> astep (abs s) (label e s s') (abs s')"
begin

lemma refines_run:
  "invar s \<Longrightarrow> run_steps exec es s = Some s' \<Longrightarrow> traced astep (abs s) (run_labels exec label es s) (abs s')"
proof (induction es arbitrary: s)
  case (Cons e es)
  then obtain s1 where s1: "exec e s = Some s1" "run_steps exec es s1 = Some s'" by (auto split: option.splits)
  from Cons.IH [OF invar_step [OF Cons.prems(1) s1(1)] s1(2)] refines_step [OF Cons.prems(1) s1(1)] s1(1) show ?case
    by (simp add: traced_Cons)
qed (simp add: traced_Nil)

end

text \<open>A property of every entry of a list together with what precedes it.\<close>

definition every_at :: "('a list \<Rightarrow> 'a \<Rightarrow> bool) \<Rightarrow> 'a list \<Rightarrow> bool" where
  "every_at Q xs \<longleftrightarrow> (\<forall>pre x post. xs = pre @ x # post \<longrightarrow> Q pre x)"

lemma every_at_Nil [simp]: "every_at Q []"
  by (simp add: every_at_def)

lemma every_at_split: "every_at Q (pre @ x # post) \<Longrightarrow> Q pre x"
  by (auto simp: every_at_def)

lemma every_at_snoc [simp]: "every_at Q (xs @ [x]) \<longleftrightarrow> every_at Q xs \<and> Q xs x"
proof
  assume l: "every_at Q (xs @ [x])"
  have "Q pre y" if "xs = pre @ y # post" for pre y post
    using l that by (auto simp: every_at_def)
  moreover have "Q xs x" using l by (rule every_at_split [where post = "[]"])
  ultimately show "every_at Q xs \<and> Q xs x" by (auto simp: every_at_def)
next
  assume r: "every_at Q xs \<and> Q xs x"
  show "every_at Q (xs @ [x])"
    unfolding every_at_def
  proof (intro allI impI)
    fix pre y post
    assume eq: "xs @ [x] = pre @ y # post"
    show "Q pre y"
    proof (cases post rule: rev_cases)
      case Nil
      with eq r show ?thesis by simp
    next
      case (snoc post' z)
      with eq have "xs = pre @ y # post'" by simp
      with r show ?thesis by (auto intro: every_at_split)
    qed
  qed
qed

lemma every_at_snoc2: "every_at Q (xs @ [x, y]) \<longleftrightarrow> every_at Q xs \<and> Q xs x \<and> Q (xs @ [x]) y"
  using every_at_snoc [of Q "xs @ [x]" y] by simp

text \<open>A quantity summed over the entries of a list, and what an update at one index changes.\<close>

definition tally :: "('a \<Rightarrow> 'b::comm_monoid_add) \<Rightarrow> 'a list \<Rightarrow> 'b" where
  "tally f xs = sum_list (map f xs)"

lemma tally_simps [simp]: "tally f [] = 0" "tally f (x # xs) = f x + tally f xs"
  by (simp_all add: tally_def)

lemma tally_replicate_0: "f x = 0 \<Longrightarrow> tally f (replicate n x) = 0"
  by (induction n) simp_all

definition others :: "nat \<Rightarrow> 'a list \<Rightarrow> 'a list" where
  "others i xs = take i xs @ drop (Suc i) xs"

lemma tally_append [simp]: "tally f (xs @ ys) = tally f xs + tally f ys"
  by (simp add: tally_def)

lemma tally_split: "i < length xs \<Longrightarrow> tally f xs = f (xs ! i) + tally f (others i xs)"
proof -
  assume "i < length xs"
  then have "tally f xs = tally f (take i xs @ xs ! i # drop (Suc i) xs)"
    by (simp add: id_take_nth_drop [symmetric])
  then show ?thesis by (simp add: others_def ac_simps)
qed

lemma others_update [simp]: "others i (xs[i := v]) = others i xs"
  by (simp add: others_def)

lemma tally_update: "i < length xs \<Longrightarrow> tally f (xs[i := v]) = f v + tally f (others i xs)"
  using tally_split [of i "xs[i := v]" f] by simp

lemma set_split: "i < length xs \<Longrightarrow> set xs = insert (xs ! i) (set (others i xs))"
proof -
  assume "i < length xs"
  then have "set xs = set (take i xs @ xs ! i # drop (Suc i) xs)"
    by (simp only: id_take_nth_drop [symmetric])
  then show ?thesis by (auto simp: others_def)
qed

lemma set_update: "i < length xs \<Longrightarrow> set (xs[i := v]) = insert v (set (others i xs))"
  using set_split [of i "xs[i := v]"] by simp

end
