(* ===== verification/Wire.thy ===== *)
theory Wire
  imports Prelude
begin

text \<open>
  The byte level of the PostgreSQL wire protocol: \<^verbatim>\<open>internal/protocol/message.go\<close>, the startup
  packets of \<^verbatim>\<open>internal/proxy/startup.go\<close> and the relaying helpers of
  \<^verbatim>\<open>internal/proxy/session.go\<close>.

  A source of bytes (\<^verbatim>\<open>io.Reader\<close>) is the bytes it will still deliver and the error it reports
  after them. A sink (\<^verbatim>\<open>io.Writer\<close>) is the bytes it has taken and, when it is going to fail, the
  number of bytes it still takes before it does. Every loop of the sources is a function that
  consumes its reader, with a termination proof by the number of bytes left.
\<close>


subsection \<open>Readers and writers\<close>

datatype io_err = EOF | UnexpectedEOF | ErrClosed | ErrDeadline | ErrNet | ErrWrite

record reader =
  rd_data :: "byte list"
  rd_end :: io_err

record writer =
  wr_out :: "byte list"
  wr_room :: "nat option"

text \<open>
  \<^verbatim>\<open>io.ReadFull\<close>: all of the bytes, or the reader's error, where an end of file after the first
  byte is \<^verbatim>\<open>io.ErrUnexpectedEOF\<close>.
\<close>

definition read_full :: "nat \<Rightarrow> reader \<Rightarrow> (io_err + byte list) \<times> reader" where
  "read_full n r =
     (if n \<le> length (rd_data r)
      then (Inr (take n (rd_data r)), r\<lparr>rd_data := drop n (rd_data r)\<rparr>)
      else (Inl (if rd_end r = EOF \<and> rd_data r \<noteq> [] then UnexpectedEOF else rd_end r),
            r\<lparr>rd_data := []\<rparr>))"

text \<open>\<^verbatim>\<open>Write\<close>: a sink that fails has taken a part of the bytes.\<close>

definition write_bytes :: "byte list \<Rightarrow> writer \<Rightarrow> io_err option \<times> writer" where
  "write_bytes bs w =
     (case wr_room w of
        None \<Rightarrow> (None, w\<lparr>wr_out := wr_out w @ bs\<rparr>)
      | Some k \<Rightarrow>
          if length bs \<le> k
          then (None, w\<lparr>wr_out := wr_out w @ bs, wr_room := Some (k - length bs)\<rparr>)
          else (Some ErrWrite, w\<lparr>wr_out := wr_out w @ take k bs, wr_room := Some 0\<rparr>))"

text \<open>
  \<^verbatim>\<open>io.CopyN\<close>: copies up to \<open>n\<close> bytes; a short source is \<^verbatim>\<open>io.EOF\<close> or the source's error, after
  what it had was written. After a failed write all \<open>n\<close> bytes count as taken from the source, while
  \<^verbatim>\<open>io.CopyN\<close> stops at the chunk that failed: the callers give the source up in that case.
\<close>

definition copy_n :: "nat \<Rightarrow> writer \<Rightarrow> reader \<Rightarrow> io_err option \<times> writer \<times> reader" where
  "copy_n n w r =
     (let avail = take n (rd_data r); r' = r\<lparr>rd_data := drop n (rd_data r)\<rparr>
      in case write_bytes avail w of
           (Some e, w') \<Rightarrow> (Some e, w', r')
         | (None, w') \<Rightarrow> (if length avail = n then None else Some (rd_end r), w', r'))"

text \<open>A sink that never fails.\<close>

abbreviation open_writer :: "byte list \<Rightarrow> writer" where
  "open_writer out \<equiv> \<lparr>wr_out = out, wr_room = None\<rparr>"

lemma read_full_append [wire_simps]:
  "n = length xs \<Longrightarrow>
   read_full n \<lparr>rd_data = xs @ ys, rd_end = e\<rparr> = (Inr xs, \<lparr>rd_data = ys, rd_end = e\<rparr>)"
  by (simp add: read_full_def)

lemma read_full_Inr:
  "read_full n r = (Inr xs, r') \<Longrightarrow>
   rd_data r = xs @ rd_data r' \<and> length xs = n \<and> rd_end r' = rd_end r"
  by (auto simp: read_full_def split: if_splits)

lemma read_full_less:
  "(Inr xs, r') = read_full n r \<Longrightarrow> length (rd_data r') + n = length (rd_data r)"
  by (auto simp: read_full_def split: if_splits)

lemma copy_n_append [wire_simps]:
  "n = length xs \<Longrightarrow>
   copy_n n (open_writer out) \<lparr>rd_data = xs @ ys, rd_end = e\<rparr>
     = (None, open_writer (out @ xs), \<lparr>rd_data = ys, rd_end = e\<rparr>)"
  by (simp add: copy_n_def write_bytes_def)

lemma write_bytes_open [wire_simps]:
  "write_bytes bs (open_writer out) = (None, open_writer (out @ bs))"
  by (simp add: write_bytes_def)

lemma copy_n_less:
  "(e, w', r') = copy_n n w r \<Longrightarrow> length (rd_data r') \<le> length (rd_data r)"
  by (auto simp: copy_n_def Let_def split: prod.splits option.splits)

text \<open>
  What a write or a copy adds to the sink is a prefix of what it was given.
\<close>

lemma write_bytes_prefix:
  "write_bytes bs w = (e, w') \<Longrightarrow>
   \<exists>p q. wr_out w' = wr_out w @ p \<and> bs = p @ q \<and> (e = None \<longrightarrow> q = [])"
  by (auto simp: write_bytes_def split: option.splits if_splits)
     (metis append_take_drop_id)

lemma copy_n_prefix:
  assumes "copy_n n w r = (e, w', r')"
  shows "\<exists>p q. wr_out w' = wr_out w @ p \<and> rd_data r = p @ q \<and> (e = None \<longrightarrow> rd_data r' = q)"
proof -
  obtain e' w1 where wr: "write_bytes (take n (rd_data r)) w = (e', w1)"
    by fastforce
  from write_bytes_prefix [OF wr] obtain p q where
    pq: "wr_out w1 = wr_out w @ p" "take n (rd_data r) = p @ q" "e' = None \<longrightarrow> q = []"
    by blast
  have "rd_data r = p @ q @ drop n (rd_data r)"
    using pq(2) append_take_drop_id [of n "rd_data r"] by simp
  moreover have "wr_out w' = wr_out w @ p" and "e = None \<Longrightarrow> e' = None"
    and "rd_data r' = drop n (rd_data r)"
    using assms wr pq(1) by (auto simp: copy_n_def Let_def split: option.splits)
  ultimately show ?thesis
    using pq(3) by (intro exI [of _ p] exI [of _ "q @ drop n (rd_data r)"]) auto
qed


subsection \<open>Message types\<close>

definition MsgQuery :: byte where "MsgQuery = of_char (CHR ''Q'')"
definition MsgParse :: byte where "MsgParse = of_char (CHR ''P'')"
definition MsgBind :: byte where "MsgBind = of_char (CHR ''B'')"
definition MsgDescribe :: byte where "MsgDescribe = of_char (CHR ''D'')"
definition MsgExecute :: byte where "MsgExecute = of_char (CHR ''E'')"
definition MsgSync :: byte where "MsgSync = of_char (CHR ''S'')"
definition MsgTerminate :: byte where "MsgTerminate = of_char (CHR ''X'')"
definition MsgReadyForQuery :: byte where "MsgReadyForQuery = of_char (CHR ''Z'')"
definition MsgCommandComplete :: byte where "MsgCommandComplete = of_char (CHR ''C'')"
definition MsgErrorResponse :: byte where "MsgErrorResponse = of_char (CHR ''E'')"
definition MsgRowDescription :: byte where "MsgRowDescription = of_char (CHR ''T'')"
definition MsgDataRow :: byte where "MsgDataRow = of_char (CHR ''D'')"

lemmas msg_type_defs =
  MsgQuery_def MsgParse_def MsgBind_def MsgDescribe_def MsgExecute_def MsgSync_def
  MsgTerminate_def MsgReadyForQuery_def MsgCommandComplete_def MsgErrorResponse_def
  MsgRowDescription_def MsgDataRow_def

definition maxInspectBody :: nat where
  "maxInspectBody = 2 ^ 16"

definition maxBufferedMessage :: nat where
  "maxBufferedMessage = 64 * 2 ^ 20"


subsection \<open>Frames\<close>

text \<open>
  A message of the regular phase: the type byte, a length that counts itself and the body but
  not the type, and the body.
\<close>

type_synonym frame = "byte \<times> byte list"

definition frame_header :: "frame \<Rightarrow> byte list" where
  "frame_header f = fst f # uint32_be (of_nat (length (snd f) + 4))"

definition frame_bytes :: "frame \<Rightarrow> byte list" where
  "frame_bytes f = frame_header f @ snd f"

definition frame_ok :: "frame \<Rightarrow> bool" where
  "frame_ok f = (length (snd f) + 4 < 2 ^ 32)"

definition frames_bytes :: "frame list \<Rightarrow> byte list" where
  "frames_bytes fs = concat (map frame_bytes fs)"

lemma frames_bytes_simps [simp]:
  "frames_bytes [] = []"
  "frames_bytes (f # fs) = frame_bytes f @ frames_bytes fs"
  by (simp_all add: frames_bytes_def)

lemma frame_len_unat:
  "n + 4 < 2 ^ 32 \<Longrightarrow> unat (of_nat (n + 4) :: uint32) = n + 4"
  by (simp add: unat_of_nat del: of_nat_add)

lemma frame_len_ge: "n + 4 < 2 ^ 32 \<Longrightarrow> \<not> (of_nat (n + 4) :: uint32) < 4"
proof -
  assume "n + 4 < 2 ^ 32"
  then have "unat (of_nat (n + 4) :: uint32) = n + 4"
    by (rule frame_len_unat)
  then show ?thesis
    by (simp add: word_less_nat_alt del: of_nat_add)
qed

lemma frame_len_sub: "n + 4 < 2 ^ 32 \<Longrightarrow> unat (of_nat (n + 4) - 4 :: uint32) = n"
  by (simp add: unat_of_nat)

lemma be_uint32_list_header [simp]: "be_uint32_list (uint32_be w) = w"
  using be_uint32_list_uint32_be [of w "[]"] by simp

lemma frame_header_simps [simp]:
  "length (frame_header f) = 5"
  "hd (frame_header f) = fst f"
  "be_uint32_list (tl (frame_header f)) = of_nat (length (snd f) + 4)"
  "frame_header f @ snd f = frame_bytes f"
  by (simp_all add: frame_header_def frame_bytes_def)

lemma length_frame_bytes [simp]: "length (frame_bytes f) = 5 + length (snd f)"
  by (simp add: frame_bytes_def del: frame_header_simps(4))

lemma read_full_header [wire_simps]:
  "read_full 5 \<lparr>rd_data = frame_bytes f @ rest, rd_end = e\<rparr> =
     (Inr (frame_header f), \<lparr>rd_data = snd f @ rest, rd_end = e\<rparr>)"
  by (simp add: read_full_def frame_bytes_def del: frame_header_simps(4))

end
