(* ===== verification/Relay.thy ===== *)
theory Relay
  imports Wire
begin

text \<open>
  The loops that move messages: \<^verbatim>\<open>protocol.Relay\<close>, and of \<^verbatim>\<open>internal/proxy/session.go\<close>
  \<^verbatim>\<open>relayFrontend\<close>, \<^verbatim>\<open>readMessage\<close>, \<^verbatim>\<open>relayResponse\<close> and \<^verbatim>\<open>queryString\<close>. The lemmas show that
  each of them follows the frame boundaries: what arrives at the other side is the input byte
  for byte, each loop stops exactly at its message (\<^verbatim>\<open>Terminate\<close>, the next \<^verbatim>\<open>ReadyForQuery\<close>) and
  leaves the rest of the stream unread.
\<close>

datatype relay_err = RelayIO io_err | RelayShort uint32 | RelayInspect string | EmptyReady | TooLarge


subsection \<open>\<^verbatim>\<open>protocol.Relay\<close>\<close>

text \<open>
  The inspector gets the type and the body, or no body when the message is streamed; it may
  keep a state \<open>'s\<close> of its own, and an error aborts the relay.
\<close>

type_synonym 's inspect_func = "'s \<Rightarrow> byte \<Rightarrow> byte list option \<Rightarrow> string option \<times> 's"

definition call_inspect ::
  "'s inspect_func option \<Rightarrow> 's \<Rightarrow> byte \<Rightarrow> byte list option \<Rightarrow> string option \<times> 's" where
  "call_inspect insp s t b = (case insp of None \<Rightarrow> (None, s) | Some f \<Rightarrow> f s t b)"

function Relay ::
  "'s inspect_func option \<Rightarrow> 's \<Rightarrow> writer \<Rightarrow> reader \<Rightarrow> relay_err option \<times> writer \<times> reader \<times> 's"
where
  "Relay insp s dst src =
     (case read_full 5 src of
        (Inl e, src1) \<Rightarrow> (if e = EOF then None else Some (RelayIO e), dst, src1, s)
      | (Inr header, src1) \<Rightarrow>
          let len = be_uint32_list (tl header)
          in if len < 4 then (Some (RelayShort len), dst, src1, s)
             else let bodyLen = unat (len - 4)
             in (case write_bytes header dst of
                   (Some e, dst1) \<Rightarrow> (Some (RelayIO e), dst1, src1, s)
                 | (None, dst1) \<Rightarrow>
                     if bodyLen \<le> maxInspectBody then
                       (case read_full bodyLen src1 of
                          (Inl e, src2) \<Rightarrow> (Some (RelayIO e), dst1, src2, s)
                        | (Inr body, src2) \<Rightarrow>
                            (case call_inspect insp s (hd header) (Some body) of
                               (Some e, s1) \<Rightarrow> (Some (RelayInspect e), dst1, src2, s1)
                             | (None, s1) \<Rightarrow>
                                 (case write_bytes body dst1 of
                                    (Some e, dst2) \<Rightarrow> (Some (RelayIO e), dst2, src2, s1)
                                  | (None, dst2) \<Rightarrow> Relay insp s1 dst2 src2)))
                     else
                       (case call_inspect insp s (hd header) None of
                          (Some e, s1) \<Rightarrow> (Some (RelayInspect e), dst1, src1, s1)
                        | (None, s1) \<Rightarrow>
                            (case copy_n bodyLen dst1 src1 of
                               (Some e, dst2, src2) \<Rightarrow> (Some (RelayIO e), dst2, src2, s1)
                             | (None, dst2, src2) \<Rightarrow> Relay insp s1 dst2 src2))))"
  by pat_completeness auto
termination
  by (relation "measure (\<lambda>(insp, s, dst, src). length (rd_data src))")
     (auto dest!: read_full_less copy_n_less)

declare Relay.simps [simp del]


subsection \<open>\<^verbatim>\<open>relayFrontend\<close>\<close>

text \<open>
  Forwards until \<^verbatim>\<open>Terminate\<close>, which it reads (its header) and does not forward. The result is
  the pair (\<^verbatim>\<open>terminated\<close>, \<^verbatim>\<open>err\<close>).
\<close>

function relayFrontend :: "writer \<Rightarrow> reader \<Rightarrow> (bool \<times> relay_err option) \<times> writer \<times> reader" where
  "relayFrontend dst src =
     (case read_full 5 src of
        (Inl e, src1) \<Rightarrow>
          if e = EOF \<or> e = ErrClosed \<or> e = ErrDeadline then ((False, None), dst, src1)
          else ((False, Some (RelayIO e)), dst, src1)
      | (Inr header, src1) \<Rightarrow>
          if hd header = MsgTerminate then ((True, None), dst, src1)
          else let len = be_uint32_list (tl header)
          in if len < 4 then ((False, Some (RelayShort len)), dst, src1)
             else (case write_bytes header dst of
                     (Some e, dst1) \<Rightarrow> ((False, Some (RelayIO e)), dst1, src1)
                   | (None, dst1) \<Rightarrow>
                       (case copy_n (unat (len - 4)) dst1 src1 of
                          (Some e, dst2, src2) \<Rightarrow> ((False, Some (RelayIO e)), dst2, src2)
                        | (None, dst2, src2) \<Rightarrow> relayFrontend dst2 src2)))"
  by pat_completeness auto
termination
  by (relation "measure (\<lambda>(dst, src). length (rd_data src))")
     (auto dest!: read_full_less copy_n_less)

declare relayFrontend.simps [simp del]


subsection \<open>\<^verbatim>\<open>readMessage\<close> and \<^verbatim>\<open>queryString\<close>\<close>

definition readMessage :: "reader \<Rightarrow> (relay_err + byte \<times> byte list) \<times> reader" where
  "readMessage r =
     (case read_full 5 r of
        (Inl e, r1) \<Rightarrow> (Inl (RelayIO e), r1)
      | (Inr header, r1) \<Rightarrow>
          let len = be_uint32_list (tl header)
          in if len < 4 then (Inl (RelayShort len), r1)
             else let bodyLen = unat (len - 4)
             in if maxBufferedMessage < bodyLen then (Inl TooLarge, r1)
                else (case read_full bodyLen r1 of
                        (Inl e, r2) \<Rightarrow> (Inl (RelayIO e), r2)
                      | (Inr body, r2) \<Rightarrow> (Inr (hd header, header @ body), r2)))"

definition queryString :: "byte list \<Rightarrow> string" where
  "queryString full =
     (if length full < 6 then [] else string_of (take (length full - 1 - 5) (drop 5 full)))"


subsection \<open>\<^verbatim>\<open>relayResponse\<close>\<close>

function relayResponse :: "writer \<Rightarrow> reader \<Rightarrow> (relay_err + byte) \<times> writer \<times> reader" where
  "relayResponse dst src =
     (case read_full 5 src of
        (Inl e, src1) \<Rightarrow> (Inl (RelayIO e), dst, src1)
      | (Inr header, src1) \<Rightarrow>
          let len = be_uint32_list (tl header)
          in if len < 4 then (Inl (RelayShort len), dst, src1)
             else (case write_bytes header dst of
                     (Some e, dst1) \<Rightarrow> (Inl (RelayIO e), dst1, src1)
                   | (None, dst1) \<Rightarrow>
                       let bodyLen = unat (len - 4)
                       in if hd header = MsgReadyForQuery then
                            (if bodyLen < 1 then (Inl EmptyReady, dst1, src1)
                             else (case read_full 1 src1 of
                                     (Inl e, src2) \<Rightarrow> (Inl (RelayIO e), dst1, src2)
                                   | (Inr status, src2) \<Rightarrow>
                                       (case write_bytes status dst1 of
                                          (Some e, dst2) \<Rightarrow> (Inl (RelayIO e), dst2, src2)
                                        | (None, dst2) \<Rightarrow>
                                            if 1 < bodyLen then
                                              (case copy_n (bodyLen - 1) dst2 src2 of
                                                 (Some e, dst3, src3) \<Rightarrow> (Inl (RelayIO e), dst3, src3)
                                               | (None, dst3, src3) \<Rightarrow> (Inr (hd status), dst3, src3))
                                            else (Inr (hd status), dst2, src2))))
                          else (case copy_n bodyLen dst1 src1 of
                                  (Some e, dst2, src2) \<Rightarrow> (Inl (RelayIO e), dst2, src2)
                                | (None, dst2, src2) \<Rightarrow> relayResponse dst2 src2)))"
  by pat_completeness auto
termination
  by (relation "measure (\<lambda>(dst, src). length (rd_data src))")
     (auto dest!: read_full_less copy_n_less)

declare relayResponse.simps [simp del]


subsection \<open>One frame at a time\<close>

text \<open>How much of a body the inspector sees.\<close>

definition inspected :: "byte list \<Rightarrow> byte list option" where
  "inspected b = (if length b \<le> maxInspectBody then Some b else None)"

definition never_fails :: "'s inspect_func \<Rightarrow> bool" where
  "never_fails f = (\<forall>s t b. fst (f s t b) = None)"

lemma Relay_end: "Relay insp s dst \<lparr>rd_data = [], rd_end = EOF\<rparr> = (None, dst, \<lparr>rd_data = [], rd_end = EOF\<rparr>, s)"
  by (simp add: Relay.simps [of insp s dst] read_full_def)

lemma Relay_frame:
  assumes "frame_ok f" "never_fails i"
  shows "Relay (Some i) s (open_writer out) \<lparr>rd_data = frame_bytes f @ rest, rd_end = e\<rparr>
     = Relay (Some i) (snd (i s (fst f) (inspected (snd f))))
         (open_writer (out @ frame_bytes f)) \<lparr>rd_data = rest, rd_end = e\<rparr>"
proof -
  have len: "length (snd f) + 4 < 2 ^ 32"
    using assms(1) by (simp add: frame_ok_def)
  obtain s1 where s1: "i s (fst f) (inspected (snd f)) = (None, s1)"
    using assms(2) by (metis never_fails_def prod.collapse)
  note frame_len_ge [OF len, simp] frame_len_sub [OF len, simp]
  show ?thesis
    by (subst Relay.simps)
       (use s1 in \<open>auto simp: wire_simps call_inspect_def inspected_def Let_def simp del: of_nat_add\<close>)
qed

lemma relayFrontend_frame:
  assumes "frame_ok f" "fst f \<noteq> MsgTerminate"
  shows "relayFrontend (open_writer out) \<lparr>rd_data = frame_bytes f @ rest, rd_end = e\<rparr>
     = relayFrontend (open_writer (out @ frame_bytes f)) \<lparr>rd_data = rest, rd_end = e\<rparr>"
proof -
  have len: "length (snd f) + 4 < 2 ^ 32"
    using assms(1) by (simp add: frame_ok_def)
  note frame_len_ge [OF len, simp] frame_len_sub [OF len, simp]
  show ?thesis
    by (subst relayFrontend.simps)
       (simp add: wire_simps assms(2) Let_def del: of_nat_add)
qed

lemma relayResponse_frame:
  assumes "frame_ok f" "fst f \<noteq> MsgReadyForQuery"
  shows "relayResponse (open_writer out) \<lparr>rd_data = frame_bytes f @ rest, rd_end = e\<rparr>
     = relayResponse (open_writer (out @ frame_bytes f)) \<lparr>rd_data = rest, rd_end = e\<rparr>"
proof -
  have len: "length (snd f) + 4 < 2 ^ 32"
    using assms(1) by (simp add: frame_ok_def)
  note frame_len_ge [OF len, simp] frame_len_sub [OF len, simp]
  show ?thesis
    by (subst relayResponse.simps)
       (simp add: wire_simps assms(2) Let_def del: of_nat_add)
qed


lemma relayResponse_ready:
  assumes "frame_ok (MsgReadyForQuery, st # xs)"
  shows "relayResponse (open_writer out)
       \<lparr>rd_data = frame_bytes (MsgReadyForQuery, st # xs) @ rest, rd_end = e\<rparr>
     = (Inr st, open_writer (out @ frame_bytes (MsgReadyForQuery, st # xs)),
        \<lparr>rd_data = rest, rd_end = e\<rparr>)"
proof -
  let ?f = "(MsgReadyForQuery, st # xs)"
  have len: "length (st # xs) + 4 < 2 ^ 32"
    using assms by (simp add: frame_ok_def)
  have five: "5 + length xs = length (st # xs) + 4"
    by simp
  have sub: "unat (of_nat (5 + length xs) - 4 :: uint32) = Suc (length xs)"
    and ge: "\<not> (of_nat (5 + length xs) :: uint32) < 4"
    unfolding five using frame_len_sub [OF len] frame_len_ge [OF len] by simp_all
  have st: "read_full (Suc 0) \<lparr>rd_data = st # xs @ rest, rd_end = e\<rparr>
      = (Inr [st], \<lparr>rd_data = xs @ rest, rd_end = e\<rparr>)"
    using read_full_append [of 1 "[st]" "xs @ rest" e] by simp
  have fb: "frame_bytes ?f = frame_header ?f @ st # xs"
    by (simp add: frame_bytes_def del: frame_header_simps(4))
  show ?thesis
    by (subst relayResponse.simps)
       (simp add: wire_simps sub ge st Let_def fb
          del: of_nat_add of_nat_Suc frame_header_simps(4))
qed

lemma frame_bytes_cut: "frame_bytes f = frame_header f @ snd f"
  by simp

lemma Relay_frames:
  assumes "list_all frame_ok fs" "never_fails i"
  shows "Relay (Some i) s (open_writer out) \<lparr>rd_data = frames_bytes fs @ rest, rd_end = e\<rparr>
     = Relay (Some i) (foldl (\<lambda>s f. snd (i s (fst f) (inspected (snd f)))) s fs)
         (open_writer (out @ frames_bytes fs)) \<lparr>rd_data = rest, rd_end = e\<rparr>"
  using assms(1)
proof (induction fs arbitrary: s out)
  case Nil
  then show ?case by simp
next
  case (Cons f fs)
  then show ?case
    using assms(2) by (simp add: Relay_frame)
qed

lemma relayFrontend_frames:
  assumes "list_all frame_ok fs" "MsgTerminate \<notin> fst ` set fs"
  shows "relayFrontend (open_writer out) \<lparr>rd_data = frames_bytes fs @ rest, rd_end = e\<rparr>
     = relayFrontend (open_writer (out @ frames_bytes fs)) \<lparr>rd_data = rest, rd_end = e\<rparr>"
  using assms
  by (induction fs arbitrary: out) (auto simp: relayFrontend_frame image_iff)

lemma relayResponse_frames:
  assumes "list_all frame_ok fs" "MsgReadyForQuery \<notin> fst ` set fs"
  shows "relayResponse (open_writer out) \<lparr>rd_data = frames_bytes fs @ rest, rd_end = e\<rparr>
     = relayResponse (open_writer (out @ frames_bytes fs)) \<lparr>rd_data = rest, rd_end = e\<rparr>"
  using assms
  by (induction fs arbitrary: out) (auto simp: relayResponse_frame image_iff)


subsection \<open>Properties of the relays\<close>

text \<open>
  C9. \<^verbatim>\<open>protocol.Relay\<close> is transparent: on a stream of whole messages that ends at a message
  boundary, with an inspector that never fails, it returns nil, it has written exactly the bytes
  it read, and the inspector has seen every message once, in order, with its body, or with no
  body for a message above the 64 KiB limit.
\<close>

theorem Relay_transparent:
  assumes "list_all frame_ok fs" "never_fails i"
  shows "Relay (Some i) s (open_writer out) \<lparr>rd_data = frames_bytes fs, rd_end = EOF\<rparr>
     = (None, open_writer (out @ frames_bytes fs), \<lparr>rd_data = [], rd_end = EOF\<rparr>,
        foldl (\<lambda>s f. snd (i s (fst f) (inspected (snd f)))) s fs)"
  using Relay_frames [OF assms, of s out "[]" EOF] by (simp add: Relay_end)

theorem Relay_transparent_witness:
  "Relay (Some (\<lambda>n t b. (None, n + 1))) (0::nat) (open_writer [])
     \<lparr>rd_data = frames_bytes [(MsgQuery, [49, 0]), (MsgSync, [])], rd_end = EOF\<rparr>
   = (None, open_writer [81, 0, 0, 0, 6, 49, 0, 83, 0, 0, 0, 4], \<lparr>rd_data = [], rd_end = EOF\<rparr>, 2)"
proof -
  let ?i = "\<lambda>n t b. (None, n + 1) :: string option \<times> nat"
  have "list_all frame_ok [(MsgQuery, [49, 0]), (MsgSync, [])]"
    by (simp add: frame_ok_def)
  moreover have "never_fails ?i"
    by (simp add: never_fails_def)
  ultimately have "Relay (Some ?i) 0 (open_writer [])
     \<lparr>rd_data = frames_bytes [(MsgQuery, [49, 0]), (MsgSync, [])], rd_end = EOF\<rparr>
   = (None, open_writer ([] @ frames_bytes [(MsgQuery, [49, 0]), (MsgSync, [])]),
      \<lparr>rd_data = [], rd_end = EOF\<rparr>, 2)"
    using Relay_transparent [of "[(MsgQuery, [49, 0]), (MsgSync, [])]" ?i 0 "[]"] by simp
  moreover have "frames_bytes [(MsgQuery, [49, 0]), (MsgSync, [])]
      = [81, 0, 0, 0, 6, 49, 0, 83, 0, 0, 0, 4]"
    by (simp add: frame_bytes_def frame_header_def uint32_be_def msg_type_defs
          del: frame_header_simps(4))
  ultimately show ?thesis by simp
qed


text \<open>What a relay has sent, whatever happens to it, is a prefix of what it was to send.\<close>

definition sent :: "writer \<Rightarrow> reader \<Rightarrow> writer \<Rightarrow> bool" where
  "sent dst src dst' = (\<exists>p q. wr_out dst' = wr_out dst @ p \<and> rd_data src = p @ q)"

lemma sent_refl [intro]: "sent dst src dst"
  by (simp add: sent_def)

lemma sent_step:
  assumes "read_full n src = (Inr xs, src1)" "write_bytes xs dst = (None, dst1)"
    and "sent dst1 src1 dst'"
  shows "sent dst src dst'"
  using assms read_full_Inr [OF assms(1)] write_bytes_prefix [OF assms(2)]
  by (fastforce simp: sent_def)

lemma sent_fail:
  assumes "read_full n src = (Inr xs, src1)" "write_bytes xs dst = (Some e, dst1)"
  shows "sent dst src dst1"
  using assms read_full_Inr [OF assms(1)] write_bytes_prefix [OF assms(2)]
  by (fastforce simp: sent_def)

lemma sent_copy:
  assumes "copy_n n dst src = (None, dst1, src1)" "sent dst1 src1 dst'"
  shows "sent dst src dst'"
  using assms(2) copy_n_prefix [OF assms(1)] by (fastforce simp: sent_def)

lemma sent_copy_fail: "copy_n n dst src = (Some e, dst1, src1) \<Longrightarrow> sent dst src dst1"
  using copy_n_prefix by (fastforce simp: sent_def)

lemmas sent_intros = sent_refl sent_step sent_fail sent_copy sent_copy_fail

text \<open>
  Whatever the source, the sink and the inspector do (a short or failing read, a failing
  write, an inspector that aborts), the bytes \<^verbatim>\<open>protocol.Relay\<close> adds to the sink are a prefix of
  the bytes of the source: nothing is dropped, reordered, repeated or made up.
\<close>

theorem Relay_prefix:
  "\<exists>p q. wr_out (fst (snd (Relay insp s dst src))) = wr_out dst @ p \<and> rd_data src = p @ q"
proof -
  have "sent dst src (fst (snd (Relay insp s dst src)))"
  proof (induction "length (rd_data src)" arbitrary: s dst src rule: less_induct)
    case less
    note IH = less and eq = Relay.simps [of insp s dst src]
    obtain h src1 where rd: "read_full 5 src = (h, src1)" by fastforce
    show ?case
    proof (cases h)
      case (Inr header)
      note rd = rd [unfolded Inr]
      let ?len = "be_uint32_list (tl header)" and ?n = "unat (be_uint32_list (tl header) - 4)"
      obtain e1 dst1 where wr: "write_bytes header dst = (e1, dst1)" by fastforce
      consider (short) "?len < 4" | (fail) e where "\<not> ?len < 4" "e1 = Some e"
        | (body) "\<not> ?len < 4" "e1 = None" "?n \<le> maxInspectBody"
        | (big) "\<not> ?len < 4" "e1 = None" "\<not> ?n \<le> maxInspectBody"
        by fastforce
      then show ?thesis
      proof cases
        case body
        note wr = wr [unfolded body(2)]
        obtain b src2 where rd2: "read_full ?n src1 = (b, src2)" by fastforce
        obtain e2 s1 where ins: "call_inspect insp s (hd header) (Some (projr b)) = (e2, s1)"
          by fastforce
        obtain e3 dst2 where wr2: "write_bytes (projr b) dst1 = (e3, dst2)" by fastforce
        show ?thesis
          using rd wr rd2 ins wr2 body IH [of src2 dst2 s1] read_full_less [OF rd [symmetric]]
            read_full_less [of "projr b" src2 ?n src1]
          by (cases b; cases e2; cases e3)
             (auto simp: eq Let_def intro: sent_step [OF rd wr] sent_step sent_fail)
      next
        case big
        note wr = wr [unfolded big(2)]
        obtain e2 s1 where ins: "call_inspect insp s (hd header) None = (e2, s1)" by fastforce
        obtain e3 dst2 src2 where cp: "copy_n ?n dst1 src1 = (e3, dst2, src2)" using prod_cases3 by blast
        show ?thesis
          using rd wr ins cp big IH [of src2 dst2 s1] read_full_less [OF rd [symmetric]]
            copy_n_less [OF cp [symmetric]]
          by (cases e2; cases e3)
             (auto simp: eq Let_def intro: sent_step [OF rd wr] sent_copy sent_copy_fail)
      qed (use rd wr in \<open>auto simp: eq Let_def intro: sent_fail\<close>)
    qed (use rd in \<open>auto simp: eq\<close>)
  qed
  then show ?thesis
    by (simp add: sent_def)
qed


text \<open>
  \<^verbatim>\<open>relayResponse\<close> forwards the messages of one response byte for byte, up to and including
  the first \<^verbatim>\<open>ReadyForQuery\<close>, returns its transaction-status byte, and leaves what follows in the
  backend's stream unread: the connection stays at a message boundary.
\<close>

theorem relayResponse_one_response:
  assumes "list_all frame_ok fs" "MsgReadyForQuery \<notin> fst ` set fs"
    and "frame_ok (MsgReadyForQuery, st # xs)"
  shows "relayResponse (open_writer out)
       \<lparr>rd_data = frames_bytes (fs @ [(MsgReadyForQuery, st # xs)]) @ rest, rd_end = e\<rparr>
     = (Inr st, open_writer (out @ frames_bytes (fs @ [(MsgReadyForQuery, st # xs)])),
        \<lparr>rd_data = rest, rd_end = e\<rparr>)"
proof -
  let ?z = "frame_bytes (MsgReadyForQuery, st # xs)"
  have split: "frames_bytes (fs @ [(MsgReadyForQuery, st # xs)]) = frames_bytes fs @ ?z"
    by (simp add: frames_bytes_def)
  show ?thesis
    using relayResponse_frames [OF assms(1,2), of out "?z @ rest" e]
      relayResponse_ready [OF assms(3), of "out @ frames_bytes fs" rest e]
    by (simp add: split)
qed

theorem relayResponse_one_response_witness:
  "relayResponse (open_writer [])
     \<lparr>rd_data = frames_bytes ([(MsgCommandComplete, [79, 75, 0])] @ [(MsgReadyForQuery, 73 # [])])
        @ [1, 2], rd_end = EOF\<rparr>
   = (Inr 73, open_writer ([] @ frames_bytes ([(MsgCommandComplete, [79, 75, 0])] @ [(MsgReadyForQuery, 73 # [])])),
      \<lparr>rd_data = [1, 2], rd_end = EOF\<rparr>)"
proof (rule relayResponse_one_response)
  show "list_all frame_ok [(MsgCommandComplete, [79, 75, 0])]"
    by (simp add: frame_ok_def)
  show "MsgReadyForQuery \<notin> fst ` set [(MsgCommandComplete, [79, 75, 0 :: byte])]"
    by (simp add: msg_type_defs)
  show "frame_ok (MsgReadyForQuery, 73 # [])"
    by (simp add: frame_ok_def)
qed

lemma relayFrontend_stop:
  "length l = 4 \<Longrightarrow>
   relayFrontend dst \<lparr>rd_data = MsgTerminate # l @ rest, rd_end = e\<rparr>
     = ((True, None), dst, \<lparr>rd_data = rest, rd_end = e\<rparr>)"
  by (subst relayFrontend.simps) (simp add: read_full_def)

lemma relayFrontend_terminated:
  assumes "list_all frame_ok fs" "MsgTerminate \<notin> fst ` set fs"
  shows "relayFrontend (open_writer out)
       \<lparr>rd_data = frames_bytes fs @ frame_bytes (MsgTerminate, []) @ rest, rd_end = e\<rparr>
     = ((True, None), open_writer (out @ frames_bytes fs), \<lparr>rd_data = rest, rd_end = e\<rparr>)"
proof -
  have "frame_bytes (MsgTerminate, []) @ rest = MsgTerminate # uint32_be 4 @ rest"
    by (simp add: frame_bytes_def frame_header_def del: frame_header_simps(4))
  then show ?thesis
    using relayFrontend_frames [OF assms, of out "frame_bytes (MsgTerminate, []) @ rest" e]
      relayFrontend_stop [of "uint32_be 4" "open_writer (out @ frames_bytes fs)" rest e]
    by simp
qed

text \<open>
  \<^verbatim>\<open>relayFrontend\<close> forwards every message before the client's \<^verbatim>\<open>Terminate\<close> byte for byte and
  nothing of the \<^verbatim>\<open>Terminate\<close> itself, so that the backend survives the client, and reports a
  clean end.
\<close>

theorem relayFrontend_keeps_backend:
  assumes "list_all frame_ok fs" "MsgTerminate \<notin> fst ` set fs"
  shows "relayFrontend (open_writer out)
       \<lparr>rd_data = frames_bytes fs @ frame_bytes (MsgTerminate, []) @ rest, rd_end = e\<rparr>
     = ((True, None), open_writer (out @ frames_bytes fs), \<lparr>rd_data = rest, rd_end = e\<rparr>)"
  by (rule relayFrontend_terminated [OF assms])

theorem relayFrontend_keeps_backend_witness:
  "relayFrontend (open_writer [])
     \<lparr>rd_data = frames_bytes [(MsgQuery, [59, 0])] @ frame_bytes (MsgTerminate, []) @ [], rd_end = EOF\<rparr>
   = ((True, None), open_writer ([] @ frames_bytes [(MsgQuery, [59, 0])]), \<lparr>rd_data = [], rd_end = EOF\<rparr>)"
proof (rule relayFrontend_keeps_backend)
  show "list_all frame_ok [(MsgQuery, [59, 0])]"
    by (simp add: frame_ok_def)
  show "MsgTerminate \<notin> fst ` set [(MsgQuery, [59, 0 :: byte])]"
    by (simp add: msg_type_defs)
qed

lemma readMessage_frame:
  assumes "length (snd f) \<le> maxBufferedMessage"
  shows "readMessage \<lparr>rd_data = frame_bytes f @ rest, rd_end = e\<rparr>
     = (Inr (fst f, frame_bytes f), \<lparr>rd_data = rest, rd_end = e\<rparr>)"
proof -
  have len: "length (snd f) + 4 < 2 ^ 32"
    using assms by (simp add: maxBufferedMessage_def)
  show ?thesis
    using assms
    by (simp add: readMessage_def wire_simps frame_len_ge [OF len] frame_len_sub [OF len] Let_def
          del: of_nat_add)
qed

lemma queryString_frame: "queryString (frame_bytes (t, bytes_of sql @ [0])) = sql"
proof -
  have "drop 5 (frame_bytes (t, bytes_of sql @ [0])) = bytes_of sql @ [0]"
    by (simp add: frame_bytes_cut del: frame_header_simps(4))
  then show ?thesis
    by (simp add: queryString_def)
qed

text \<open>
  A simple query read off the client is the query the client sent: \<^verbatim>\<open>readMessage\<close> returns the
  type and the whole message of a \<^verbatim>\<open>Query\<close> within the 64 MiB limit, leaves the next message in the
  stream, and \<^verbatim>\<open>queryString\<close> of it is the SQL text without the terminating NUL.
\<close>

theorem readMessage_queryString:
  assumes "length sql < maxBufferedMessage"
  shows "\<exists>full. readMessage \<lparr>rd_data = frame_bytes (MsgQuery, bytes_of sql @ [0]) @ rest, rd_end = e\<rparr>
       = (Inr (MsgQuery, full), \<lparr>rd_data = rest, rd_end = e\<rparr>)
     \<and> full = frame_bytes (MsgQuery, bytes_of sql @ [0]) \<and> queryString full = sql"
  using readMessage_frame [of "(MsgQuery, bytes_of sql @ [0])" rest e] assms
  by (simp add: queryString_frame)

theorem readMessage_queryString_witness:
  "\<exists>full. readMessage \<lparr>rd_data = frame_bytes (MsgQuery, bytes_of ''SELECT 1'' @ [0]) @ [7], rd_end = EOF\<rparr>
       = (Inr (MsgQuery, full), \<lparr>rd_data = [7], rd_end = EOF\<rparr>)
     \<and> full = frame_bytes (MsgQuery, bytes_of ''SELECT 1'' @ [0]) \<and> queryString full = ''SELECT 1''"
  by (rule readMessage_queryString) (simp add: maxBufferedMessage_def)

end
