(* ===== verification/TxStatus.thy ===== *)
theory TxStatus
  imports Relay
begin

text \<open>
  \<^verbatim>\<open>internal/protocol/txstatus.go\<close> and \<^verbatim>\<open>ParseReadyForQuery\<close> of \<^verbatim>\<open>message.go\<close>: the transaction
  status a backend reports, the tracker of the latest status of a session, and the inspector
  \<^verbatim>\<open>trackBackend\<close> that feeds it from the relay. \<^verbatim>\<open>codec.go\<close> is here too, with the message
  decoders of pgproto3 as a parameter.
\<close>


subsection \<open>Statuses\<close>

definition StatusIdle :: byte where "StatusIdle = of_char (CHR ''I'')"
definition StatusInTx :: byte where "StatusInTx = of_char (CHR ''T'')"
definition StatusInFailedTx :: byte where "StatusInFailedTx = of_char (CHR ''E'')"

lemmas status_defs = StatusIdle_def StatusInTx_def StatusInFailedTx_def

definition TxStatus_Valid :: "byte \<Rightarrow> bool" where
  "TxStatus_Valid s = (s = StatusIdle \<or> s = StatusInTx \<or> s = StatusInFailedTx)"

definition TxStatus_InTransaction :: "byte \<Rightarrow> bool" where
  "TxStatus_InTransaction s = (s = StatusInTx \<or> s = StatusInFailedTx)"

text \<open>
  \<^verbatim>\<open>String\<close>. A byte that is no status is printed by \<^verbatim>\<open>%q\<close> as a rune: escaped where it is a quote, a
  backslash or not printable, and from 0x80 on in the two bytes of its UTF-8 encoding.
\<close>

definition quote_rune :: "byte \<Rightarrow> string" where
  "quote_rune b =
     (let n = unat b; hex = (\<lambda>d. char_of (if d < 10 then 48 + d else 87 + d) :: char)
      in [CHR 0x27] @
         (if n = 39 \<or> n = 92 then [CHR 0x5C, char_of n]
          else if 7 \<le> n \<and> n \<le> 13 then [CHR 0x5C, ''abtnvfr'' ! (n - 7)]
          else if n < 32 \<or> n = 127 then [CHR 0x5C, CHR ''x'', hex (n div 16), hex (n mod 16)]
          else if n < 127 then [char_of n]
          else if n \<le> 160 \<or> n = 173 then [CHR 0x5C, CHR ''u'', CHR ''0'', CHR ''0'', hex (n div 16), hex (n mod 16)]
          else [char_of (192 + n div 64), char_of (128 + n mod 64)]) @ [CHR 0x27])"

definition TxStatus_String :: "byte \<Rightarrow> string" where
  "TxStatus_String s =
     (if s = StatusIdle then ''idle''
      else if s = StatusInTx then ''in transaction''
      else if s = StatusInFailedTx then ''in failed transaction''
      else ''unknown('' @ quote_rune s @ '')'')"

definition ParseReadyForQuery :: "byte list option \<Rightarrow> byte option" where
  "ParseReadyForQuery body =
     (case body of
        Some [b] \<Rightarrow> if TxStatus_Valid b then Some b else None
      | _ \<Rightarrow> None)"


subsection \<open>The tracker\<close>

record TxTracker =
  tt_status :: byte
  tt_seen :: bool

definition new_tracker :: TxTracker where
  "new_tracker = \<lparr>tt_status = 0, tt_seen = False\<rparr>"

definition TxTracker_Update :: "TxTracker \<Rightarrow> byte \<Rightarrow> bool \<times> TxTracker" where
  "TxTracker_Update t s =
     (\<not> tt_seen t \<or> tt_status t \<noteq> s, t\<lparr>tt_status := s, tt_seen := True\<rparr>)"

definition TxTracker_Status :: "TxTracker \<Rightarrow> byte \<times> bool" where
  "TxTracker_Status t = (tt_status t, tt_seen t)"

definition TxTracker_InTransaction :: "TxTracker \<Rightarrow> bool" where
  "TxTracker_InTransaction t = (tt_seen t \<and> TxStatus_InTransaction (tt_status t))"

text \<open>\<^verbatim>\<open>session.trackBackend\<close>, as the inspector of the relay from the backend.\<close>

definition trackBackend :: "TxTracker inspect_func" where
  "trackBackend t msgType body =
     (if msgType = MsgReadyForQuery
      then (case ParseReadyForQuery body of
              Some st \<Rightarrow> (None, snd (TxTracker_Update t st))
            | None \<Rightarrow> (None, t))
      else (None, t))"


subsection \<open>Decoding\<close>

text \<open>
  The decoders of pgproto3 are not part of the repository: a parameter gives, for the kind of
  message and its body, what \<^verbatim>\<open>Decode\<close> does, a panic included.
\<close>

datatype 'm decoded = DecodeOk 'm | DecodeErr string | DecodePanic string

datatype frontend_kind = FQuery | FParse | FBind | FDescribe | FExecute | FSync | FTerminate

datatype backend_kind = BReadyForQuery | BCommandComplete | BErrorResponse | BRowDescription | BDataRow

datatype codec_err = Unsupported byte | BadBody byte string

definition decodeSafely :: "(byte list \<Rightarrow> 'm decoded) \<Rightarrow> byte list \<Rightarrow> string + 'm" where
  "decodeSafely decode body =
     (case decode body of
        DecodeOk m \<Rightarrow> Inr m
      | DecodeErr e \<Rightarrow> Inl e
      | DecodePanic r \<Rightarrow> Inl (''panic: '' @ r))"

definition frontend_kind_of :: "byte \<Rightarrow> frontend_kind option" where
  "frontend_kind_of msgType =
     (if msgType = MsgQuery then Some FQuery
      else if msgType = MsgParse then Some FParse
      else if msgType = MsgBind then Some FBind
      else if msgType = MsgDescribe then Some FDescribe
      else if msgType = MsgExecute then Some FExecute
      else if msgType = MsgSync then Some FSync
      else if msgType = MsgTerminate then Some FTerminate
      else None)"

definition backend_kind_of :: "byte \<Rightarrow> backend_kind option" where
  "backend_kind_of msgType =
     (if msgType = MsgReadyForQuery then Some BReadyForQuery
      else if msgType = MsgCommandComplete then Some BCommandComplete
      else if msgType = MsgErrorResponse then Some BErrorResponse
      else if msgType = MsgRowDescription then Some BRowDescription
      else if msgType = MsgDataRow then Some BDataRow
      else None)"

definition DecodeFrontend ::
  "(frontend_kind \<Rightarrow> byte list \<Rightarrow> 'm decoded) \<Rightarrow> byte \<Rightarrow> byte list \<Rightarrow> codec_err + 'm" where
  "DecodeFrontend dec msgType body =
     (case frontend_kind_of msgType of
        None \<Rightarrow> Inl (Unsupported msgType)
      | Some k \<Rightarrow> (case decodeSafely (dec k) body of
                     Inl e \<Rightarrow> Inl (BadBody msgType e)
                   | Inr m \<Rightarrow> Inr m))"

definition DecodeBackend ::
  "(backend_kind \<Rightarrow> byte list \<Rightarrow> 'm decoded) \<Rightarrow> byte \<Rightarrow> byte list \<Rightarrow> codec_err + 'm" where
  "DecodeBackend dec msgType body =
     (case backend_kind_of msgType of
        None \<Rightarrow> Inl (Unsupported msgType)
      | Some k \<Rightarrow> (case decodeSafely (dec k) body of
                     Inl e \<Rightarrow> Inl (BadBody msgType e)
                   | Inr m \<Rightarrow> Inr m))"

text \<open>A message is returned only when the decoder for the type, in that direction, returned it.\<close>

lemma DecodeFrontend_Inr:
  "DecodeFrontend dec t body = Inr m \<longleftrightarrow>
     (\<exists>k. frontend_kind_of t = Some k \<and> dec k body = DecodeOk m)"
  by (auto simp: DecodeFrontend_def decodeSafely_def split: option.splits decoded.splits)

lemma DecodeBackend_Inr:
  "DecodeBackend dec t body = Inr m \<longleftrightarrow>
     (\<exists>k. backend_kind_of t = Some k \<and> dec k body = DecodeOk m)"
  by (auto simp: DecodeBackend_def decodeSafely_def split: option.splits decoded.splits)

lemma decode_direction:
  "frontend_kind_of MsgExecute = Some FExecute" "backend_kind_of MsgExecute = Some BErrorResponse"
  "frontend_kind_of MsgDescribe = Some FDescribe" "backend_kind_of MsgDescribe = Some BDataRow"
  by (simp_all add: frontend_kind_of_def backend_kind_of_def msg_type_defs)


subsection \<open>The tracker follows the backend\<close>

text \<open>The status that a message announces, if it is a well-formed \<^verbatim>\<open>ReadyForQuery\<close>.\<close>

definition announced :: "frame \<Rightarrow> byte option" where
  "announced f =
     (if fst f = MsgReadyForQuery then ParseReadyForQuery (inspected (snd f)) else None)"

lemma trackBackend_never_fails: "never_fails trackBackend"
  by (simp add: never_fails_def trackBackend_def split: option.splits)

lemma trackBackend_announced:
  "snd (trackBackend t (fst f) (inspected (snd f))) =
     (case announced f of None \<Rightarrow> t | Some st \<Rightarrow> \<lparr>tt_status = st, tt_seen = True\<rparr>)"
  by (cases t) (simp add: trackBackend_def announced_def TxTracker_Update_def split: option.splits)

lemma foldl_announced:
  "foldl (\<lambda>t f. snd (trackBackend t (fst f) (inspected (snd f)))) t fs =
     (case List.map_filter announced fs of
        [] \<Rightarrow> t
      | sts \<Rightarrow> \<lparr>tt_status = last sts, tt_seen = True\<rparr>)"
  by (induction fs arbitrary: t)
     (auto simp: trackBackend_announced List.map_filter_simps split: option.splits list.splits)

text \<open>
  C27. The tracker is exact: after the relay has forwarded a backend's messages, the tracker
  holds the status of the last well-formed \<^verbatim>\<open>ReadyForQuery\<close> among them (or is as it was, when
  there was none), and reports a transaction exactly when that status is T or E.
\<close>

theorem tracker_follows_backend:
  assumes "list_all frame_ok fs"
  shows "\<exists>t'. Relay (Some trackBackend) t (open_writer out) \<lparr>rd_data = frames_bytes fs, rd_end = EOF\<rparr>
       = (None, open_writer (out @ frames_bytes fs), \<lparr>rd_data = [], rd_end = EOF\<rparr>, t')
     \<and> (case List.map_filter announced fs of
          [] \<Rightarrow> t' = t
        | sts \<Rightarrow> TxTracker_Status t' = (last sts, True)
            \<and> (TxTracker_InTransaction t' \<longleftrightarrow> last sts \<in> {StatusInTx, StatusInFailedTx}))"
proof -
  have "Relay (Some trackBackend) t (open_writer out) \<lparr>rd_data = frames_bytes fs, rd_end = EOF\<rparr>
      = (None, open_writer (out @ frames_bytes fs), \<lparr>rd_data = [], rd_end = EOF\<rparr>,
         foldl (\<lambda>t f. snd (trackBackend t (fst f) (inspected (snd f)))) t fs)"
    using Relay_frames [OF assms trackBackend_never_fails, of t out "[]" EOF]
    by (simp add: Relay_end)
  then show ?thesis
    by (auto simp: foldl_announced TxTracker_Status_def TxTracker_InTransaction_def
          TxStatus_InTransaction_def split: list.splits)
qed

theorem tracker_follows_backend_witness:
  "\<exists>t'. Relay (Some trackBackend) new_tracker (open_writer [])
         \<lparr>rd_data = frames_bytes [(MsgReadyForQuery, [84]), (MsgReadyForQuery, [9])], rd_end = EOF\<rparr>
       = (None, open_writer ([] @ frames_bytes [(MsgReadyForQuery, [84]), (MsgReadyForQuery, [9])]),
          \<lparr>rd_data = [], rd_end = EOF\<rparr>, t')
     \<and> TxTracker_Status t' = (StatusInTx, True) \<and> TxTracker_InTransaction t'"
proof -
  have ok: "list_all frame_ok [(MsgReadyForQuery, [84]), (MsgReadyForQuery, [9])]"
    by (simp add: frame_ok_def)
  have "List.map_filter announced [(MsgReadyForQuery, [84]), (MsgReadyForQuery, [9])] = [StatusInTx]"
    by (simp add: List.map_filter_simps announced_def ParseReadyForQuery_def inspected_def
          maxInspectBody_def TxStatus_Valid_def status_defs)
  then show ?thesis
    using tracker_follows_backend [OF ok, of new_tracker "[]"] by auto
qed

end
