(* ===== verification/Startup.thy ===== *)
theory Startup
  imports Wire
begin

text \<open>
  The startup phase: \<^verbatim>\<open>internal/proxy/startup.go\<close> and \<^verbatim>\<open>negotiateStartup\<close> of
  \<^verbatim>\<open>internal/proxy/session.go\<close>, which refuses encryption requests until the client sends a real
  startup or cancel packet.
\<close>

definition maxStartupPacketLength :: uint32 where "maxStartupPacketLength = 10000"
definition sslRequestCode :: uint32 where "sslRequestCode = 80877103"
definition gssEncRequestCode :: uint32 where "gssEncRequestCode = 80877104"
definition cancelRequestCode :: uint32 where "cancelRequestCode = 80877102"

definition sslNotSupported :: byte where "sslNotSupported = of_char (CHR ''N'')"

record startupPacket =
  sp_raw :: "byte list"
  sp_code :: uint32

definition isSSLRequest :: "startupPacket \<Rightarrow> bool" where
  "isSSLRequest p = (sp_code p = sslRequestCode)"

definition isGSSEncRequest :: "startupPacket \<Rightarrow> bool" where
  "isGSSEncRequest p = (sp_code p = gssEncRequestCode)"

definition isCancelRequest :: "startupPacket \<Rightarrow> bool" where
  "isCancelRequest p = (sp_code p = cancelRequestCode)"

datatype startup_err = StartupIO io_err | StartupLength uint32 | SSLRefusal io_err

definition readStartupPacket :: "reader \<Rightarrow> (startup_err + startupPacket) \<times> reader" where
  "readStartupPacket r =
     (case read_full 4 r of
        (Inl e, r1) \<Rightarrow> (Inl (StartupIO e), r1)
      | (Inr header, r1) \<Rightarrow>
          let msgLen = be_uint32_list header
          in if msgLen < 8 \<or> maxStartupPacketLength < msgLen then (Inl (StartupLength msgLen), r1)
             else (case read_full (unat msgLen - 4) r1 of
                     (Inl e, r2) \<Rightarrow> (Inl (StartupIO e), r2)
                   | (Inr body, r2) \<Rightarrow>
                       (Inr \<lparr>sp_raw = header @ body, sp_code = be_uint32_list (drop 4 (header @ body))\<rparr>,
                        r2)))"

lemma readStartupPacket_less:
  "(Inr p, r') = readStartupPacket r \<Longrightarrow> length (rd_data r') < length (rd_data r)"
  by (auto simp: readStartupPacket_def Let_def dest!: read_full_less sym [of "read_full _ _"]
        split: prod.splits sum.splits if_splits)

function negotiateStartup ::
  "writer \<Rightarrow> reader \<Rightarrow> (startup_err + startupPacket) \<times> writer \<times> reader"
where
  "negotiateStartup client_w client_r =
     (case readStartupPacket client_r of
        (Inl e, r1) \<Rightarrow> (Inl e, client_w, r1)
      | (Inr pkt, r1) \<Rightarrow>
          if isSSLRequest pkt \<or> isGSSEncRequest pkt
          then (case write_bytes [sslNotSupported] client_w of
                  (Some e, w1) \<Rightarrow> (Inl (SSLRefusal e), w1, r1)
                | (None, w1) \<Rightarrow> negotiateStartup w1 r1)
          else (Inr pkt, client_w, r1))"
  by pat_completeness auto
termination
  by (relation "measure (\<lambda>(w, r). length (rd_data r))") (auto dest: readStartupPacket_less)

declare negotiateStartup.simps [simp del]


subsection \<open>Packets\<close>

text \<open>A startup packet with the given body (the code and what follows it) on the wire.\<close>

definition packet_bytes :: "byte list \<Rightarrow> byte list" where
  "packet_bytes body = uint32_be (of_nat (length body + 4)) @ body"

definition packet_ok :: "byte list \<Rightarrow> bool" where
  "packet_ok body = (4 \<le> length body \<and> length body + 4 \<le> 10000)"

lemma readStartupPacket_packet:
  assumes "packet_ok body"
  shows "readStartupPacket \<lparr>rd_data = packet_bytes body @ rest, rd_end = e\<rparr> =
     (Inr \<lparr>sp_raw = packet_bytes body, sp_code = be_uint32_list body\<rparr>, \<lparr>rd_data = rest, rd_end = e\<rparr>)"
proof -
  let ?n = "of_nat (length body + 4) :: uint32"
  have n: "unat ?n = length body + 4"
    using assms by (simp add: packet_ok_def unat_of_nat del: of_nat_add)
  have rng: "\<not> (?n < 8 \<or> maxStartupPacketLength < ?n)"
    using assms n by (simp add: packet_ok_def maxStartupPacketLength_def word_less_nat_alt del: of_nat_add)
  have "read_full 4 \<lparr>rd_data = packet_bytes body @ rest, rd_end = e\<rparr>
      = (Inr (uint32_be ?n), \<lparr>rd_data = body @ rest, rd_end = e\<rparr>)"
    by (simp add: packet_bytes_def read_full_append del: of_nat_add)
  moreover have "be_uint32_list (uint32_be ?n) = ?n"
    using be_uint32_list_uint32_be [of ?n "[]"] by simp
  ultimately show ?thesis
    using n rng by (simp add: readStartupPacket_def read_full_append packet_bytes_def del: of_nat_add)
qed

lemma readStartupPacket_Inr:
  assumes "readStartupPacket r = (Inr p, r')"
  shows "rd_data r = sp_raw p @ rd_data r' \<and> 8 \<le> length (sp_raw p) \<and> length (sp_raw p) \<le> 10000
    \<and> sp_code p = be_uint32_list (drop 4 (sp_raw p))"
proof -
  from assms obtain header r1 body where
    h: "read_full 4 r = (Inr header, r1)" and
    b: "read_full (unat (be_uint32_list header) - 4) r1 = (Inr body, r')" and
    rng: "\<not> (be_uint32_list header < 8 \<or> maxStartupPacketLength < be_uint32_list header)" and
    p: "p = \<lparr>sp_raw = header @ body, sp_code = be_uint32_list (drop 4 (header @ body))\<rparr>"
    by (auto simp: readStartupPacket_def Let_def split: prod.splits sum.splits if_splits)
  from rng have "8 \<le> unat (be_uint32_list header)" "unat (be_uint32_list header) \<le> 10000"
    by (simp_all add: maxStartupPacketLength_def word_less_nat_alt not_less)
  with read_full_Inr [OF h] read_full_Inr [OF b] show ?thesis
    by (simp add: p)
qed


subsection \<open>Negotiation\<close>

lemma negotiateStartup_refuse:
  assumes "packet_ok body" "be_uint32_list body \<in> {sslRequestCode, gssEncRequestCode}"
  shows "negotiateStartup (open_writer out) \<lparr>rd_data = packet_bytes body @ rest, rd_end = e\<rparr>
     = negotiateStartup (open_writer (out @ [sslNotSupported])) \<lparr>rd_data = rest, rd_end = e\<rparr>"
  using assms(2)
  by (subst negotiateStartup.simps)
     (auto simp: readStartupPacket_packet [OF assms(1)] isSSLRequest_def isGSSEncRequest_def wire_simps)

text \<open>
  Negotiation refuses encryption and nothing else: after any number of \<^verbatim>\<open>SSLRequest\<close> and
  \<^verbatim>\<open>GSSENCRequest\<close> packets the client has been sent one byte N per request, and the first other
  packet is returned whole, with the rest of the stream unread.
\<close>

theorem negotiateStartup_refuses:
  assumes "\<And>body. body \<in> set reqs \<Longrightarrow> packet_ok body
      \<and> be_uint32_list body \<in> {sslRequestCode, gssEncRequestCode}"
    and "packet_ok body" "be_uint32_list body \<notin> {sslRequestCode, gssEncRequestCode}"
  shows "negotiateStartup (open_writer out)
       \<lparr>rd_data = concat (map packet_bytes reqs) @ packet_bytes body @ rest, rd_end = e\<rparr>
     = (Inr \<lparr>sp_raw = packet_bytes body, sp_code = be_uint32_list body\<rparr>,
        open_writer (out @ replicate (length reqs) sslNotSupported), \<lparr>rd_data = rest, rd_end = e\<rparr>)"
  using assms(1)
proof (induction reqs arbitrary: out)
  case Nil
  show ?case
    using assms(3)
    by (subst negotiateStartup.simps)
       (simp add: readStartupPacket_packet [OF assms(2)] isSSLRequest_def isGSSEncRequest_def)
next
  case (Cons r reqs)
  then show ?case
    using negotiateStartup_refuse [of r out "concat (map packet_bytes reqs) @ packet_bytes body @ rest" e]
    by simp
qed

theorem negotiateStartup_refuses_witness:
  "negotiateStartup (open_writer [])
     \<lparr>rd_data = concat (map packet_bytes [[4, 210, 22, 47], [4, 210, 22, 48]])
        @ packet_bytes [0, 3, 0, 0] @ [], rd_end = EOF\<rparr>
   = (Inr \<lparr>sp_raw = packet_bytes [0, 3, 0, 0], sp_code = be_uint32_list [0, 3, 0, 0]\<rparr>,
      open_writer ([] @ replicate (length [[4, 210, 22, 47 :: byte], [4, 210, 22, 48]]) sslNotSupported),
      \<lparr>rd_data = [], rd_end = EOF\<rparr>)"
  by (rule negotiateStartup_refuses)
     (auto simp: packet_ok_def be_uint32_def sslRequestCode_def gssEncRequestCode_def)

text \<open>
  Whatever the client sends, a packet that negotiation returns has between 8 and 10000
  bytes, is not an encryption request, was the last thing consumed, and the client has been
  sent only N bytes.
\<close>

theorem negotiateStartup_bounds:
  assumes "negotiateStartup w r = (Inr p, w', r')"
  shows "8 \<le> length (sp_raw p) \<and> length (sp_raw p) \<le> 10000
    \<and> \<not> isSSLRequest p \<and> \<not> isGSSEncRequest p
    \<and> (\<exists>pre k. rd_data r = pre @ sp_raw p @ rd_data r'
          \<and> wr_out w' = wr_out w @ replicate k sslNotSupported)"
  using assms
proof (induction w r rule: negotiateStartup.induct)
  case (1 w r)
  from "1.prems" obtain pkt r1 where rd: "readStartupPacket r = (Inr pkt, r1)"
    by (subst (asm) negotiateStartup.simps) (auto split: prod.splits sum.splits)
  show ?case
  proof (cases "isSSLRequest pkt \<or> isGSSEncRequest pkt")
    case False
    with "1.prems" rd have "p = pkt" "w' = w" "r' = r1"
      by (subst (asm) negotiateStartup.simps, simp)+
    with False readStartupPacket_Inr [OF rd] show ?thesis
      by (auto intro: exI [of _ "[]"] exI [of _ 0])
  next
    case True
    with "1.prems" rd obtain w1 where w1: "write_bytes [sslNotSupported] w = (None, w1)"
      and rec: "negotiateStartup w1 r1 = (Inr p, w', r')"
      by (subst (asm) negotiateStartup.simps) (auto split: prod.splits option.splits)
    from "1.IH" [OF rd [symmetric] refl True w1 [symmetric] refl rec] obtain pre k where
      IH: "8 \<le> length (sp_raw p)" "length (sp_raw p) \<le> 10000" "\<not> isSSLRequest p"
        "\<not> isGSSEncRequest p" "rd_data r1 = pre @ sp_raw p @ rd_data r'"
        "wr_out w' = wr_out w1 @ replicate k sslNotSupported"
      by blast
    from w1 have "wr_out w1 = wr_out w @ [sslNotSupported]"
      by (auto simp: write_bytes_def split: option.splits if_splits)
    with IH readStartupPacket_Inr [OF rd] show ?thesis
      by (auto intro: exI [of _ "sp_raw pkt @ pre"] exI [of _ "Suc k"])
  qed
qed

theorem negotiateStartup_bounds_witness:
  "\<exists>p w' r'. negotiateStartup (open_writer []) \<lparr>rd_data = packet_bytes [0, 3, 0, 0], rd_end = EOF\<rparr>
        = (Inr p, w', r') \<and> 8 \<le> length (sp_raw p) \<and> length (sp_raw p) \<le> 10000
      \<and> \<not> isSSLRequest p"
proof -
  have "negotiateStartup (open_writer []) \<lparr>rd_data = packet_bytes [0, 3, 0, 0], rd_end = EOF\<rparr>
      = (Inr \<lparr>sp_raw = packet_bytes [0, 3, 0, 0], sp_code = be_uint32_list [0, 3, 0, 0]\<rparr>,
         open_writer [], \<lparr>rd_data = [], rd_end = EOF\<rparr>)"
    using readStartupPacket_packet [of "[0, 3, 0, 0]" "[]" EOF]
    by (subst negotiateStartup.simps)
       (simp add: packet_ok_def isSSLRequest_def isGSSEncRequest_def be_uint32_def
          sslRequestCode_def gssEncRequestCode_def)
  from negotiateStartup_bounds [OF this] this show ?thesis
    by blast
qed

end
