(* ===== verification/Floats.thy ===== *)
theory Floats
  imports Complex_Main Prelude "HOL-Library.Log_Nat"
begin

text \<open>
  Go's \<^verbatim>\<open>float64\<close>: finite values are rationals, every operation is the exact result rounded to
  the nearest double (ties to even, gradual underflow, overflow to an infinity), as IEEE 754
  and the Go specification have it. Zero has no sign here: the sources never divide by a value
  that can be zero nor print one, the only ways to see it. A product and a sum are rounded
  separately; fused multiply-add, which the specification permits a compiler, is not used.
  \<^verbatim>\<open>strconv.ParseFloat\<close> is modelled on the text forms it accepts.
\<close>

datatype f64 = Fin rat | PInf | NInf | NaN


subsection \<open>Rounding\<close>

definition pow2 :: "int \<Rightarrow> rat" where
  "pow2 e = (if 0 \<le> e then 2 ^ nat e else 1 / 2 ^ nat (- e))"

text \<open>The exponent of a positive rational: \<open>pow2 (ilog2 r) \<le> r < pow2 (ilog2 r + 1)\<close>.\<close>

definition ilog2 :: "rat \<Rightarrow> int" where
  "ilog2 r =
     (let (n, d) = quotient_of r; e = int (nat (bitlen n)) - int (nat (bitlen d))
      in if pow2 e \<le> r then e else e - 1)"

definition round_half_even :: "rat \<Rightarrow> int" where
  "round_half_even x =
     (let f = \<lfloor>x\<rfloor>; d = x - of_int f
      in if d < 1 / 2 then f else if 1 / 2 < d then f + 1 else if even f then f else f + 1)"

definition f64_round :: "rat \<Rightarrow> f64" where
  "f64_round r =
     (if r = 0 then Fin 0
      else let q = pow2 (max (ilog2 \<bar>r\<bar> - 52) (- 1074));
               v = of_int (round_half_even (r / q)) * q
           in if 2 ^ 1024 \<le> \<bar>v\<bar> then (if 0 < r then PInf else NInf) else Fin v)"


subsection \<open>Operations\<close>

definition f64_of_int :: "int \<Rightarrow> f64" where
  "f64_of_int n = f64_round (of_int n)"

fun f64_neg :: "f64 \<Rightarrow> f64" where
  "f64_neg (Fin x) = Fin (- x)"
| "f64_neg PInf = NInf"
| "f64_neg NInf = PInf"
| "f64_neg NaN = NaN"

fun f64_add :: "f64 \<Rightarrow> f64 \<Rightarrow> f64" where
  "f64_add (Fin x) (Fin y) = f64_round (x + y)"
| "f64_add NaN _ = NaN"
| "f64_add _ NaN = NaN"
| "f64_add PInf NInf = NaN"
| "f64_add NInf PInf = NaN"
| "f64_add PInf _ = PInf"
| "f64_add _ PInf = PInf"
| "f64_add NInf _ = NInf"
| "f64_add _ NInf = NInf"

definition f64_sub :: "f64 \<Rightarrow> f64 \<Rightarrow> f64" where
  "f64_sub x y = f64_add x (f64_neg y)"

definition f64_inf_times :: "bool \<Rightarrow> rat \<Rightarrow> f64" where
  "f64_inf_times pos y = (if y = 0 then NaN else if (0 < y) = pos then PInf else NInf)"

fun f64_mul :: "f64 \<Rightarrow> f64 \<Rightarrow> f64" where
  "f64_mul (Fin x) (Fin y) = f64_round (x * y)"
| "f64_mul NaN _ = NaN"
| "f64_mul _ NaN = NaN"
| "f64_mul PInf (Fin y) = f64_inf_times True y"
| "f64_mul NInf (Fin y) = f64_inf_times False y"
| "f64_mul (Fin x) PInf = f64_inf_times True x"
| "f64_mul (Fin x) NInf = f64_inf_times False x"
| "f64_mul PInf PInf = PInf"
| "f64_mul NInf NInf = PInf"
| "f64_mul _ _ = NInf"

text \<open>Division by a finite non-zero value, the only division the sources make.\<close>

fun f64_div :: "f64 \<Rightarrow> f64 \<Rightarrow> f64" where
  "f64_div (Fin x) (Fin y) =
     (if y = 0 then (if x = 0 then NaN else if 0 < x then PInf else NInf) else f64_round (x / y))"
| "f64_div NaN _ = NaN"
| "f64_div _ NaN = NaN"
| "f64_div PInf (Fin y) = (if 0 \<le> y then PInf else NInf)"
| "f64_div NInf (Fin y) = (if 0 \<le> y then NInf else PInf)"
| "f64_div (Fin _) _ = Fin 0"
| "f64_div _ _ = NaN"

fun f64_lt :: "f64 \<Rightarrow> f64 \<Rightarrow> bool" where
  "f64_lt (Fin x) (Fin y) = (x < y)"
| "f64_lt NaN _ = False"
| "f64_lt _ NaN = False"
| "f64_lt PInf _ = False"
| "f64_lt _ NInf = False"
| "f64_lt _ _ = True"

fun f64_le :: "f64 \<Rightarrow> f64 \<Rightarrow> bool" where
  "f64_le (Fin x) (Fin y) = (x \<le> y)"
| "f64_le NaN _ = False"
| "f64_le _ NaN = False"
| "f64_le NInf _ = True"
| "f64_le _ PInf = True"
| "f64_le _ _ = False"

text \<open>\<^verbatim>\<open>int(x)\<close> of a finite value truncates; the sources convert finite values only.\<close>

definition rat_trunc :: "rat \<Rightarrow> int" where
  "rat_trunc x = (if 0 \<le> x then \<lfloor>x\<rfloor> else \<lceil>x\<rceil>)"

text \<open>
  \<^verbatim>\<open>int(x)\<close>. What is not representable as an \<^verbatim>\<open>int64\<close> gives the least one, as on amd64.
\<close>

definition go_int :: "f64 \<Rightarrow> int" where
  "go_int x =
     (case x of
        Fin r \<Rightarrow> if - (2 ^ 63) \<le> rat_trunc r \<and> rat_trunc r < 2 ^ 63 then rat_trunc r else - (2 ^ 63)
      | _ \<Rightarrow> - (2 ^ 63))"

lemma f64_lt_trans: "f64_lt x y \<Longrightarrow> f64_lt y z \<Longrightarrow> f64_lt x z"
  by (cases x; cases y; cases z) auto

lemma f64_lt_irrefl [simp]: "\<not> f64_lt x x"
  by (cases x) auto

lemma f64_not_lt_trans: "\<not> f64_lt x y \<Longrightarrow> f64_lt z y \<Longrightarrow> \<not> f64_lt x z"
  by (cases x; cases y; cases z) auto


subsection \<open>Rounding stays below a representable bound\<close>

lemma pow2_pos [simp]: "0 < pow2 e"
  by (simp add: pow2_def)

lemma pow2_nonneg [simp]: "0 \<le> pow2 e"
  using pow2_pos [of e] by linarith

lemma pow2_power_int: "pow2 e = power_int 2 e"
  by (simp add: pow2_def power_int_def field_simps)

lemma pow2_add: "pow2 (a + b) = pow2 a * pow2 b"
  by (simp add: pow2_power_int power_int_add)

lemma pow2_mono: "a \<le> b \<Longrightarrow> pow2 a \<le> pow2 b"
  by (simp add: pow2_power_int power_int_increasing)

lemma pow2_strict_mono: "pow2 a < pow2 b \<Longrightarrow> a < b"
  by (metis not_less pow2_mono)

lemma pow2_nat: "pow2 (int n) = 2 ^ n"
  by (simp add: pow2_def)

lemma round_half_even_le: "x \<le> of_int m \<Longrightarrow> round_half_even x \<le> m"
proof -
  assume le: "x \<le> of_int m"
  then have fl: "\<lfloor>x\<rfloor> \<le> m"
    by (simp add: floor_le_iff)
  show ?thesis
  proof (cases "\<lfloor>x\<rfloor> = m")
    case True
    with le have "x - of_int \<lfloor>x\<rfloor> \<le> 0" by simp
    with True show ?thesis by (simp add: round_half_even_def)
  next
    case False
    with fl show ?thesis by (auto simp: round_half_even_def Let_def)
  qed
qed

lemma round_half_even_nonneg: "0 \<le> x \<Longrightarrow> 0 \<le> round_half_even x"
  by (simp add: round_half_even_def Let_def)

lemma round_half_even_minus: "round_half_even (- x) = - round_half_even x"
proof (cases "x = of_int \<lfloor>x\<rfloor>")
  case True
  then have "\<lfloor>- x\<rfloor> = - \<lfloor>x\<rfloor>" by (metis floor_of_int of_int_minus)
  with True show ?thesis by (simp add: round_half_even_def Let_def)
next
  case False
  then have f: "\<lfloor>- x\<rfloor> = - \<lfloor>x\<rfloor> - 1" by linarith
  show ?thesis unfolding round_half_even_def Let_def f by (auto simp: field_simps)
qed

lemma f64_round_minus: "f64_round (- r) = f64_neg (f64_round r)"
  by (auto simp: f64_round_def Let_def round_half_even_minus)

lemma bitlen_pow2:
  assumes "0 < n"
  shows "pow2 (bitlen n - 1) \<le> of_int n" "of_int n < pow2 (bitlen n)"
proof -
  have b: "2 ^ nat (bitlen n - 1) \<le> n" "n < 2 ^ nat (bitlen n)"
    using bitlen_bounds [OF assms] by simp_all
  have "1 \<le> bitlen n"
    using assms by (simp add: bitlen_def floorlog_def)
  moreover have "of_int ((2::int) ^ nat (bitlen n - 1)) \<le> (of_int n :: rat)"
    using b(1) by (simp only: of_int_le_iff)
  moreover have "(of_int n :: rat) < of_int (2 ^ nat (bitlen n))"
    using b(2) by (simp only: of_int_less_iff)
  ultimately show "pow2 (bitlen n - 1) \<le> of_int n" "of_int n < pow2 (bitlen n)"
    by (simp_all add: pow2_def)
qed

lemma quotient_pow2:
  assumes "0 < r" "quotient_of r = (n, d)"
  shows "pow2 (bitlen n - bitlen d - 1) \<le> r" "r < pow2 (bitlen n - bitlen d + 1)"
proof -
  have d: "0 < d" and r: "r = of_int n / of_int d"
    using assms(2) quotient_of_denom_pos quotient_of_div by blast+
  with assms(1) have n: "0 < n"
    by (simp add: zero_less_divide_iff)
  let ?e = "bitlen n - bitlen d"
  have "pow2 (?e - 1) * pow2 (bitlen d) = pow2 (bitlen n - 1)"
    by (simp flip: pow2_add)
  then have "pow2 (?e - 1) * of_int d \<le> of_int n"
    using mult_left_mono [OF less_imp_le [OF bitlen_pow2(2) [OF d]] pow2_nonneg [of "?e - 1"]]
      bitlen_pow2(1) [OF n] by linarith
  then show "pow2 (?e - 1) \<le> r"
    using d by (simp add: r le_divide_eq)
  have "pow2 (?e + 1) * pow2 (bitlen d - 1) = pow2 (bitlen n)"
    by (simp flip: pow2_add)
  then have "of_int n < pow2 (?e + 1) * of_int d"
    using mult_left_mono [OF bitlen_pow2(1) [OF d] pow2_nonneg [of "?e + 1"]]
      bitlen_pow2(2) [OF n] by linarith
  then show "r < pow2 (?e + 1)"
    using d by (simp add: r divide_less_eq)
qed

lemma ilog2_bounds:
  assumes "0 < r"
  shows "pow2 (ilog2 r) \<le> r" "r < pow2 (ilog2 r + 1)"
proof -
  obtain n d where q: "quotient_of r = (n, d)" by fastforce
  have "int (nat (bitlen n)) - int (nat (bitlen d)) = bitlen n - bitlen d"
    using bitlen_nonneg by simp
  with q quotient_pow2 [OF assms q] show "pow2 (ilog2 r) \<le> r" "r < pow2 (ilog2 r + 1)"
    by (auto simp: ilog2_def Let_def)
qed

lemma ilog2_unique:
  assumes "pow2 e \<le> r" "r < pow2 (e + 1)"
  shows "ilog2 r = e"
proof -
  have "0 < r" using assms(1) pow2_pos [of e] by linarith
  note b = ilog2_bounds [OF this]
  have "pow2 (ilog2 r) < pow2 (e + 1)" "pow2 e < pow2 (ilog2 r + 1)"
    using assms b by linarith+
  then have "ilog2 r < e + 1" "e < ilog2 r + 1"
    by (blast intro: pow2_strict_mono)+
  then show ?thesis by simp
qed

lemma round_half_even_near:
  assumes "of_int n - 1 / 2 < x" "x < of_int n + 1 / 2"
  shows "round_half_even x = n"
proof -
  have "\<lfloor>x\<rfloor> = n \<or> \<lfloor>x\<rfloor> = n - 1"
    using assms by (simp add: floor_eq_iff) linarith
  with assms show ?thesis
    by (auto simp: round_half_even_def Let_def)
qed

lemma round_half_even_tie: "even n \<Longrightarrow> x = of_int n - 1 / 2 \<Longrightarrow> round_half_even x = n"
proof -
  assume n: "even n" and x: "x = of_int n - 1 / 2"
  have "\<lfloor>x\<rfloor> = n - 1"
    using x by (simp add: floor_eq_iff)
  with n x show ?thesis
    by (simp add: round_half_even_def Let_def)
qed

lemma f64_round_eq:
  assumes "pow2 e \<le> r" "r < pow2 (e + 1)" "-1022 \<le> e" "e \<le> 900"
    and "round_half_even (r / pow2 (e - 52)) = n" "\<bar>n\<bar> < 2 ^ 60"
  shows "f64_round r = Fin (of_int n * pow2 (e - 52))"
proof -
  have pos: "0 < r" using assms(1) pow2_pos [of e] by linarith
  have e: "ilog2 r = e" using assms(1,2) by (rule ilog2_unique)
  have mx: "max (e - 52) (-1074) = e - 52" using assms(3) by simp
  have "\<bar>of_int n\<bar> < (2::rat) ^ 60"
    using assms(6) by (metis of_int_abs of_int_less_numeral_power_cancel_iff of_int_numeral)
  then have "\<bar>of_int n * pow2 (e - 52)\<bar> < pow2 60 * pow2 (e - 52)"
    by (simp add: abs_mult pow2_def [of 60])
  also have "\<dots> = pow2 (e + 8)" by (simp add: add.commute flip: pow2_add)
  also have "\<dots> \<le> pow2 1024" using assms(4) by (intro pow2_mono) simp
  finally have "\<not> 2 ^ 1024 \<le> \<bar>of_int n * pow2 (e - 52)\<bar>"
    by (simp add: pow2_nat [of 1024, simplified])
  with pos assms(5) show ?thesis
    by (simp add: f64_round_def Let_def e mx)
qed

lemma round_half_even_err: "\<bar>of_int (round_half_even x) - x\<bar> \<le> 1 / 2"
  using floor_correct [of x] by (auto simp: round_half_even_def Let_def abs_le_iff)

text \<open>Rounding moves a value by at most half a unit in its last place.\<close>

lemma f64_round_err:
  assumes "pow2 e \<le> r" "r < pow2 (e + 1)" "-1022 \<le> e" "e \<le> 900"
  shows "\<exists>v. f64_round r = Fin v \<and> \<bar>v - r\<bar> \<le> pow2 (e - 53)"
proof -
  let ?q = "pow2 (e - 52)"
  let ?n = "round_half_even (r / ?q)"
  have q: "pow2 (e + 1) = pow2 53 * ?q" "?q = 2 * pow2 (e - 53)"
    using pow2_add [of 53 "e - 52"] pow2_add [of 1 "e - 53"] by (simp_all add: pow2_def [of 1] add.commute)
  have q0: "?q \<noteq> 0" using pow2_pos [of "e - 52"] by (metis less_irrefl)
  have pos: "0 < r" using assms(1) pow2_pos [of e] by linarith
  have "r / ?q \<le> of_int (2 ^ 53)"
    using assms(2) by (simp add: q(1) divide_le_eq pow2_def [of 53])
  then have "?n \<le> 2 ^ 53" by (rule round_half_even_le)
  moreover have "0 \<le> ?n" using pos by (intro round_half_even_nonneg) simp
  ultimately have "f64_round r = Fin (of_int ?n * ?q)"
    by (intro f64_round_eq [OF assms refl]) simp
  moreover have "\<bar>of_int ?n * ?q - r\<bar> \<le> pow2 (e - 53)"
  proof -
    have "of_int ?n * ?q - r = (of_int ?n - r / ?q) * ?q" using q0 by (simp add: left_diff_distrib)
    then have "\<bar>of_int ?n * ?q - r\<bar> = \<bar>of_int ?n - r / ?q\<bar> * ?q" by (simp add: abs_mult)
    also have "\<dots> \<le> 1 / 2 * ?q" by (intro mult_right_mono round_half_even_err) simp
    finally show ?thesis by (simp add: q(2))
  qed
  ultimately show ?thesis by blast
qed

text \<open>The same with a bound of the value in place of its exponent.\<close>

lemma f64_round_err_bound:
  assumes "pow2 (-1022) \<le> r" "r < pow2 j" "j \<le> 900"
  shows "\<exists>v. f64_round r = Fin v \<and> \<bar>v - r\<bar> \<le> pow2 (j - 54)"
proof -
  have pos: "0 < r" using assms(1) pow2_pos [of "-1022"] by linarith
  note b = ilog2_bounds [OF pos]
  have lo: "-1022 \<le> ilog2 r"
    using pow2_strict_mono [of "-1022" "ilog2 r + 1"] assms(1) b(2) by simp
  have hi: "ilog2 r < j" using b(1) assms(2) by (intro pow2_strict_mono) simp
  from f64_round_err [OF b lo] hi assms(3) obtain v where "f64_round r = Fin v" "\<bar>v - r\<bar> \<le> pow2 (ilog2 r - 53)" by auto
  moreover have "pow2 (ilog2 r - 53) \<le> pow2 (j - 54)" using hi by (intro pow2_mono) simp
  ultimately show ?thesis by auto
qed

lemma f64_of_int_exact:
  assumes "0 \<le> n" "n < 2 ^ 53"
  shows "f64_of_int n = Fin (of_int n)"
proof (cases "n = 0")
  case True
  then show ?thesis by (simp add: f64_of_int_def f64_round_def)
next
  case False
  let ?e = "ilog2 (of_int n)"
  have r: "pow2 ?e \<le> of_int n" "of_int n < pow2 (?e + 1)"
    using ilog2_bounds [of "of_int n"] assms False by auto
  have e: "0 \<le> ?e" "?e < 53"
  proof -
    have "pow2 0 < pow2 (?e + 1)" using r(2) assms(1) False by (simp add: pow2_def [of 0])
    then show "0 \<le> ?e" using pow2_strict_mono by fastforce
    have "of_int n < (2 :: rat) ^ 53" using assms(2) by (metis of_int_less_iff of_int_numeral of_int_power)
    then have "pow2 ?e < pow2 53" using r(1) by (simp add: pow2_def [of 53])
    then show "?e < 53" by (rule pow2_strict_mono)
  qed
  have q: "pow2 (?e - 52) = 1 / 2 ^ nat (52 - ?e)" using e by (simp add: pow2_def)
  have "round_half_even (of_int n / pow2 (?e - 52)) = n * 2 ^ nat (52 - ?e)"
    unfolding q by (rule round_half_even_near) simp_all
  moreover have "\<bar>n * 2 ^ nat (52 - ?e)\<bar> < 2 ^ 60"
  proof -
    have "of_int n < (2 :: rat) ^ nat (?e + 1)" using r(2) e by (simp add: pow2_def)
    then have "n < 2 ^ nat (?e + 1)" by (metis of_int_less_numeral_power_cancel_iff)
    then have "n * 2 ^ nat (52 - ?e) < 2 ^ nat (?e + 1) * 2 ^ nat (52 - ?e)" by simp
    also have "\<dots> = 2 ^ 53" using e by (simp add: nat_add_distrib [symmetric] flip: power_add)
    finally show ?thesis using assms(1) by simp
  qed
  ultimately show ?thesis
    unfolding f64_of_int_def using e
    by (subst f64_round_eq [OF r]) (simp_all add: q nonzero_mult_div_cancel_right del: of_int_mult, simp)
qed

text \<open>
  A positive value below a double \<open>m * 2^j\<close> (a 53-bit significand) rounds to a double below it.
\<close>

lemma f64_round_le:
  assumes r: "0 \<le> r" "r \<le> of_int m * pow2 j"
    and m: "m < 2 ^ 53" and j: "-1074 \<le> j" "j \<le> 900"
  shows "\<exists>v. f64_round r = Fin v \<and> 0 \<le> v \<and> v \<le> of_int m * pow2 j"
proof (cases "r = 0")
  case True
  with r show ?thesis by (simp add: f64_round_def)
next
  case False
  with r have pos: "0 < r" by simp
  let ?k = "max (ilog2 r - 52) (-1074)"
  let ?v = "of_int (round_half_even (r / pow2 ?k)) * pow2 ?k"
  have "of_int m < pow2 53"
    using m by (simp add: pow2_def)
  then have M: "of_int m * pow2 j < pow2 (53 + j)"
    by (simp add: pow2_add)
  with ilog2_bounds(1) [OF pos] r(2) have "pow2 (ilog2 r) < pow2 (53 + j)"
    by linarith
  then have "ilog2 r < 53 + j"
    by (rule pow2_strict_mono)
  then have k: "?k \<le> j"
    using j by simp
  have split: "pow2 j = 2 ^ nat (j - ?k) * pow2 ?k"
  proof -
    have "pow2 j = pow2 ((j - ?k) + ?k)" by simp
    also have "\<dots> = pow2 (j - ?k) * pow2 ?k" by (rule pow2_add)
    finally show ?thesis using k by (simp add: pow2_def)
  qed
  have "r / pow2 ?k \<le> of_int (m * 2 ^ nat (j - ?k))"
    using r(2) by (simp add: split divide_le_eq mult.assoc)
  then have "round_half_even (r / pow2 ?k) \<le> m * 2 ^ nat (j - ?k)"
    by (rule round_half_even_le)
  then have "of_int (round_half_even (r / pow2 ?k)) \<le> (of_int (m * 2 ^ nat (j - ?k)) :: rat)"
    by (simp only: of_int_le_iff)
  then have le: "?v \<le> of_int m * pow2 j"
    by (simp add: split mult.assoc [symmetric] mult_right_mono)
  have nn: "0 \<le> ?v"
    using pos round_half_even_nonneg [of "r / pow2 ?k"] by simp
  have "pow2 (53 + j) \<le> pow2 1024"
    using j by (intro pow2_mono) simp
  then have "?v < 2 ^ 1024"
    using le M by (simp add: pow2_nat [of 1024, simplified])
  with pos nn le False show ?thesis
    by (simp add: f64_round_def Let_def)
qed



subsection \<open>\<^verbatim>\<open>strconv.ParseFloat\<close>\<close>

definition is_digit :: "char \<Rightarrow> bool" where
  [go_defs]: "is_digit c = (48 \<le> (of_char c :: nat) \<and> (of_char c :: nat) \<le> 57)"

definition digit_val :: "char \<Rightarrow> int" where
  [go_defs]: "digit_val c =
     (let n = of_char c :: nat
      in if n \<le> 57 then int n - 48 else if n \<le> 70 then int n - 55 else int n - 87)"

definition is_hex_digit :: "char \<Rightarrow> bool" where
  [go_defs]: "is_hex_digit c =
     (is_digit c \<or> (let n = of_char (lower_char c) :: nat in 97 \<le> n \<and> n \<le> 102))"

text \<open>
  \<^verbatim>\<open>underscoreOK\<close>: an underscore stands between digits, or between the base prefix and a digit.
  The first argument is the class of the character before: a digit or a prefix, an underscore,
  or neither.
\<close>

datatype us_prev = UsDigit | UsUnder | UsOther

fun underscore_scan :: "bool \<Rightarrow> us_prev \<Rightarrow> string \<Rightarrow> bool" where
  "underscore_scan hex prev [] = (prev \<noteq> UsUnder)"
| "underscore_scan hex prev (c # cs) =
     (if is_digit c \<or> hex \<and> is_hex_digit c then underscore_scan hex UsDigit cs
      else if c = CHR ''_'' then prev = UsDigit \<and> underscore_scan hex UsUnder cs
      else prev \<noteq> UsUnder \<and> underscore_scan hex UsOther cs)"

definition drop_sign :: "string \<Rightarrow> string" where
  [go_defs]: "drop_sign s =
     (case s of c # cs \<Rightarrow> if c = CHR ''+'' \<or> c = CHR ''-'' then cs else s | [] \<Rightarrow> [])"

definition underscoreOK :: "string \<Rightarrow> bool" where
  [go_defs]: "underscoreOK s =
     (let t = drop_sign s
      in if 2 \<le> length t \<and> hd t = CHR ''0'' \<and> lower_char (t ! 1) \<in> {CHR ''b'', CHR ''o'', CHR ''x''}
         then underscore_scan (lower_char (t ! 1) = CHR ''x'') UsDigit (drop 2 t)
         else underscore_scan False UsOther t)"

text \<open>The mantissa loop of \<^verbatim>\<open>readFloat\<close>: the digits, those after the point, and the rest.\<close>

fun read_mantissa :: "int \<Rightarrow> bool \<Rightarrow> int \<Rightarrow> int \<Rightarrow> bool \<Rightarrow> string \<Rightarrow> int \<times> int \<times> bool \<times> string" where
  "read_mantissa base dot m nfrac digits [] = (m, nfrac, digits, [])"
| "read_mantissa base dot m nfrac digits (c # cs) =
     (if c = CHR ''_'' then read_mantissa base dot m nfrac digits cs
      else if c = CHR ''.'' then
        (if dot then (m, nfrac, digits, c # cs) else read_mantissa base True m nfrac digits cs)
      else if is_digit c \<or> base = 16 \<and> is_hex_digit c then
        read_mantissa base dot (m * base + digit_val c) (if dot then nfrac + 1 else nfrac) True cs
      else (m, nfrac, digits, c # cs))"

text \<open>The exponent loop, which stops counting above 10000.\<close>

fun read_exp :: "int \<Rightarrow> string \<Rightarrow> int \<times> string" where
  "read_exp e [] = (e, [])"
| "read_exp e (c # cs) =
     (if c = CHR ''_'' then read_exp e cs
      else if is_digit c then read_exp (if e < 10000 then e * 10 + digit_val c else e) cs
      else (e, c # cs))"

definition float_special :: "string \<Rightarrow> f64 option" where
  [go_defs]: "float_special s =
     (let t = map lower_char (drop_sign s);
          inf = (if take 1 s = ''-'' then NInf else PInf)
      in if t \<in> {''inf'', ''infinity''} then Some inf
         else if map lower_char s = ''nan'' then Some NaN else None)"

text \<open>
  The value of the text as an exact rational, rounded once. An error (\<open>None\<close>) is a syntax error
  or a value out of range.
\<close>

definition ParseFloat :: "string \<Rightarrow> f64 option" where
  "ParseFloat s =
     (case float_special s of
        Some v \<Rightarrow> Some v
      | None \<Rightarrow>
          let neg = (take 1 s = ''-''); t = drop_sign s;
              hex = (2 < length t \<and> hd t = CHR ''0'' \<and> lower_char (t ! 1) = CHR ''x'');
              base = (if hex then 16 else 10);
              (m, nfrac, digits, rest) = read_mantissa base False 0 0 False (if hex then drop 2 t else t);
              hasExp = (rest \<noteq> [] \<and> lower_char (hd rest) = (if hex then CHR ''p'' else CHR ''e''));
              et = drop_sign (tl rest); eneg = (take 1 (tl rest) = ''-'');
              (e, rest') = (if hasExp then read_exp 0 et else (0, rest));
              ex = (if eneg then - e else e);
              v = (if hex then of_int m * pow2 (ex - 4 * nfrac)
                   else of_int m * power_int 10 (ex - nfrac));
              r = f64_round (if neg then - v else v)
          in if \<not> digits \<or> (hex \<and> \<not> hasExp) \<or> (hasExp \<and> (et = [] \<or> \<not> is_digit (hd et)))
               \<or> rest' \<noteq> [] \<or> (CHR ''_'' \<in> set s \<and> \<not> underscoreOK s)
               \<or> r = PInf \<or> r = NInf
             then None else Some r)"

end
