(* ===== verification/Router.thy ===== *)
theory Router
  imports Floats "HOL-Library.Multiset"
begin

text \<open>
  \<^verbatim>\<open>internal/router\<close>: the three routing policies as state transformers. \<open>Choose\<close> returns the
  chosen address, or \<open>None\<close> where the Go code panics (an empty candidate list in round-robin and
  least-in-flight). The interface \<^verbatim>\<open>Policy\<close> is the locale \<open>policy\<close>; the part of its contract that
  load-aware policies promise (a \<open>Release\<close> undoes a \<open>Choose\<close>) is the locale \<open>load_policy\<close>.
\<close>


subsection \<open>Candidates\<close>

record Candidate =
  c_addr :: address
  c_lagBytes :: int
  c_lagSeconds :: f64


subsection \<open>Round-robin\<close>

record RoundRobin =
  rr_next :: uint64

definition NewRoundRobin :: RoundRobin where
  "NewRoundRobin = \<lparr>rr_next = 0\<rparr>"

definition RoundRobin_Choose :: "RoundRobin \<Rightarrow> Candidate list \<Rightarrow> string \<Rightarrow> address option \<times> RoundRobin" where
  "RoundRobin_Choose p candidates fp =
     (let p' = p\<lparr>rr_next := rr_next p + 1\<rparr>;
          i = rr_next p' - 1
      in (if candidates = [] then None
          else Some (c_addr (candidates ! (unat i mod length candidates))), p'))"

definition RoundRobin_Release :: "RoundRobin \<Rightarrow> address \<Rightarrow> string \<Rightarrow> int \<Rightarrow> RoundRobin" where
  "RoundRobin_Release p addr fp latency = p"


subsection \<open>Least in flight\<close>

record LeastInFlight =
  lif_inFlight :: "address \<rightharpoonup> int"

definition NewLeastInFlight :: LeastInFlight where
  "NewLeastInFlight = \<lparr>lif_inFlight = Map.empty\<rparr>"

fun lif_scan :: "(address \<Rightarrow> int) \<Rightarrow> address \<Rightarrow> int \<Rightarrow> Candidate list \<Rightarrow> address" where
  "lif_scan load best bestN [] = best"
| "lif_scan load best bestN (c # cs) =
     (let n = load (c_addr c)
      in if n < bestN then lif_scan load (c_addr c) n cs else lif_scan load best bestN cs)"

definition LeastInFlight_Choose ::
  "LeastInFlight \<Rightarrow> Candidate list \<Rightarrow> string \<Rightarrow> address option \<times> LeastInFlight" where
  "LeastInFlight_Choose p candidates fp =
     (case candidates of
        [] \<Rightarrow> (None, p)
      | c # cs \<Rightarrow>
          let load = map_get (lif_inFlight p) 0;
              best = lif_scan load (c_addr c) (load (c_addr c)) cs
          in (Some best, p\<lparr>lif_inFlight := (lif_inFlight p)(best \<mapsto> load best + 1)\<rparr>))"

definition LeastInFlight_Release :: "LeastInFlight \<Rightarrow> address \<Rightarrow> string \<Rightarrow> int \<Rightarrow> LeastInFlight" where
  "LeastInFlight_Release p addr fp latency =
     (let n = map_get (lif_inFlight p) 0 addr
      in if n \<le> 1 then p\<lparr>lif_inFlight := (lif_inFlight p)(addr := None)\<rparr>
         else p\<lparr>lif_inFlight := (lif_inFlight p)(addr \<mapsto> n - 1)\<rparr>)"


subsection \<open>Scored\<close>

record ScoredWeights =
  w_Alpha :: f64
  w_DefaultServiceMs :: f64
  w_LagPenaltyMs :: f64

definition DefaultScoredWeights :: ScoredWeights where
  "DefaultScoredWeights =
     \<lparr>w_Alpha = f64_round (1 / 5), w_DefaultServiceMs = Fin 1, w_LagPenaltyMs = Fin 50\<rparr>"

record Scored =
  sc_w :: ScoredWeights
  sc_inFlight :: "address \<rightharpoonup> int"
  sc_latency :: "address \<times> string \<rightharpoonup> f64"

definition NewScoredWith :: "ScoredWeights \<Rightarrow> Scored" where
  "NewScoredWith w = \<lparr>sc_w = w, sc_inFlight = Map.empty, sc_latency = Map.empty\<rparr>"

definition NewScored :: Scored where
  "NewScored = NewScoredWith DefaultScoredWeights"

definition serviceLocked :: "Scored \<Rightarrow> address \<Rightarrow> string \<Rightarrow> f64" where
  "serviceLocked p addr fp =
     (case sc_latency p (addr, fp) of Some v \<Rightarrow> v | None \<Rightarrow> w_DefaultServiceMs (sc_w p))"

text \<open>The score that \<^verbatim>\<open>Choose\<close> computes for one candidate.\<close>

definition scored_score :: "Scored \<Rightarrow> string \<Rightarrow> Candidate \<Rightarrow> f64" where
  "scored_score p fp c =
     (let service = serviceLocked p (c_addr c) fp
      in f64_add (f64_mul (f64_of_int (map_get (sc_inFlight p) 0 (c_addr c) + 1)) service)
                 (f64_mul (w_LagPenaltyMs (sc_w p)) (c_lagSeconds c)))"

fun scored_scan :: "(Candidate \<Rightarrow> f64) \<Rightarrow> address \<Rightarrow> f64 \<Rightarrow> Candidate list \<Rightarrow> address" where
  "scored_scan score best bestScore [] = best"
| "scored_scan score best bestScore (c # cs) =
     (if f64_lt (score c) bestScore then scored_scan score (c_addr c) (score c) cs
      else scored_scan score best bestScore cs)"

definition Scored_Choose :: "Scored \<Rightarrow> Candidate list \<Rightarrow> string \<Rightarrow> address option \<times> Scored" where
  "Scored_Choose p candidates fp =
     (let best = scored_scan (scored_score p fp) [] PInf candidates
      in (Some best,
          p\<lparr>sc_inFlight := (sc_inFlight p)(best \<mapsto> map_get (sc_inFlight p) 0 best + 1)\<rparr>))"

text \<open>\<open>latency\<close> is a \<^verbatim>\<open>time.Duration\<close>: nanoseconds.\<close>

definition Scored_Release :: "Scored \<Rightarrow> address \<Rightarrow> string \<Rightarrow> int \<Rightarrow> Scored" where
  "Scored_Release p addr fp latency =
     (let ms = f64_div (f64_of_int latency) (f64_of_int 1000000);
          n = map_get (sc_inFlight p) 0 addr;
          inFlight = (if n \<le> 1 then (sc_inFlight p)(addr := None)
                      else (sc_inFlight p)(addr \<mapsto> n - 1));
          prev = (case sc_latency p (addr, fp) of Some v \<Rightarrow> v | None \<Rightarrow> w_DefaultServiceMs (sc_w p))
      in p\<lparr>sc_inFlight := inFlight,
           sc_latency := (sc_latency p)((addr, fp) \<mapsto>
             f64_add (f64_mul (w_Alpha (sc_w p)) ms)
                     (f64_mul (f64_sub (Fin 1) (w_Alpha (sc_w p))) prev))\<rparr>)"


subsection \<open>The interface and its constructor\<close>

datatype Policy = PRoundRobin RoundRobin | PLeastInFlight LeastInFlight | PScored Scored

definition PolicyRoundRobin :: string where "PolicyRoundRobin = ''round-robin''"
definition PolicyLeastInFlight :: string where "PolicyLeastInFlight = ''least-in-flight''"
definition PolicyScored :: string where "PolicyScored = ''scored''"

lemmas policy_name_defs = PolicyRoundRobin_def PolicyLeastInFlight_def PolicyScored_def

definition router_New :: "string \<Rightarrow> Policy option" where
  "router_New name =
     (if name = PolicyRoundRobin then Some (PRoundRobin NewRoundRobin)
      else if name = PolicyLeastInFlight then Some (PLeastInFlight NewLeastInFlight)
      else if name = PolicyScored then Some (PScored NewScored)
      else None)"

fun Policy_Choose :: "Policy \<Rightarrow> Candidate list \<Rightarrow> string \<Rightarrow> address option \<times> Policy" where
  "Policy_Choose (PRoundRobin p) cs fp = map_prod id PRoundRobin (RoundRobin_Choose p cs fp)"
| "Policy_Choose (PLeastInFlight p) cs fp = map_prod id PLeastInFlight (LeastInFlight_Choose p cs fp)"
| "Policy_Choose (PScored p) cs fp = map_prod id PScored (Scored_Choose p cs fp)"

fun Policy_Release :: "Policy \<Rightarrow> address \<Rightarrow> string \<Rightarrow> int \<Rightarrow> Policy" where
  "Policy_Release (PRoundRobin p) a fp l = PRoundRobin (RoundRobin_Release p a fp l)"
| "Policy_Release (PLeastInFlight p) a fp l = PLeastInFlight (LeastInFlight_Release p a fp l)"
| "Policy_Release (PScored p) a fp l = PScored (Scored_Release p a fp l)"

fun NeedsFingerprint :: "Policy \<Rightarrow> bool" where
  "NeedsFingerprint (PRoundRobin _) = False"
| "NeedsFingerprint (PLeastInFlight _) = False"
| "NeedsFingerprint (PScored _) = True"

fun Policy_Name :: "Policy \<Rightarrow> string" where
  "Policy_Name (PRoundRobin _) = ''round-robin''"
| "Policy_Name (PLeastInFlight _) = ''least-in-flight''"
| "Policy_Name (PScored _) = ''scored''"

lemma router_New_Name: "router_New name = Some p \<Longrightarrow> Policy_Name p = name"
  by (auto simp: router_New_def policy_name_defs split: if_splits)


subsection \<open>Runs of a policy\<close>

text \<open>
  A sequence of calls on one policy by any number of sessions. The run keeps the addresses
  whose reads are outstanding, and is defined (\<open>Some\<close>) when the callers respect the interface:
  each \<open>Choose\<close> gets candidates that are \<open>good\<close> (never empty), and each \<open>Release\<close> is of an
  outstanding read with a \<open>sane\<close> latency.
\<close>

datatype policy_op = OpChoose "Candidate list" string | OpRelease address string int

fun policy_run ::
  "('p \<Rightarrow> Candidate list \<Rightarrow> string \<Rightarrow> address option \<times> 'p) \<Rightarrow>
   ('p \<Rightarrow> address \<Rightarrow> string \<Rightarrow> int \<Rightarrow> 'p) \<Rightarrow>
   ('p \<Rightarrow> Candidate list \<Rightarrow> bool) \<Rightarrow> (int \<Rightarrow> bool) \<Rightarrow>
   'p \<Rightarrow> address list \<Rightarrow> policy_op list \<Rightarrow> ('p \<times> address list) option"
where
  "policy_run pick release good sane p out [] = Some (p, out)"
| "policy_run pick release good sane p out (OpChoose cs fp # ops) =
     (if good p cs
      then (case pick p cs fp of
              (None, _) \<Rightarrow> None
            | (Some a, p') \<Rightarrow> policy_run pick release good sane p' (a # out) ops)
      else None)"
| "policy_run pick release good sane p out (OpRelease a fp l # ops) =
     (if a \<in> set out \<and> sane l
      then policy_run pick release good sane (release p a fp l) (remove1 a out) ops else None)"

lemma policy_run_Choose:
  "policy_run pick release good sane p out (OpChoose cs fp # ops) = Some r \<longleftrightarrow>
     good p cs \<and> (\<exists>a q. pick p cs fp = (Some a, q) \<and>
       policy_run pick release good sane q (a # out) ops = Some r)"
  by (auto split: prod.splits option.splits)

declare policy_run.simps(2) [simp del]

locale policy =
  fixes pick :: "'p \<Rightarrow> Candidate list \<Rightarrow> string \<Rightarrow> address option \<times> 'p"
    and release :: "'p \<Rightarrow> address \<Rightarrow> string \<Rightarrow> int \<Rightarrow> 'p"
    and invar :: "'p \<Rightarrow> bool"
    and good :: "'p \<Rightarrow> Candidate list \<Rightarrow> bool"
    and sane :: "int \<Rightarrow> bool"
  assumes pick_member: "invar p \<Longrightarrow> good p cs \<Longrightarrow>
      \<exists>a p'. pick p cs fp = (Some a, p') \<and> a \<in> c_addr ` set cs"
    and invar_pick: "invar p \<Longrightarrow> good p cs \<Longrightarrow> invar (snd (pick p cs fp))"
    and invar_release: "invar p \<Longrightarrow> sane l \<Longrightarrow> invar (release p a fp l)"
begin

lemma run_invar:
  assumes "invar p" "policy_run pick release good sane p out ops = Some (p', out')"
  shows "invar p'"
  using assms
proof (induction ops arbitrary: p out)
  case (Cons x ops)
  show ?case
  proof (cases x)
    case (OpChoose cs fp)
    with Cons.prems obtain a q where "good p cs" "pick p cs fp = (Some a, q)"
      and "policy_run pick release good sane q (a # out) ops = Some (p', out')"
      by (auto simp: policy_run_Choose)
    with Cons.IH show ?thesis
      using invar_pick [OF Cons.prems(1), of cs fp] by simp
  next
    case (OpRelease a fp l)
    with Cons.prems have "invar (release p a fp l)"
      and "policy_run pick release good sane (release p a fp l) (remove1 a out) ops = Some (p', out')"
      by (auto simp: invar_release split: if_splits)
    then show ?thesis by (rule Cons.IH)
  qed
qed simp

text \<open>A run never panics: it can be extended by any call that respects the interface.\<close>

lemma run_snoc_Choose:
  assumes "invar p" "policy_run pick release good sane p out ops = Some (p', out')" "good p' cs"
  shows "\<exists>a q. policy_run pick release good sane p out (ops @ [OpChoose cs fp]) = Some (q, a # out')
    \<and> a \<in> c_addr ` set cs"
  using assms
proof (induction ops arbitrary: p out)
  case Nil
  then show ?case
    using pick_member [of p cs fp] by (auto simp: policy_run_Choose)
next
  case (Cons x ops)
  show ?case
  proof (cases x)
    case (OpChoose ds fp')
    with Cons.prems obtain a q where "good p ds" "pick p ds fp' = (Some a, q)"
      and "policy_run pick release good sane q (a # out) ops = Some (p', out')"
      by (auto simp: policy_run_Choose)
    with Cons.IH [of q "a # out"] Cons.prems show ?thesis
      using invar_pick [OF Cons.prems(1), of ds fp'] OpChoose by (simp add: policy_run_Choose)
  next
    case (OpRelease a fp' l)
    with Cons show ?thesis
      by (simp add: invar_release split: if_splits)
  qed
qed

end

locale load_policy = policy pick release invar good sane
  for pick :: "'p \<Rightarrow> Candidate list \<Rightarrow> string \<Rightarrow> address option \<times> 'p"
    and release :: "'p \<Rightarrow> address \<Rightarrow> string \<Rightarrow> int \<Rightarrow> 'p"
    and invar :: "'p \<Rightarrow> bool" and good :: "'p \<Rightarrow> Candidate list \<Rightarrow> bool" and sane :: "int \<Rightarrow> bool" +
  fixes load :: "'p \<Rightarrow> address \<Rightarrow> int"
  assumes load_pick: "pick p cs fp = (Some a, p') \<Longrightarrow> load p' = (load p)(a := load p a + 1)"
    and load_release: "0 < load p a \<Longrightarrow> load (release p a fp l) = (load p)(a := load p a - 1)"
begin

lemma run_load:
  assumes "\<And>a. load p a = int (count_list out a)"
    and "policy_run pick release good sane p out ops = Some (p', out')"
  shows "load p' a = int (count_list out' a)"
  using assms
proof (induction ops arbitrary: p out)
  case (Cons x ops)
  show ?case
  proof (cases x)
    case (OpChoose cs fp)
    with Cons.prems(2) obtain b q where ch: "pick p cs fp = (Some b, q)"
      and run: "policy_run pick release good sane q (b # out) ops = Some (p', out')"
      by (auto simp: policy_run_Choose)
    show ?thesis
      by (rule Cons.IH [OF _ run]) (simp add: load_pick [OF ch] Cons.prems(1))
  next
    case (OpRelease b fp l)
    with Cons.prems(2) have b: "b \<in> set out"
      and run: "policy_run pick release good sane (release p b fp l) (remove1 b out) ops = Some (p', out')"
      by (auto split: if_splits)
    from b have pos: "0 < count_list out b"
      by (metis count_list_0_iff gr0I)
    have "load (release p b fp l) c = int (count_list (remove1 b out) c)" for c
      using pos by (simp add: load_release Cons.prems(1) of_nat_diff count_list_remove1)
    with run show ?thesis
      by (rule Cons.IH [rotated])
  qed
qed simp

end


subsection \<open>Round-robin satisfies the interface\<close>

interpretation rr: policy RoundRobin_Choose RoundRobin_Release "\<lambda>_. True" "\<lambda>_ cs. cs \<noteq> []" "\<lambda>_. True"
  by unfold_locales (auto simp: RoundRobin_Choose_def)


subsection \<open>Least-in-flight satisfies the interface and tracks load\<close>

lemma lif_scan_member: "lif_scan load best n cs \<in> insert best (c_addr ` set cs)"
  by (induction cs arbitrary: best n) (auto simp: Let_def)

definition lif_load :: "LeastInFlight \<Rightarrow> address \<Rightarrow> int" where
  "lif_load p = map_get (lif_inFlight p) 0"

lemma lif_load_Choose:
  "LeastInFlight_Choose p cs fp = (Some a, p') \<Longrightarrow> lif_load p' = (lif_load p)(a := lif_load p a + 1)"
  by (auto simp: LeastInFlight_Choose_def lif_load_def Let_def split: list.splits)

lemma lif_load_Release:
  "0 < lif_load p a \<Longrightarrow> lif_load (LeastInFlight_Release p a fp l) = (lif_load p)(a := lif_load p a - 1)"
  by (auto simp: LeastInFlight_Release_def lif_load_def Let_def)

interpretation lif: load_policy LeastInFlight_Choose LeastInFlight_Release
    "\<lambda>_. True" "\<lambda>_ cs. cs \<noteq> []" "\<lambda>_. True" lif_load
proof unfold_locales
  fix p and cs :: "Candidate list" and fp
  assume "cs \<noteq> []"
  then obtain c cs' where cs: "cs = c # cs'" by (cases cs) auto
  show "\<exists>a p'. LeastInFlight_Choose p cs fp = (Some a, p') \<and> a \<in> c_addr ` set cs"
    using lif_scan_member [of "map_get (lif_inFlight p) 0" "c_addr c" _ cs']
    by (auto simp: LeastInFlight_Choose_def cs Let_def)
qed (auto simp: lif_load_Choose lif_load_Release)

lemma lif_scan_min: "lif_scan load best n cs = scan_min (<) (\<lambda>c. load (c_addr c)) c_addr best n cs"
  by (induction cs arbitrary: best n) (auto simp: Let_def)

text \<open>
  Least-in-flight picks the least loaded candidate and breaks ties towards the earlier one:
  the chosen address is that of a candidate whose count of reads in flight is no larger than
  any other candidate's and smaller than every earlier one's, and exactly its count goes up.
\<close>

theorem LeastInFlight_Choose_least:
  assumes "cs \<noteq> []"
  shows "\<exists>i < length cs. \<exists>p'. LeastInFlight_Choose p cs fp = (Some (c_addr (cs ! i)), p')
    \<and> (\<forall>j < length cs. lif_load p (c_addr (cs ! i)) \<le> lif_load p (c_addr (cs ! j)))
    \<and> (\<forall>j < i. lif_load p (c_addr (cs ! i)) < lif_load p (c_addr (cs ! j)))
    \<and> lif_load p' = (lif_load p)(c_addr (cs ! i) := lif_load p (c_addr (cs ! i)) + 1)"
proof -
  obtain c ds where cs: "cs = c # ds" using assms by (cases cs) auto
  let ?load = "lif_load p"
  let ?a = "lif_scan ?load (c_addr c) (?load (c_addr c)) ds"
  obtain p' where ch: "LeastInFlight_Choose p cs fp = (Some ?a, p')"
    by (simp add: LeastInFlight_Choose_def cs Let_def lif_load_def)
  let ?i = "\<lambda>i. i < length cs \<and> ?a = c_addr (cs ! i)
      \<and> (\<forall>j < length cs. ?load (c_addr (cs ! i)) \<le> ?load (c_addr (cs ! j)))
      \<and> (\<forall>j < i. ?load (c_addr (cs ! i)) < ?load (c_addr (cs ! j)))"
  from scan_min_first [of "(<)" "\<lambda>c. ?load (c_addr c)" c_addr "c_addr c" "?load (c_addr c)" ds]
  consider (head) "?a = c_addr c" "\<forall>c' \<in> set ds. \<not> ?load (c_addr c') < ?load (c_addr c)"
    | (tail) k where "k < length ds" "?a = c_addr (ds ! k)" "?load (c_addr (ds ! k)) < ?load (c_addr c)"
        "\<forall>j < length ds. \<not> ?load (c_addr (ds ! j)) < ?load (c_addr (ds ! k))"
        "\<forall>j < k. ?load (c_addr (ds ! j)) \<noteq> ?load (c_addr (ds ! k))"
    by (fastforce simp: lif_scan_min)
  then obtain i where i: "?i i"
  proof cases
    case head
    then have "?i 0" by (auto simp: cs nth_Cons' not_less)
    then show thesis by (rule that)
  next
    case tail
    have le: "?load (c_addr (ds ! k)) \<le> ?load (c_addr (ds ! j))" if "j < length ds" for j
      using tail(4) that by (simp add: not_less)
    have "?load (c_addr (ds ! k)) < ?load (c_addr (ds ! j))" if "j < k" for j
      using le [of j] tail(1,5) that by (metis less_trans nless_le)
    with tail le have "?i (Suc k)"
      by (simp add: cs All_less_Suc2)
    then show thesis by (rule that)
  qed
  then show ?thesis
    using ch lif_load_Choose [OF ch] by (intro exI [of _ i]) auto
qed

theorem LeastInFlight_Choose_least_witness:
  "\<exists>i < length [\<lparr>c_addr = ''a'', c_lagBytes = 0, c_lagSeconds = Fin 0\<rparr>]. \<exists>p'.
     LeastInFlight_Choose NewLeastInFlight [\<lparr>c_addr = ''a'', c_lagBytes = 0, c_lagSeconds = Fin 0\<rparr>] []
       = (Some (c_addr ([\<lparr>c_addr = ''a'', c_lagBytes = 0, c_lagSeconds = Fin 0\<rparr>] ! i)), p')"
  using LeastInFlight_Choose_least
    [of "[\<lparr>c_addr = ''a'', c_lagBytes = 0, c_lagSeconds = Fin 0\<rparr>]" NewLeastInFlight "[]"]
  by blast

text \<open>
  C24. The counts are the truth: however sessions interleave their calls, as long as each \<open>Release\<close>
  is of a read that is outstanding, the count least-in-flight keeps for an address is exactly
  the number of outstanding reads on it, and the count of an address with none is absent.
\<close>

theorem LeastInFlight_counts_outstanding:
  assumes "policy_run LeastInFlight_Choose LeastInFlight_Release (\<lambda>_ cs. cs \<noteq> []) (\<lambda>_. True)
      NewLeastInFlight [] ops = Some (p, out)"
  shows "lif_load p a = int (count_list out a)"
proof (rule lif.run_load [OF _ assms])
  show "lif_load NewLeastInFlight b = int (count_list [] b)" for b
    by (simp add: lif_load_def NewLeastInFlight_def)
qed

theorem LeastInFlight_counts_outstanding_witness:
  "\<exists>p. policy_run LeastInFlight_Choose LeastInFlight_Release (\<lambda>_ cs. cs \<noteq> []) (\<lambda>_. True)
      NewLeastInFlight []
       [OpChoose [\<lparr>c_addr = ''a'', c_lagBytes = 0, c_lagSeconds = Fin 0\<rparr>] [],
        OpChoose [\<lparr>c_addr = ''a'', c_lagBytes = 0, c_lagSeconds = Fin 0\<rparr>,
                  \<lparr>c_addr = ''b'', c_lagBytes = 0, c_lagSeconds = Fin 0\<rparr>] [],
        OpRelease ''a'' [] 5] = Some (p, [''b''])
     \<and> lif_load p ''a'' = int (count_list [''b''] ''a'') \<and> lif_load p ''b'' = int (count_list [''b''] ''b'')"
proof -
  let ?ops = "[OpChoose [\<lparr>c_addr = ''a'', c_lagBytes = 0, c_lagSeconds = Fin 0\<rparr>] [],
        OpChoose [\<lparr>c_addr = ''a'', c_lagBytes = 0, c_lagSeconds = Fin 0\<rparr>,
                  \<lparr>c_addr = ''b'', c_lagBytes = 0, c_lagSeconds = Fin 0\<rparr>] [],
        OpRelease ''a'' [] 5]"
  obtain p where run: "policy_run LeastInFlight_Choose LeastInFlight_Release (\<lambda>_ cs. cs \<noteq> []) (\<lambda>_. True)
      NewLeastInFlight [] ?ops
      = Some (p, [''b''])"
    by (simp add: policy_run.simps LeastInFlight_Choose_def NewLeastInFlight_def Let_def)
  show ?thesis
    using run LeastInFlight_counts_outstanding [OF run] by blast
qed



subsection \<open>Round-robin is fair\<close>

text \<open>The results of \<open>k\<close> calls in a row with the same candidates.\<close>

fun rr_chooses :: "nat \<Rightarrow> RoundRobin \<Rightarrow> Candidate list \<Rightarrow> address option list" where
  "rr_chooses 0 p cs = []"
| "rr_chooses (Suc k) p cs =
     (case RoundRobin_Choose p cs [] of (a, p') \<Rightarrow> a # rr_chooses k p' cs)"

lemma rr_chooses_nth:
  assumes "cs \<noteq> []" "unat (rr_next p) + k \<le> 2 ^ 64"
  shows "rr_chooses k p cs =
    map (\<lambda>i. Some (c_addr (cs ! ((unat (rr_next p) + i) mod length cs)))) [0..<k]"
  using assms(2)
proof (induction k arbitrary: p)
  case (Suc k)
  let ?p = "p\<lparr>rr_next := rr_next p + 1\<rparr>"
  show ?case
  proof (cases k)
    case 0
    then show ?thesis using assms(1) by (simp add: RoundRobin_Choose_def)
  next
    case (Suc k')
    then have "unat (rr_next p) + 1 < 2 ^ 64" using Suc.prems by simp
    then have u: "unat (rr_next p + 1) = unat (rr_next p) + 1"
      by (simp add: unat_word_ariths)
    with Suc.IH [of ?p] Suc.prems show ?thesis
      using assms(1)
      by (simp add: RoundRobin_Choose_def upt_conv_Cons map_Suc_upt [symmetric] del: upt_Suc)
  qed
qed simp

lemma count_list_rotate1: "count_list (rotate1 xs) a = count_list xs a"
  by (cases xs) (auto simp: count_list_append)

lemma count_list_round:
  assumes "xs \<noteq> []"
  shows "count_list (map (\<lambda>i. xs ! ((s + i) mod length xs)) [0..<k * length xs]) a = k * count_list xs a"
proof (induction k)
  case (Suc k)
  let ?f = "\<lambda>i. xs ! ((s + i) mod length xs)"
  have "[0..<Suc k * length xs] = [0..<k * length xs] @ map (\<lambda>i. i + k * length xs) [0..<length xs]"
    using upt_add_eq_append [of 0 "k * length xs" "length xs"]
    by (simp add: map_add_upt add.commute)
  moreover have "map ?f (map (\<lambda>i. i + k * length xs) [0..<length xs]) = rotate s xs"
    using assms
    by (intro nth_equalityI) (auto simp: nth_rotate add.assoc [symmetric] mod_mult_self1)
  moreover have "count_list (rotate s xs) a = count_list xs a"
    by (induction s) (auto simp: rotate1_hd_tl count_list_rotate1)
  ultimately show ?case
    using Suc.IH by (simp add: count_list_append)
qed simp

text \<open>
  C26. Round-robin is fair over a stable candidate set: in \<open>k\<close> full rounds, from any position of
  the counter that does not wrap around within them, every address is chosen exactly \<open>k\<close> times
  per occurrence in the list, and no call panics.
\<close>

theorem RoundRobin_fair:
  assumes "cs \<noteq> []" "unat (rr_next p) + k * length cs \<le> 2 ^ 64"
  shows "count_list (rr_chooses (k * length cs) p cs) (Some a) = k * count_list (map c_addr cs) a"
proof -
  let ?xs = "map (Some \<circ> c_addr) cs"
  have "rr_chooses (k * length cs) p cs =
      map (\<lambda>i. ?xs ! ((unat (rr_next p) + i) mod length ?xs)) [0..<k * length ?xs]"
    using assms by (simp add: rr_chooses_nth)
  then have "count_list (rr_chooses (k * length cs) p cs) (Some a) = k * count_list ?xs (Some a)"
    using count_list_round [of ?xs "unat (rr_next p)" k "Some a"] assms(1) by simp
  moreover have "count_list ?xs (Some a) = count_list (map c_addr cs) a"
    by (induction cs) auto
  ultimately show ?thesis by simp
qed

theorem RoundRobin_fair_witness:
  "count_list (rr_chooses (3 * length [\<lparr>c_addr = ''a'', c_lagBytes = 0, c_lagSeconds = Fin 0\<rparr>,
        \<lparr>c_addr = ''b'', c_lagBytes = 0, c_lagSeconds = Fin 0\<rparr>]) \<lparr>rr_next = 7\<rparr>
      [\<lparr>c_addr = ''a'', c_lagBytes = 0, c_lagSeconds = Fin 0\<rparr>,
       \<lparr>c_addr = ''b'', c_lagBytes = 0, c_lagSeconds = Fin 0\<rparr>]) (Some ''b'') = 3"
  using RoundRobin_fair [of "[\<lparr>c_addr = ''a'', c_lagBytes = 0, c_lagSeconds = Fin 0\<rparr>,
       \<lparr>c_addr = ''b'', c_lagBytes = 0, c_lagSeconds = Fin 0\<rparr>]" "\<lparr>rr_next = 7\<rparr>" 3 "''b''"]
  by simp

end
