(* ===== verification/RouterScored.thy ===== *)
theory RouterScored
  imports Router
begin

text \<open>
  The scored policy satisfies the policy interface as long as the lag it is given is a sane
  number: its invariant (finite, bounded latency estimates), that the best candidate has the
  least score, and what goes wrong without it.
\<close>

subsection \<open>Scored satisfies the interface\<close>

definition sc_load :: "Scored \<Rightarrow> address \<Rightarrow> int" where
  "sc_load p = map_get (sc_inFlight p) 0"

lemma sc_load_Choose:
  "Scored_Choose p cs fp = (Some a, p') \<Longrightarrow> sc_load p' = (sc_load p)(a := sc_load p a + 1)"
  by (auto simp: Scored_Choose_def sc_load_def Let_def)

lemma sc_load_Release:
  "0 < sc_load p a \<Longrightarrow> sc_load (Scored_Release p a fp l) = (sc_load p)(a := sc_load p a - 1)"
  by (auto simp: Scored_Release_def sc_load_def Let_def)

lemma scored_scan_min: "scored_scan score best v cs = scan_min f64_lt score c_addr best v cs"
  by (induction cs arbitrary: best v) auto

lemma f64_scan_min_first:
  "scan_min f64_lt f c_addr best v cs = best \<and> (\<forall>c \<in> set cs. \<not> f64_lt (f c) v)
    \<or> (\<exists>i < length cs. scan_min f64_lt f c_addr best v cs = c_addr (cs ! i) \<and> f64_lt (f (cs ! i)) v
         \<and> (\<forall>j < length cs. \<not> f64_lt (f (cs ! j)) (f (cs ! i)))
         \<and> (\<forall>j < i. f (cs ! j) \<noteq> f (cs ! i)))"
  by (rule scan_min_first) (erule (1) f64_lt_trans, rule f64_lt_irrefl, erule (1) f64_not_lt_trans)

text \<open>
  The invariant of a scored policy with the default weights: every latency estimate is a
  finite number of milliseconds between 0 and 2^46, and no count is negative. The bound is
  preserved because a duration of 63 bits is less than 2^44 milliseconds and the average
  weighs it with less than a quarter. A call is good when there is a candidate, every
  candidate's lag is a number of seconds of at most 2^63 (negative when the clock of the server that
  reports it is behind), and the counts are below the machine integer.
\<close>

definition bounded_f64 :: "rat \<Rightarrow> f64 \<Rightarrow> bool" where
  "bounded_f64 b v = (\<exists>x. v = Fin x \<and> 0 \<le> x \<and> x \<le> b)"

definition sane_lag :: "f64 \<Rightarrow> bool" where
  "sane_lag v = (\<exists>x. v = Fin x \<and> \<bar>x\<bar> \<le> 2 ^ 63)"

definition scored_inv :: "Scored \<Rightarrow> bool" where
  "scored_inv p = (sc_w p = DefaultScoredWeights
     \<and> (\<forall>k v. sc_latency p k = Some v \<longrightarrow> bounded_f64 (2 ^ 46) v) \<and> (\<forall>a. 0 \<le> sc_load p a))"

definition scored_good :: "Scored \<Rightarrow> Candidate list \<Rightarrow> bool" where
  "scored_good p cs = (cs \<noteq> []
     \<and> (\<forall>c \<in> set cs. sane_lag (c_lagSeconds c) \<and> sc_load p (c_addr c) < 2 ^ 63 - 1))"

definition sane_latency :: "int \<Rightarrow> bool" where
  "sane_latency l = (0 \<le> l \<and> l < 2 ^ 63)"

lemma alpha_value: "f64_round (1 / 5) = Fin (3602879701896397 / 18014398509481984)"
proof -
  have "round_half_even (1 / 5 / pow2 (-3 - 52)) = 7205759403792794"
    by (rule round_half_even_near) (simp_all add: pow2_def)
  then have "f64_round (1 / 5) = Fin (of_int 7205759403792794 * pow2 (-3 - 52))"
    by (intro f64_round_eq) (simp_all add: pow2_def)
  then show ?thesis by (simp add: pow2_def)
qed

lemma beta_value: "f64_sub (Fin 1) (f64_round (1 / 5)) = Fin (3602879701896397 / 4503599627370496)"
proof -
  let ?r = "14411518807585587 / 18014398509481984 :: rat"
  have "round_half_even (?r / pow2 (-1 - 52)) = 7205759403792794"
    by (rule round_half_even_tie) (simp_all add: pow2_def)
  then have "f64_round ?r = Fin (of_int 7205759403792794 * pow2 (-1 - 52))"
    by (intro f64_round_eq) (simp_all add: pow2_def)
  then show ?thesis by (simp add: alpha_value f64_sub_def pow2_def)
qed

lemma million_value: "f64_of_int 1000000 = Fin 1000000"
proof -
  have "round_half_even (1000000 / pow2 (19 - 52)) = 8589934592000000"
    by (rule round_half_even_near) (simp_all add: pow2_def)
  then have "f64_round 1000000 = Fin (of_int 8589934592000000 * pow2 (19 - 52))"
    by (intro f64_round_eq) (simp_all add: pow2_def)
  then show ?thesis by (simp add: f64_of_int_def pow2_def)
qed


lemma within_round:
  "0 \<le> r \<Longrightarrow> r \<le> of_int m * pow2 j \<Longrightarrow> m < 2 ^ 53 \<Longrightarrow> 0 \<le> j \<Longrightarrow> j \<le> 900 \<Longrightarrow>
   bounded_f64 (of_int m * pow2 j) (f64_round r)"
  using f64_round_le [of r m j] by (auto simp: bounded_f64_def)

lemma abs_round:
  assumes "\<bar>r\<bar> \<le> of_int m * pow2 j" "m < 2 ^ 53" "0 \<le> j" "j \<le> 900"
  shows "\<exists>x. f64_round r = Fin x \<and> \<bar>x\<bar> \<le> of_int m * pow2 j"
proof (cases "0 \<le> r")
  case True
  with within_round [of r m j] assms show ?thesis by (auto simp: bounded_f64_def)
next
  case False
  with within_round [of "- r" m j] assms f64_round_minus [of "- r"] show ?thesis by (auto simp: bounded_f64_def)
qed

lemma within_of_int: "0 \<le> n \<Longrightarrow> n \<le> 2 ^ 63 \<Longrightarrow> bounded_f64 (2 ^ 63) (f64_of_int n)"
proof -
  assume "0 \<le> n" "n \<le> 2 ^ 63"
  then have "0 \<le> (of_int n :: rat)" "(of_int n :: rat) \<le> of_int 1 * pow2 63"
    by (simp_all add: pow2_def)
  from within_round [OF this] show ?thesis
    by (simp add: f64_of_int_def pow2_def)
qed

lemma within_latency: "sane_latency l \<Longrightarrow> bounded_f64 (2 ^ 44) (f64_div (f64_of_int l) (f64_of_int 1000000))"
proof -
  assume "sane_latency l"
  then have "bounded_f64 (2 ^ 63) (f64_of_int l)"
    by (intro within_of_int) (simp_all add: sane_latency_def)
  then obtain x where x: "f64_of_int l = Fin x" "0 \<le> x" "x \<le> 2 ^ 63"
    by (auto simp: bounded_f64_def)
  then have "bounded_f64 (of_int 1 * pow2 44) (f64_round (x / 1000000))"
    by (intro within_round) (simp_all add: pow2_def)
  with x show ?thesis
    by (simp add: million_value pow2_def)
qed

lemma within_ewma:
  assumes "bounded_f64 (2 ^ 44) ms" "bounded_f64 (2 ^ 46) prev"
  shows "bounded_f64 (2 ^ 46) (f64_add (f64_mul (f64_round (1 / 5)) ms)
     (f64_mul (f64_sub (Fin 1) (f64_round (1 / 5))) prev))"
proof -
  obtain x y where x: "ms = Fin x" "0 \<le> x" "x \<le> 2 ^ 44" and y: "prev = Fin y" "0 \<le> y" "y \<le> 2 ^ 46"
    using assms by (auto simp: bounded_f64_def)
  have "bounded_f64 (of_int 1 * pow2 42) (f64_round (3602879701896397 / 18014398509481984 * x))"
    using x by (intro within_round) (simp_all add: pow2_def)
  then obtain u where u: "f64_round (3602879701896397 / 18014398509481984 * x) = Fin u" "0 \<le> u" "u \<le> 2 ^ 42"
    by (auto simp: bounded_f64_def pow2_def)
  have "bounded_f64 (of_int 7 * pow2 43) (f64_round (3602879701896397 / 4503599627370496 * y))"
    using y by (intro within_round) (simp_all add: pow2_def)
  then obtain v where v: "f64_round (3602879701896397 / 4503599627370496 * y) = Fin v" "0 \<le> v" "v \<le> 7 * 2 ^ 43"
    by (auto simp: bounded_f64_def pow2_def)
  have "bounded_f64 (of_int 1 * pow2 46) (f64_round (u + v))"
    using u v by (intro within_round) (simp_all add: pow2_def)
  then show ?thesis
    unfolding beta_value unfolding alpha_value using x y u v by (simp add: pow2_def)
qed

lemma within_score:
  assumes "scored_inv p" "scored_good p cs" "c \<in> set cs"
  shows "\<exists>x. scored_score p fp c = Fin x"
proof -
  let ?n = "map_get (sc_inFlight p) 0 (c_addr c) + 1"
  have "bounded_f64 (2 ^ 63) (f64_of_int ?n)"
    using assms by (intro within_of_int) (force simp: scored_inv_def scored_good_def sc_load_def)+
  then obtain n where n: "f64_of_int ?n = Fin n" "0 \<le> n" "n \<le> 2 ^ 63"
    by (auto simp: bounded_f64_def)
  have "bounded_f64 (2 ^ 46) (serviceLocked p (c_addr c) fp)"
    using assms(1) by (auto simp: serviceLocked_def scored_inv_def bounded_f64_def DefaultScoredWeights_def
          split: option.splits)
  then obtain s where s: "serviceLocked p (c_addr c) fp = Fin s" "0 \<le> s" "s \<le> 2 ^ 46"
    by (auto simp: bounded_f64_def)
  obtain l where l: "c_lagSeconds c = Fin l" "\<bar>l\<bar> \<le> 2 ^ 63"
    using assms by (force simp: scored_good_def sane_lag_def)
  have "n * s \<le> 2 ^ 63 * 2 ^ 46"
    using n s by (intro mult_mono) simp_all
  then have "bounded_f64 (of_int 1 * pow2 109) (f64_round (n * s))"
    using n s by (intro within_round) (simp_all add: pow2_def)
  moreover have "\<exists>v. f64_round (50 * l) = Fin v \<and> \<bar>v\<bar> \<le> of_int 50 * pow2 63"
    using l by (intro abs_round) (simp_all add: pow2_def abs_mult)
  ultimately obtain u v where
    u: "f64_round (n * s) = Fin u" "0 \<le> u" "u \<le> 2 ^ 109" and
    v: "f64_round (50 * l) = Fin v" "\<bar>v\<bar> \<le> 50 * 2 ^ 63"
    by (auto simp: bounded_f64_def pow2_def)
  have "\<exists>x. f64_round (u + v) = Fin x \<and> \<bar>x\<bar> \<le> of_int 1 * pow2 110"
    using u v by (intro abs_round) (simp_all add: pow2_def abs_le_iff)
  then show ?thesis
    using assms(1) n s l u v
    by (auto simp: scored_score_def scored_inv_def DefaultScoredWeights_def bounded_f64_def Let_def)
qed

lemma Scored_Choose_first:
  assumes "scored_inv p" "scored_good p cs"
  shows "\<exists>i < length cs. fst (Scored_Choose p cs fp) = Some (c_addr (cs ! i))
    \<and> (\<forall>j < length cs. \<not> f64_lt (scored_score p fp (cs ! j)) (scored_score p fp (cs ! i)))
    \<and> (\<forall>j < i. f64_lt (scored_score p fp (cs ! i)) (scored_score p fp (cs ! j)))"
proof -
  let ?s = "scored_score p fp"
  have fin: "\<exists>x. ?s (cs ! j) = Fin x" if "j < length cs" for j
    using within_score [OF assms, of "cs ! j"] that by simp
  have "cs \<noteq> []" using assms(2) by (simp add: scored_good_def)
  then have "\<not> (\<forall>c \<in> set cs. \<not> f64_lt (?s c) PInf)"
    using fin [of 0] by (auto intro!: bexI [of _ "cs ! 0"])
  then obtain i where i: "i < length cs" "scan_min f64_lt ?s c_addr [] PInf cs = c_addr (cs ! i)"
      "\<forall>j < length cs. \<not> f64_lt (?s (cs ! j)) (?s (cs ! i))" "\<forall>j < i. ?s (cs ! j) \<noteq> ?s (cs ! i)"
    using f64_scan_min_first [of ?s "[]" PInf cs] by blast
  moreover have "f64_lt (?s (cs ! i)) (?s (cs ! j))" if ji: "j < i" for j
  proof -
    obtain x y where xy: "?s (cs ! i) = Fin x" "?s (cs ! j) = Fin y"
      using fin [of i] fin [of j] i(1) ji by auto
    have "\<not> f64_lt (?s (cs ! j)) (?s (cs ! i))" "?s (cs ! j) \<noteq> ?s (cs ! i)"
      using i ji by auto
    then show ?thesis by (simp add: xy)
  qed
  ultimately show ?thesis
    by (intro exI [of _ i]) (auto simp: Scored_Choose_def scored_scan_min Let_def)
qed

interpretation sc: load_policy Scored_Choose Scored_Release scored_inv scored_good sane_latency sc_load
proof unfold_locales
  fix p cs and fp :: string
  assume inv: "scored_inv p" and good: "scored_good p cs"
  from Scored_Choose_first [OF this, of fp] obtain i where
    "i < length cs" "fst (Scored_Choose p cs fp) = Some (c_addr (cs ! i))"
    by blast
  then show "\<exists>a p'. Scored_Choose p cs fp = (Some a, p') \<and> a \<in> c_addr ` set cs"
    by (intro exI [of _ "c_addr (cs ! i)"] exI [of _ "snd (Scored_Choose p cs fp)"])
       (auto simp: prod_eq_iff)
  show "scored_inv (snd (Scored_Choose p cs fp))"
    using inv by (auto simp: scored_inv_def Scored_Choose_def sc_load_def Let_def)
next
  fix p l a fp
  assume inv: "scored_inv p" and sane: "sane_latency l"
  have prev: "bounded_f64 (2 ^ 46) (case sc_latency p (a, fp) of Some v \<Rightarrow> v | None \<Rightarrow> w_DefaultServiceMs (sc_w p))"
    using inv by (auto simp: scored_inv_def bounded_f64_def DefaultScoredWeights_def split: option.splits)
  show "scored_inv (Scored_Release p a fp l)"
    using inv within_ewma [OF within_latency [OF sane] prev]
    by (auto simp: scored_inv_def Scored_Release_def sc_load_def Let_def DefaultScoredWeights_def)
qed (auto simp: sc_load_Choose sc_load_Release)


subsection \<open>The policy of a proxy\<close>

text \<open>
  The three policies behind one interface, as the sessions call them: a call is good when it is good for
  the policy at hand, and a latency is a duration that is not negative.
\<close>

definition policy_inv :: "Policy \<Rightarrow> bool" where
  "policy_inv p = (case p of PScored q \<Rightarrow> scored_inv q | _ \<Rightarrow> True)"

definition policy_good :: "Policy \<Rightarrow> Candidate list \<Rightarrow> bool" where
  "policy_good p cs = (case p of PScored q \<Rightarrow> scored_good q cs | _ \<Rightarrow> cs \<noteq> [])"

lemma policy_cases [simp]:
  "policy_inv (PRoundRobin r)" "policy_inv (PLeastInFlight l)" "policy_inv (PScored q) = scored_inv q"
  "policy_good (PRoundRobin r) cs = (cs \<noteq> [])" "policy_good (PLeastInFlight l) cs = (cs \<noteq> [])"
  "policy_good (PScored q) cs = scored_good q cs"
  by (simp_all add: policy_inv_def policy_good_def)

lemma policy_inv_New: "router_New name = Some p \<Longrightarrow> policy_inv p"
  by (auto simp: router_New_def scored_inv_def NewScored_def NewScoredWith_def sc_load_def split: if_splits)

interpretation pol: policy Policy_Choose Policy_Release policy_inv policy_good sane_latency
proof
  fix p cs fp
  assume "policy_inv p" "policy_good p cs"
  then show "\<exists>a p'. Policy_Choose p cs fp = (Some a, p') \<and> a \<in> c_addr ` set cs"
  proof (cases p)
    case (PRoundRobin q)
    with rr.pick_member [of cs q fp] \<open>policy_good p cs\<close> show ?thesis by auto
  next
    case (PLeastInFlight q)
    with lif.pick_member [of cs q fp] \<open>policy_good p cs\<close> show ?thesis by auto
  next
    case (PScored q)
    with sc.pick_member [of q cs fp] \<open>policy_inv p\<close> \<open>policy_good p cs\<close> show ?thesis by auto
  qed
next
  fix p cs fp
  assume "policy_inv p" "policy_good p cs"
  then show "policy_inv (snd (Policy_Choose p cs fp))"
    using sc.invar_pick [of _ cs fp] by (cases p) simp_all
next
  fix p l a fp
  assume "policy_inv p" "sane_latency l"
  then show "policy_inv (Policy_Release p a fp l)"
    using sc.invar_release by (cases p) simp_all
qed

text \<open>A run of calls on a scored policy, seen through the interface.\<close>

lemma policy_run_PScored:
  "policy_run Policy_Choose Policy_Release policy_good sane_latency (PScored q) out ops =
     map_option (map_prod PScored id) (policy_run Scored_Choose Scored_Release scored_good sane_latency q out ops)"
proof (induction ops arbitrary: q out)
  case (Cons x ops)
  show ?case
  proof (cases x)
    case (OpChoose cs fp)
    then show ?thesis
      by (cases "Scored_Choose q cs fp") (auto simp: policy_run.simps(2) Cons.IH split: option.splits)
  next
    case (OpRelease a fp l)
    then show ?thesis by (simp add: Cons.IH)
  qed
qed simp

lemma policy_run_kind:
  "policy_run Policy_Choose Policy_Release policy_good sane_latency p out ops = Some (PScored q', out') \<Longrightarrow> \<exists>q. p = PScored q"
proof (induction ops arbitrary: p out)
  case (Cons x ops)
  show ?case
  proof (cases x)
    case (OpChoose cs fp)
    with Cons.prems obtain a r where "Policy_Choose p cs fp = (Some a, r)"
      "policy_run Policy_Choose Policy_Release policy_good sane_latency r (a # out) ops = Some (PScored q', out')"
      by (auto simp: policy_run_Choose)
    with Cons.IH [of r] show ?thesis by (cases p) (auto simp: map_prod_def split: prod.splits)
  next
    case (OpRelease a fp l)
    with Cons show ?thesis by (cases p) (auto split: if_splits)
  qed
qed auto

text \<open>The state of a shared policy after the calls of any number of sessions.\<close>

lemma policy_run_scored:
  assumes "router_New name = Some p" "policy_run Policy_Choose Policy_Release policy_good sane_latency p [] ops = Some (PScored q, out)"
  shows "scored_inv q" "sc_load q a = int (count_list out a)"
proof -
  from policy_run_kind [OF assms(2)] assms(1) have p: "p = PScored NewScored" by (auto simp: router_New_def split: if_splits)
  from pol.run_invar [OF policy_inv_New [OF assms(1)] assms(2)] show "scored_inv q" by simp
  from assms(2) p have "policy_run Scored_Choose Scored_Release scored_good sane_latency NewScored [] ops = Some (q, out)"
    by (auto simp: policy_run_PScored)
  then show "sc_load q a = int (count_list out a)"
    by (rule sc.run_load [rotated]) (simp add: sc_load_def NewScored_def NewScoredWith_def)
qed


text \<open>
  C25. The scored policy picks the candidate with the least score, the earlier one among equals:
  with sane lags, the chosen address is that of a candidate whose estimated completion time no
  candidate's is below, and every earlier candidate's is above.
\<close>

theorem Scored_Choose_least:
  assumes "policy_run Scored_Choose Scored_Release scored_good sane_latency NewScored [] ops = Some (p, out)"
    and "scored_good p cs"
  shows "\<exists>i < length cs. fst (Scored_Choose p cs fp) = Some (c_addr (cs ! i))
    \<and> (\<forall>j < length cs. \<not> f64_lt (scored_score p fp (cs ! j)) (scored_score p fp (cs ! i)))
    \<and> (\<forall>j < i. f64_lt (scored_score p fp (cs ! i)) (scored_score p fp (cs ! j)))"
proof -
  have "scored_inv NewScored"
    by (simp add: scored_inv_def NewScored_def NewScoredWith_def sc_load_def)
  then have "scored_inv p"
    using assms(1) by (rule sc.run_invar)
  then show ?thesis
    using assms(2) by (rule Scored_Choose_first)
qed

theorem Scored_Choose_least_witness:
  "\<exists>i < length [\<lparr>c_addr = ''a'', c_lagBytes = 0, c_lagSeconds = Fin 0\<rparr>].
     fst (Scored_Choose NewScored [\<lparr>c_addr = ''a'', c_lagBytes = 0, c_lagSeconds = Fin 0\<rparr>] [])
       = Some (c_addr ([\<lparr>c_addr = ''a'', c_lagBytes = 0, c_lagSeconds = Fin 0\<rparr>] ! i))"
proof -
  have "scored_good NewScored [\<lparr>c_addr = ''a'', c_lagBytes = 0, c_lagSeconds = Fin 0\<rparr>]"
    by (simp add: scored_good_def sane_lag_def NewScored_def NewScoredWith_def sc_load_def)
  then show ?thesis
    using Scored_Choose_least [of "[]" NewScored "[]"
        "[\<lparr>c_addr = ''a'', c_lagBytes = 0, c_lagSeconds = Fin 0\<rparr>]" "[]"]
    by auto
qed

lemma Scored_Choose_inf:
  assumes "sc_w p = DefaultScoredWeights" "\<And>c. c \<in> set cs \<Longrightarrow> c_lagSeconds c = PInf"
  shows "fst (Scored_Choose p cs fp) = Some []" "sc_load (snd (Scored_Choose p cs fp)) = (sc_load p)([] := sc_load p [] + 1)"
proof -
  have "\<not> f64_lt (f64_add x PInf) PInf" for x
    by (cases x) auto
  then have "\<forall>c \<in> set cs. \<not> f64_lt (scored_score p fp c) PInf"
    using assms by (simp add: scored_score_def DefaultScoredWeights_def f64_inf_times_def Let_def)
  then have "scored_scan (scored_score p fp) [] PInf cs = []"
    by (induction cs) auto
  then show "fst (Scored_Choose p cs fp) = Some []" "sc_load (snd (Scored_Choose p cs fp)) = (sc_load p)([] := sc_load p [] + 1)"
    by (auto simp: Scored_Choose_def sc_load_def)
qed

text \<open>
  C37. Without a sane lag the interface is broken: when the lag of every candidate is infinite
  (a value that \<^verbatim>\<open>strconv.ParseFloat\<close>, and so the health poller, accepts), a scored policy with the
  default weights chooses the empty address, which is no candidate, and counts one more read in flight on
  it, whatever reads are outstanding and whatever latencies it has learned.
\<close>

theorem Scored_Choose_infinite_lag:
  assumes "sc_w p = DefaultScoredWeights" "\<And>c. c \<in> set cs \<Longrightarrow> c_lagSeconds c = PInf"
  shows "fst (Scored_Choose p cs fp) = Some []
    \<and> sc_load (snd (Scored_Choose p cs fp)) = (sc_load p)([] := sc_load p [] + 1) \<and> ParseFloat ''Infinity'' = Some PInf"
proof -
  have "ParseFloat ''Infinity'' = Some PInf" by code_simp
  with Scored_Choose_inf [OF assms] show ?thesis by simp
qed

theorem Scored_Choose_infinite_lag_witness:
  "fst (Scored_Choose (NewScored\<lparr>sc_inFlight := [''r1'' \<mapsto> 3], sc_latency := [(''r1'', ''f'') \<mapsto> Fin 2]\<rparr>)
     [\<lparr>c_addr = ''r1'', c_lagBytes = 0, c_lagSeconds = PInf\<rparr>] ''f'') = Some []"
  using Scored_Choose_infinite_lag [of "NewScored\<lparr>sc_inFlight := [''r1'' \<mapsto> 3], sc_latency := [(''r1'', ''f'') \<mapsto> Fin 2]\<rparr>"
      "[\<lparr>c_addr = ''r1'', c_lagBytes = 0, c_lagSeconds = PInf\<rparr>]" "''f''"]
  by (simp add: NewScored_def NewScoredWith_def)

end
