(* ===== verification/Registry.thy ===== *)
theory Registry
  imports Floats
begin

text \<open>
  \<^verbatim>\<open>internal/registry/registry.go\<close>: the health poller. A backend's state is changed only by
  \<open>recordSuccess\<close> and \<open>recordFailure\<close>, called from \<open>pollOnce\<close>; what the dialer and the health query
  return, and the clock, are arguments. A \<^verbatim>\<open>time.Duration\<close> is an \<open>int\<close> of nanoseconds whose shift
  wraps around at 64 bits as Go's does; an LSN is a 64-bit word.
\<close>


subsection \<open>Data\<close>

datatype Role = RoleUnknown | RolePrimary | RoleReplica

fun Role_String :: "Role \<Rightarrow> string" where
  "Role_String RolePrimary = ''primary''"
| "Role_String RoleReplica = ''replica''"
| "Role_String RoleUnknown = ''unknown''"

record Backend =
  b_name :: string
  b_addr :: address

record RegConfig =
  rc_Interval :: int
  rc_FailureThreshold :: int
  rc_BaseBackoff :: int
  rc_MaxBackoff :: int

record Status =
  s_Name :: string
  s_Addr :: address
  s_Role :: Role
  s_Healthy :: bool
  s_LSN :: uint64
  s_LagBytes :: int
  s_LagSeconds :: f64
  s_LastErr :: string
  s_LastPoll :: int

record backendState =
  bs_name :: string
  bs_addr :: address
  bs_role :: Role
  bs_lsn :: uint64
  bs_lagSeconds :: f64
  bs_healthy :: bool
  bs_lastErr :: string
  bs_lastPoll :: int
  bs_failures :: int

definition second :: int where
  "second = 1000000000"

text \<open>\<^verbatim>\<open>New\<close>: non-positive settings get their defaults.\<close>

definition registry_New :: "RegConfig \<Rightarrow> RegConfig" where
  "registry_New cfg =
     \<lparr>rc_Interval = (if rc_Interval cfg \<le> 0 then second else rc_Interval cfg),
      rc_FailureThreshold = (if rc_FailureThreshold cfg \<le> 0 then 3 else rc_FailureThreshold cfg),
      rc_BaseBackoff = (if rc_BaseBackoff cfg \<le> 0 then second else rc_BaseBackoff cfg),
      rc_MaxBackoff = (if rc_MaxBackoff cfg \<le> 0 then 30 * second else rc_MaxBackoff cfg)\<rparr>"

text \<open>\<^verbatim>\<open>launch\<close>: fresh states, in the order of the backends.\<close>

definition launch :: "Backend list \<Rightarrow> backendState list" where
  "launch backends =
     map (\<lambda>b. \<lparr>bs_name = b_name b, bs_addr = b_addr b, bs_role = RoleUnknown, bs_lsn = 0,
               bs_lagSeconds = Fin 0, bs_healthy = False, bs_lastErr = [], bs_lastPoll = 0,
               bs_failures = 0\<rparr>) backends"


subsection \<open>Parsing the health row\<close>

text \<open>\<^verbatim>\<open>strconv.ParseUint(s, 16, 32)\<close>: one or more hexadecimal digits, at most 32 bits.\<close>

fun parse_hex_digits :: "nat \<Rightarrow> string \<Rightarrow> nat option" where
  "parse_hex_digits n [] = Some n"
| "parse_hex_digits n (c # cs) =
     (if is_hex_digit c
      then let n1 = n * 16 + nat (digit_val c)
           in if 2 ^ 32 - 1 < n1 then None else parse_hex_digits n1 cs
      else None)"

definition ParseUint16_32 :: "string \<Rightarrow> nat option" where
  "ParseUint16_32 s = (if s = [] then None else parse_hex_digits 0 s)"

datatype registry_err = BadLSN string | BadColumns nat | BadLag string | DialErr string | QueryErr string

definition ParseLSN :: "string \<Rightarrow> registry_err + uint64" where
  "ParseLSN s =
     (case str_cut s ''/'' of (hi, lo, ok) \<Rightarrow>
        if \<not> ok then Inl (BadLSN s)
        else (case ParseUint16_32 hi of
                None \<Rightarrow> Inl (BadLSN s)
              | Some high \<Rightarrow>
                  (case ParseUint16_32 lo of
                     None \<Rightarrow> Inl (BadLSN s)
                   | Some low \<Rightarrow> Inr (push_bit 32 (of_nat high) OR of_nat low))))"

definition parseHealthRow :: "string list \<Rightarrow> registry_err + Role \<times> uint64 \<times> f64" where
  "parseHealthRow row =
     (if length row < 3 then Inl (BadColumns (length row))
      else let role = (if row ! 0 = ''t'' then RoleReplica else RolePrimary)
      in case ParseLSN (row ! 1) of
           Inl e \<Rightarrow> Inl e
         | Inr lsn \<Rightarrow>
             (case ParseFloat (row ! 2) of
                None \<Rightarrow> Inl (BadLag (row ! 2))
              | Some lagSeconds \<Rightarrow> Inr (role, lsn, lagSeconds)))"


subsection \<open>Polling\<close>

definition recordSuccess :: "backendState \<Rightarrow> int \<Rightarrow> Role \<Rightarrow> uint64 \<Rightarrow> f64 \<Rightarrow> backendState" where
  "recordSuccess st now role lsn lagSeconds =
     st\<lparr>bs_role := role, bs_lsn := lsn, bs_lagSeconds := lagSeconds, bs_healthy := True,
        bs_failures := 0, bs_lastErr := [], bs_lastPoll := now\<rparr>"

text \<open>\<^verbatim>\<open>d << k\<close> on an \<^verbatim>\<open>int64\<close>: the low 64 bits, read as two's complement.\<close>

definition shl64 :: "int \<Rightarrow> nat \<Rightarrow> int" where
  "shl64 d k = signed_take_bit 63 (d * 2 ^ k)"

definition backoff_of :: "RegConfig \<Rightarrow> int \<Rightarrow> int" where
  "backoff_of cfg failures =
     (let shift = failures - 1;
          shift = (if 30 < shift then 30 else shift);
          backoff = shl64 (rc_BaseBackoff cfg) (nat shift)
      in if backoff \<le> 0 \<or> rc_MaxBackoff cfg < backoff then rc_MaxBackoff cfg else backoff)"

definition recordFailure :: "RegConfig \<Rightarrow> backendState \<Rightarrow> int \<Rightarrow> string \<Rightarrow> int \<times> backendState" where
  "recordFailure cfg st now err =
     (let failures = bs_failures st + 1
      in (backoff_of cfg failures,
          st\<lparr>bs_failures := failures,
             bs_healthy := (if rc_FailureThreshold cfg \<le> failures then False else bs_healthy st),
             bs_lastErr := err, bs_lastPoll := now\<rparr>))"

text \<open>
  \<^verbatim>\<open>pollOnce\<close>: \<open>conn\<close> is the connection kept from the last poll, \<open>dial\<close> what the dialer would
  return, \<open>query\<close> what the health query returns on a connection, \<open>show_err\<close> the text of an error.
  The result is the delay before the next poll, the new state, the connection kept and the
  connections closed.
\<close>

definition pollOnce ::
  "(registry_err \<Rightarrow> string) \<Rightarrow> RegConfig \<Rightarrow> backendState \<Rightarrow> int \<Rightarrow> 'c option \<Rightarrow> (string + 'c)
   \<Rightarrow> ('c \<Rightarrow> string + string list) \<Rightarrow> int \<times> backendState \<times> 'c option \<times> 'c list"
where
  "pollOnce show_err cfg st now conn dial query =
     (let fail = (\<lambda>e conn' cl. let (d, st') = recordFailure cfg st now (show_err e)
                               in (d, st', conn', cl));
          poll = (\<lambda>c. case query c of
                        Inl e \<Rightarrow> fail (QueryErr e) None [c]
                      | Inr row \<Rightarrow>
                          (case parseHealthRow row of
                             Inl e \<Rightarrow> fail e None [c]
                           | Inr (role, lsn, lagSeconds) \<Rightarrow>
                               (rc_Interval cfg, recordSuccess st now role lsn lagSeconds, Some c, [])))
      in case conn of
           Some c \<Rightarrow> poll c
         | None \<Rightarrow> (case dial of
                      Inl e \<Rightarrow> fail (DialErr e) None []
                    | Inr c \<Rightarrow> poll c))"

text \<open>
  \<^verbatim>\<open>pollLoop\<close>: one poll after another until the context is done, each with what its dialer, query
  and clock gave. The result is the last state, the connection kept, and the connections opened
  and closed on the way; the deferred function closes the one kept when the loop ends.
\<close>

fun pollLoop ::
  "(registry_err \<Rightarrow> string) \<Rightarrow> RegConfig \<Rightarrow> backendState \<Rightarrow> 'c option
   \<Rightarrow> (int \<times> (string + 'c) \<times> ('c \<Rightarrow> string + string list)) list \<Rightarrow> backendState \<times> 'c option \<times> 'c list"
where
  "pollLoop show_err cfg st conn [] = (st, None, (case conn of None \<Rightarrow> [] | Some c \<Rightarrow> [c]))"
| "pollLoop show_err cfg st conn ((now, dial, query) # polls) =
     (case pollOnce show_err cfg st now conn dial query of (_, st', conn', cl) \<Rightarrow>
        (case pollLoop show_err cfg st' conn' polls of (st'', conn'', cl') \<Rightarrow>
           (st'', conn'', cl @ cl')))"


subsection \<open>The snapshot\<close>

text \<open>
  \<^verbatim>\<open>Snapshot\<close> locks each backend for itself, first in a pass for the primary's position and then
  in a pass for the statuses; a poll may come in between. The two arguments are the states the
  two passes see.
\<close>

definition primary_lsn :: "backendState list \<Rightarrow> uint64 option" where
  "primary_lsn sts =
     foldl (\<lambda>acc st. if bs_role st = RolePrimary \<and> bs_healthy st then Some (bs_lsn st) else acc) None sts"

definition status_of :: "uint64 option \<Rightarrow> backendState \<Rightarrow> Status" where
  "status_of primary st =
     \<lparr>s_Name = bs_name st, s_Addr = bs_addr st, s_Role = bs_role st, s_Healthy = bs_healthy st,
      s_LSN = bs_lsn st,
      s_LagBytes = (case primary of
                      Some primaryLSN \<Rightarrow>
                        if bs_role st = RoleReplica \<and> bs_lsn st < primaryLSN
                        then sint (primaryLSN - bs_lsn st) else 0
                    | None \<Rightarrow> 0),
      s_LagSeconds = bs_lagSeconds st, s_LastErr = bs_lastErr st, s_LastPoll = bs_lastPoll st\<rparr>"

definition Snapshot :: "backendState list \<Rightarrow> backendState list \<Rightarrow> Status list" where
  "Snapshot sts1 sts2 = map (status_of (primary_lsn sts1)) sts2"


subsection \<open>Starting and replacing the pollers\<close>

text \<open>
  \<^verbatim>\<open>Registry\<close>: a context is named by a number, the pollers are the backends polled under each
  context (one goroutine each, counted by the wait group), and \<open>reg_cancel\<close> the context the last
  \<^verbatim>\<open>launch\<close> derived. A cancelled poller leaves its loop at the next \<^verbatim>\<open>select\<close>, so \<^verbatim>\<open>wg.Wait\<close> returns
  when no poller is left under a context that is not cancelled: \<open>None\<close> is a wait without end, or the
  panic of \<^verbatim>\<open>context.WithCancel\<close> on a nil parent when the registry was never started.
\<close>

record Registry =
  reg_cfg :: RegConfig
  reg_backends :: "backendState list"
  reg_parentCtx :: "nat option"
  reg_cancel :: "nat option"
  reg_pollers :: "(nat \<times> address) list"
  reg_nextCtx :: nat

definition Registry_launch :: "Registry \<Rightarrow> Backend list \<Rightarrow> Registry option" where
  "Registry_launch r backends =
     (case reg_parentCtx r of
        None \<Rightarrow> None
      | Some _ \<Rightarrow>
          let ctx = reg_nextCtx r; states = launch backends
          in Some (r\<lparr>reg_backends := states, reg_cancel := Some ctx, reg_nextCtx := ctx + 1,
                     reg_pollers := reg_pollers r @ map (\<lambda>st. (ctx, bs_addr st)) states\<rparr>))"

definition stopPollers :: "Registry \<Rightarrow> Registry option" where
  "stopPollers r =
     (let left = (case reg_cancel r of
                    None \<Rightarrow> reg_pollers r
                  | Some ctx \<Rightarrow> filter (\<lambda>p. fst p \<noteq> ctx) (reg_pollers r))
      in if left = [] then Some (r\<lparr>reg_pollers := []\<rparr>) else None)"

definition Registry_Start :: "Registry \<Rightarrow> nat \<Rightarrow> Backend list \<Rightarrow> Registry option" where
  "Registry_Start r ctx backends = Registry_launch (r\<lparr>reg_parentCtx := Some ctx\<rparr>) backends"

definition Reconfigure :: "Registry \<Rightarrow> Backend list \<Rightarrow> Registry option" where
  "Reconfigure r backends =
     (case stopPollers r of None \<Rightarrow> None | Some r' \<Rightarrow> Registry_launch r' backends)"

definition Registry_New :: "RegConfig \<Rightarrow> Registry" where
  "Registry_New cfg = \<lparr>reg_cfg = registry_New cfg, reg_backends = [], reg_parentCtx = None,
                       reg_cancel = None, reg_pollers = [], reg_nextCtx = 0\<rparr>"

text \<open>
  \<^verbatim>\<open>Wait\<close>: every poller runs under a context derived from the parent, so all leave when that one is done. That a poller
  leaves, here and in \<^verbatim>\<open>stopPollers\<close>, is the \<^verbatim>\<open>select\<close> of \<^verbatim>\<open>pollLoop\<close> on the context; it is part of these definitions and not derived.
\<close>

definition Registry_Wait :: "bool \<Rightarrow> Registry \<Rightarrow> Registry option" where
  "Registry_Wait parentDone r = (if parentDone \<or> reg_pollers r = [] then Some (r\<lparr>reg_pollers := []\<rparr>) else None)"

fun Reconfigure_all :: "Registry \<Rightarrow> Backend list list \<Rightarrow> Registry option" where
  "Reconfigure_all r [] = Some r"
| "Reconfigure_all r (bs # bss) =
     (case Reconfigure r bs of None \<Rightarrow> None | Some r' \<Rightarrow> Reconfigure_all r' bss)"


subsection \<open>Lemmas: backoff\<close>

lemma shl64_exact: "0 \<le> d \<Longrightarrow> d * 2 ^ k < 2 ^ 63 \<Longrightarrow> shl64 d k = d * 2 ^ k"
  unfolding shl64_def
  by (rule signed_take_bit_int_eq_self) (auto intro: order_trans [of _ 0] mult_nonneg_nonneg)

lemma backoff_of_range: "0 < rc_MaxBackoff cfg \<Longrightarrow> 0 < backoff_of cfg n \<and> backoff_of cfg n \<le> rc_MaxBackoff cfg"
  by (simp add: backoff_of_def Let_def)

lemma shl64_small_shift:
  assumes "0 \<le> d" "d * 2 ^ 30 < 2 ^ 63" "k \<le> 30"
  shows "shl64 d k = d * 2 ^ k"
proof (rule shl64_exact [OF assms(1)])
  have "(2::int) ^ k \<le> 2 ^ 30" by (rule power_increasing [OF assms(3)]) simp
  then have "d * 2 ^ k \<le> d * 2 ^ 30" using assms(1) by (rule mult_left_mono)
  then show "d * 2 ^ k < 2 ^ 63" using assms(2) by linarith
qed

lemma backoff_of_exact:
  assumes "0 < rc_BaseBackoff cfg" "rc_BaseBackoff cfg * 2 ^ 30 < 2 ^ 63" "1 \<le> failures"
  shows "backoff_of cfg failures =
           min (rc_BaseBackoff cfg * 2 ^ min (nat (failures - 1)) 30) (rc_MaxBackoff cfg)"
proof -
  define k where "k = min (nat (failures - 1)) 30"
  have k: "nat (if 30 < failures - 1 then 30 else failures - 1) = k"
    using assms(3) by (auto simp: k_def min_def)
  have "shl64 (rc_BaseBackoff cfg) k = rc_BaseBackoff cfg * 2 ^ k"
    by (rule shl64_small_shift) (use assms in \<open>auto simp: k_def\<close>)
  moreover have "0 < rc_BaseBackoff cfg * 2 ^ k" using assms(1) by simp
  ultimately show ?thesis
    unfolding backoff_of_def Let_def k k_def [symmetric] by auto
qed


subsection \<open>Lemmas: what a sequence of polls leaves\<close>

text \<open>The result of one poll on its own, and of a sequence of polls: what the health rows said.\<close>

definition poll_result ::
  "'c option \<Rightarrow> (string + 'c) \<Rightarrow> ('c \<Rightarrow> string + string list) \<Rightarrow> (Role \<times> uint64 \<times> f64) option \<times> 'c option"
where
  "poll_result conn dial query =
     (case (case conn of Some c \<Rightarrow> Inr c | None \<Rightarrow> dial) of
        Inl _ \<Rightarrow> (None, None)
      | Inr c \<Rightarrow> (case query c of
                    Inl _ \<Rightarrow> (None, None)
                  | Inr row \<Rightarrow> (case parseHealthRow row of
                                  Inl _ \<Rightarrow> (None, None)
                                | Inr h \<Rightarrow> (Some h, Some c))))"

fun poll_results ::
  "'c option \<Rightarrow> (int \<times> (string + 'c) \<times> ('c \<Rightarrow> string + string list)) list \<Rightarrow> (Role \<times> uint64 \<times> f64) option list"
where
  "poll_results conn [] = []"
| "poll_results conn ((now, dial, query) # polls) =
     fst (poll_result conn dial query) # poll_results (snd (poll_result conn dial query)) polls"

definition failure_run :: "'a option list \<Rightarrow> nat" where
  "failure_run rs = length (takeWhile (\<lambda>r. r = None) (rev rs))"

definition last_success :: "'a option list \<Rightarrow> 'a option" where
  "last_success rs = foldl (\<lambda>acc r. case r of None \<Rightarrow> acc | Some x \<Rightarrow> Some x) None rs"

lemma failure_run_simps [simp]:
  "failure_run [] = 0" "failure_run (rs @ [None]) = Suc (failure_run rs)" "failure_run (rs @ [Some x]) = 0"
  by (simp_all add: failure_run_def)

lemma last_success_simps [simp]:
  "last_success [] = None" "last_success (rs @ [None]) = last_success rs"
  "last_success (rs @ [Some x]) = Some x"
  by (simp_all add: last_success_def)

text \<open>The state as a function of the results so far.\<close>

definition breaker_state :: "RegConfig \<Rightarrow> backendState \<Rightarrow> (Role \<times> uint64 \<times> f64) option list \<Rightarrow> bool" where
  "breaker_state cfg st rs \<longleftrightarrow>
     bs_failures st = int (failure_run rs) \<and>
     (case last_success rs of
        None \<Rightarrow> \<not> bs_healthy st \<and> bs_role st = RoleUnknown \<and> bs_lsn st = 0 \<and> bs_lagSeconds st = Fin 0
      | Some (role, lsn, lag) \<Rightarrow>
          bs_role st = role \<and> bs_lsn st = lsn \<and> bs_lagSeconds st = lag \<and>
          (bs_healthy st \<longleftrightarrow> int (failure_run rs) < rc_FailureThreshold cfg))"

lemma breaker_state_launch:
  "0 < rc_FailureThreshold cfg \<Longrightarrow> st \<in> set (launch bs) \<Longrightarrow> breaker_state cfg st []"
  by (auto simp: breaker_state_def launch_def)

lemma breaker_state_success:
  "0 < rc_FailureThreshold cfg \<Longrightarrow> breaker_state cfg st rs \<Longrightarrow>
   breaker_state cfg (recordSuccess st now role lsn lag) (rs @ [Some (role, lsn, lag)])"
  by (simp add: breaker_state_def recordSuccess_def)

lemma breaker_state_failure:
  "breaker_state cfg st rs \<Longrightarrow> breaker_state cfg (snd (recordFailure cfg st now e)) (rs @ [None])"
  by (auto simp: breaker_state_def recordFailure_def Let_def split: option.splits)

lemma pollOnce_outcome:
  "(\<exists>e cl. pollOnce show_err cfg st now conn dial query =
             (fst (recordFailure cfg st now e), snd (recordFailure cfg st now e), None, cl)
           \<and> poll_result conn dial query = (None, None)) \<or>
   (\<exists>role lsn lag c. pollOnce show_err cfg st now conn dial query =
                       (rc_Interval cfg, recordSuccess st now role lsn lag, Some c, [])
                     \<and> poll_result conn dial query = (Some (role, lsn, lag), Some c))"
  by (auto simp: pollOnce_def poll_result_def Let_def split_beta
      split: option.splits sum.splits prod.splits)

lemma breaker_state_pollLoop:
  assumes "0 < rc_FailureThreshold cfg"
  shows "breaker_state cfg st rs \<Longrightarrow>
         breaker_state cfg (fst (pollLoop show_err cfg st conn polls)) (rs @ poll_results conn polls)"
proof (induction polls arbitrary: st conn rs)
  case Nil
  then show ?case by simp
next
  case (Cons p polls)
  obtain now dial query where p: "p = (now, dial, query)" by (cases p)
  from pollOnce_outcome [of show_err cfg st now conn dial query] show ?case
  proof (elim disjE exE conjE)
    fix e cl
    assume "pollOnce show_err cfg st now conn dial query =
              (fst (recordFailure cfg st now e), snd (recordFailure cfg st now e), None, cl)"
      "poll_result conn dial query = (None, None)"
    then show ?thesis
      using Cons.IH [OF breaker_state_failure [OF Cons.prems, of now e], of None]
      by (simp add: p split_beta)
  next
    fix role lsn lag c
    assume "pollOnce show_err cfg st now conn dial query =
              (rc_Interval cfg, recordSuccess st now role lsn lag, Some c, [])"
      "poll_result conn dial query = (Some (role, lsn, lag), Some c)"
    then show ?thesis
      using Cons.IH [OF breaker_state_success [OF assms Cons.prems], of now role lsn lag "Some c"]
      by (simp add: p split_beta)
  qed
qed

text \<open>The connections a sequence of polls obtains from the dialer, in order.\<close>

fun polls_dialed ::
  "'c option \<Rightarrow> (int \<times> (string + 'c) \<times> ('c \<Rightarrow> string + string list)) list \<Rightarrow> 'c list"
where
  "polls_dialed conn [] = []"
| "polls_dialed conn ((now, dial, query) # polls) =
     (case (conn, dial) of (None, Inr c) \<Rightarrow> [c] | _ \<Rightarrow> [])
     @ polls_dialed (snd (poll_result conn dial query)) polls"

lemma pollLoop_closes:
  "snd (snd (pollLoop show_err cfg st conn polls)) =
     (case conn of None \<Rightarrow> [] | Some c \<Rightarrow> [c]) @ polls_dialed conn polls"
proof (induction polls arbitrary: st conn)
  case Nil
  then show ?case by (simp split: option.splits)
next
  case (Cons p polls)
  obtain now dial query where p: "p = (now, dial, query)" by (cases p)
  show ?case
    using Cons.IH
    by (auto simp: p pollOnce_def poll_result_def Let_def split_beta
        split: option.splits sum.splits prod.splits)
qed



subsection \<open>Lemmas: positions and lag\<close>

text \<open>Postgres prints a \<^verbatim>\<open>pg_lsn\<close> as two upper-case hexadecimal numbers around a slash.\<close>

definition hex_digit :: "nat \<Rightarrow> char" where
  "hex_digit d = char_of (if d < 10 then 48 + d else 55 + d)"

fun print_hex :: "nat \<Rightarrow> string" where
  "print_hex n = (if n < 16 then [hex_digit n] else print_hex (n div 16) @ [hex_digit (n mod 16)])"

declare print_hex.simps [simp del]

definition print_lsn :: "uint64 \<Rightarrow> string" where
  "print_lsn x = print_hex (unat (drop_bit 32 x)) @ ''/'' @ print_hex (unat (take_bit 32 x))"

lemma hex_digit_reads:
  assumes "d < 16"
  shows "is_hex_digit (hex_digit d) \<and> digit_val (hex_digit d) = int d \<and> hex_digit d \<noteq> CHR ''/''"
proof -
  have "d \<in> {0,1,2,3,4,5,6,7,8,9,10,11,12,13,14,15}"
    using assms unfolding insert_iff empty_iff by presburger
  then show ?thesis
    by (elim insertE)
       (simp_all add: hex_digit_def is_hex_digit_def is_digit_def digit_val_def lower_char_def
         char_of_def bit_0 Let_def)
qed

lemma parse_hex_digits_append:
  "parse_hex_digits n (xs @ ys) =
     (case parse_hex_digits n xs of None \<Rightarrow> None | Some m \<Rightarrow> parse_hex_digits m ys)"
  by (induction xs arbitrary: n) (auto simp: Let_def)

lemma parse_print_hex: "n < 2 ^ 32 \<Longrightarrow> parse_hex_digits 0 (print_hex n) = Some n"
proof (induction n rule: print_hex.induct)
  case (1 n)
  show ?case
  proof (cases "n < 16")
    case True
    with 1(2) show ?thesis using hex_digit_reads [of n] by (simp add: print_hex.simps [of n] Let_def)
  next
    case False
    then have "parse_hex_digits 0 (print_hex (n div 16)) = Some (n div 16)"
      using 1 by simp
    with False 1(2) show ?thesis
      using hex_digit_reads [of "n mod 16"]
      by (simp add: print_hex.simps [of n] parse_hex_digits_append Let_def)
  qed
qed

lemma print_hex_chars: "CHR ''/'' \<notin> set (print_hex n) \<and> print_hex n \<noteq> []"
proof (induction n rule: print_hex.induct)
  case (1 n)
  then show ?case
    using hex_digit_reads [of n] hex_digit_reads [of "n mod 16"] by (subst (1 2) print_hex.simps) auto
qed

lemma word_halves: "push_bit 32 (drop_bit 32 x) OR take_bit 32 x = (x :: uint64)"
  by (rule bit_word_eqI) (auto simp: bit_simps)

lemma half_small: "unat (drop_bit 32 (x :: uint64)) < 2 ^ 32" "unat (take_bit 32 (x :: uint64)) < 2 ^ 32"
proof -
  have "unat x < 2 ^ 64" using unsigned_less [of x, where 'a = nat] by simp
  then show "unat (drop_bit 32 x) < 2 ^ 32"
    by (subst unat_drop_bit_eq) (simp add: drop_bit_eq_div [where 'a = nat])
  show "unat (take_bit 32 x) < 2 ^ 32"
    by (subst unsigned_take_bit_eq) (rule take_bit_nat_less_exp)
qed

lemma foldl_last_match:
  "foldl (\<lambda>acc st. if P st then Some (f st) else acc) a sts =
     (case rev (filter P sts) of [] \<Rightarrow> a | st # _ \<Rightarrow> Some (f st))"
  by (induction sts rule: rev_induct) auto



lemma sint_diff_positions:
  assumes "x < (p :: uint64)" "uint p < 2 ^ 63"
  shows "sint (p - x) = uint p - uint x"
proof -
  have d: "uint (p - x) = uint p - uint x"
    by (rule uint_sub_lem [THEN iffD1]) (use assms(1) in \<open>simp add: word_less_def\<close>)
  have "uint (p - x) < 2 ^ 63"
    using unsigned_greater_eq [of x, where 'a = int] d assms(2) by linarith
  moreover have "0 \<le> uint (p - x)" by (rule unsigned_greater_eq)
  ultimately have "signed_take_bit 63 (uint (p - x)) = uint (p - x)"
    by (intro signed_take_bit_int_eq_self) (auto intro: order_trans [of _ 0])
  then show ?thesis by (simp add: sint_uint d)
qed

lemma status_of_lag_nonneg:
  assumes "case primary of None \<Rightarrow> True | Some p \<Rightarrow> uint p < 2 ^ 63"
  shows "s_LagBytes (status_of primary st) =
     (case primary of
        None \<Rightarrow> 0
      | Some p \<Rightarrow> if bs_role st = RoleReplica then max 0 (uint p - uint (bs_lsn st)) else 0)"
proof (cases primary)
  case (Some p)
  with assms have "bs_lsn st < p \<Longrightarrow> sint (p - bs_lsn st) = uint p - uint (bs_lsn st)"
    by (intro sint_diff_positions) auto
  with Some show ?thesis
    by (auto simp: status_of_def word_less_def max_def)
qed (simp add: status_of_def)

text \<open>The invariant of \<open>Registry\<close>: every poller runs under the context the next stop cancels.\<close>

definition registry_inv :: "Registry \<Rightarrow> bool" where
  "registry_inv r \<longleftrightarrow>
     (case reg_cancel r of
        None \<Rightarrow> reg_pollers r = [] \<and> reg_backends r = []
      | Some ctx \<Rightarrow> reg_pollers r = map (\<lambda>st. (ctx, bs_addr st)) (reg_backends r))"

lemma stopPollers_stops: "registry_inv r \<Longrightarrow> stopPollers r = Some (r\<lparr>reg_pollers := []\<rparr>)"
  by (auto simp: registry_inv_def stopPollers_def Let_def split: option.splits)

lemma Reconfigure_replaces:
  assumes "registry_inv r" "reg_parentCtx r = Some ctx"
  obtains r' where "Reconfigure r bs = Some r'" "registry_inv r'" "reg_parentCtx r' = Some ctx"
    "reg_backends r' = launch bs" "reg_cfg r' = reg_cfg r"
  using assms by (simp add: Reconfigure_def stopPollers_stops Registry_launch_def Let_def registry_inv_def)

lemma Reconfigure_all_replaces:
  "registry_inv r \<Longrightarrow> reg_parentCtx r = Some ctx \<Longrightarrow> reg_backends r = launch bs \<Longrightarrow>
   \<exists>r'. Reconfigure_all r bss = Some r' \<and> registry_inv r' \<and> reg_backends r' = launch (last (bs # bss))"
proof (induction bss arbitrary: r bs)
  case (Cons b bss)
  from Cons.prems(1,2) obtain r1 where r1: "Reconfigure r b = Some r1" "registry_inv r1"
    "reg_parentCtx r1 = Some ctx" "reg_backends r1 = launch b"
    by (rule Reconfigure_replaces)
  from Cons.IH [OF r1(2-4)] r1(1) show ?case by simp
qed simp


subsection \<open>Properties\<close>

text \<open>
  C12. The circuit breaker. After any sequence of polls of a backend started by \<^verbatim>\<open>launch\<close>, the
  backend is reported healthy exactly when some poll succeeded and fewer polls than the failure
  threshold have failed since the last success; the role, the LSN and the lag are those of the last
  successful health row, and the failure counter is the length of the run of failures.
\<close>

theorem pollLoop_circuit_breaker:
  assumes "st \<in> set (launch backends)"
    and "st' = fst (pollLoop show_err (registry_New cfg) st None polls)"
    and "rs = poll_results None polls"
  shows "(bs_healthy st' \<longleftrightarrow>
            last_success rs \<noteq> None \<and> int (failure_run rs) < rc_FailureThreshold (registry_New cfg)) \<and>
         bs_failures st' = int (failure_run rs) \<and>
         (case last_success rs of
            None \<Rightarrow> bs_role st' = RoleUnknown
          | Some (role, lsn, lag) \<Rightarrow> bs_role st' = role \<and> bs_lsn st' = lsn \<and> bs_lagSeconds st' = lag)"
proof -
  have "0 < rc_FailureThreshold (registry_New cfg)"
    by (simp add: registry_New_def)
  from breaker_state_pollLoop [OF this breaker_state_launch [OF this assms(1)], of show_err None polls]
  have "breaker_state (registry_New cfg) st' rs"
    by (simp add: assms(2,3))
  then show ?thesis
    by (auto simp: breaker_state_def split: option.splits)
qed

lemma pollLoop_circuit_breaker_witness:
  defines "st0 \<equiv> hd (launch [\<lparr>b_name = ''r1'', b_addr = ''r1:5432''\<rparr>])"
    and "cfg \<equiv> \<lparr>rc_Interval = 0, rc_FailureThreshold = 2, rc_BaseBackoff = 0, rc_MaxBackoff = 0\<rparr>"
    and "ok \<equiv> (1, Inr (7::nat), \<lambda>c. Inr [''t'', ''0/10'', ''0''])"
    and "bad \<equiv> (2, Inl ''refused'', \<lambda>c. Inl ''reset'')"
  shows "bs_healthy (fst (pollLoop (\<lambda>_. []) (registry_New cfg) st0 None [ok, bad])) \<and>
         \<not> bs_healthy (fst (pollLoop (\<lambda>_. []) (registry_New cfg) st0 None [ok, bad, bad]))"
proof -
  have st0: "st0 \<in> set (launch [\<lparr>b_name = ''r1'', b_addr = ''r1:5432''\<rparr>])"
    by (simp add: st0_def launch_def)
  have "parseHealthRow [''t'', ''0/10'', ''0''] = Inr (RoleReplica, 16, Fin 0)"
    by (simp add: parseHealthRow_def ParseLSN_def str_cut_def str_index.simps has_prefix_def
        ParseUint16_32_def lower_char_def ParseFloat_def go_defs f64_round_def)
  then have "last_success (poll_results None [ok, bad]) \<noteq> None"
    "failure_run (poll_results None [ok, bad]) = 1" "failure_run (poll_results None [ok, bad, bad]) = 2"
    by (auto simp: ok_def bad_def poll_result_def last_success_def failure_run_def split: sum.splits)
  then show ?thesis
    using pollLoop_circuit_breaker [OF st0 refl refl, of "\<lambda>_. []" cfg "[ok, bad]"]
      pollLoop_circuit_breaker [OF st0 refl refl, of "\<lambda>_. []" cfg "[ok, bad, bad]"]
    by (simp add: cfg_def registry_New_def)
qed

text \<open>
  C32. The delay after a failed poll. With any configuration \<^verbatim>\<open>New\<close> accepts, the delay \<open>recordFailure\<close>
  returns is positive and at most the maximum, whatever the shift does at 64 bits; when the base
  delay is below 2^33 ns (8.6 s) it is the base delay doubled for each earlier failure of the run
  (30 doublings at most), capped at the maximum.
\<close>

theorem recordFailure_backoff:
  assumes "cfg = registry_New c" "0 \<le> bs_failures st"
  shows "0 < fst (recordFailure cfg st now e) \<and> fst (recordFailure cfg st now e) \<le> rc_MaxBackoff cfg \<and>
         (rc_BaseBackoff cfg < 2 ^ 33 \<longrightarrow>
            fst (recordFailure cfg st now e) =
              min (rc_BaseBackoff cfg * 2 ^ min (nat (bs_failures st)) 30) (rc_MaxBackoff cfg))"
proof -
  have "0 < rc_MaxBackoff cfg" "0 < rc_BaseBackoff cfg"
    by (simp_all add: assms(1) registry_New_def second_def)
  then show ?thesis
    using backoff_of_range [of cfg "bs_failures st + 1"] backoff_of_exact [of cfg "bs_failures st + 1"] assms(2)
    by (simp add: recordFailure_def Let_def)
qed

lemma recordFailure_backoff_witness:
  "fst (recordFailure (registry_New \<lparr>rc_Interval = 0, rc_FailureThreshold = 0, rc_BaseBackoff = 0, rc_MaxBackoff = 0\<rparr>)
     (hd (launch [\<lparr>b_name = ''a'', b_addr = ''b''\<rparr>])\<lparr>bs_failures := 2\<rparr>) 0 []) = 4 * second"
  using recordFailure_backoff [OF refl, of "hd (launch [\<lparr>b_name = ''a'', b_addr = ''b''\<rparr>])\<lparr>bs_failures := 2\<rparr>"
      "\<lparr>rc_Interval = 0, rc_FailureThreshold = 0, rc_BaseBackoff = 0, rc_MaxBackoff = 0\<rparr>" 0 "[]"]
  by (simp add: registry_New_def second_def min_def)

text \<open>
  C33. \<open>ParseLSN\<close> reads back every position in the form Postgres prints it, without loss over the
  whole 64-bit range.
\<close>

theorem ParseLSN_print: "ParseLSN (print_lsn x) = Inr x"
  using str_cut_notin [of "CHR ''/''" "print_hex (unat (drop_bit 32 x))"] print_hex_chars
    parse_print_hex [OF half_small(1)] parse_print_hex [OF half_small(2)]
  by (simp add: ParseLSN_def print_lsn_def ParseUint16_32_def word_halves)

text \<open>
  The lag of a snapshot: as long as positions are below 2^63, the lag in bytes of a replica is
  how far its position is behind that of the last healthy primary of the list (0 when it is ahead),
  it is never negative, and it is 0 for a primary and when no healthy primary is known. No backend
  is added, dropped or reordered, also when polls change the states between the two passes.
\<close>

theorem Snapshot_lag:
  assumes "length sts1 = length sts2" "\<forall>st \<in> set sts1. uint (bs_lsn st) < 2 ^ 63" "i < length sts2"
  shows "length (Snapshot sts1 sts2) = length sts2 \<and>
         s_LSN (Snapshot sts1 sts2 ! i) = bs_lsn (sts2 ! i) \<and>
         s_Addr (Snapshot sts1 sts2 ! i) = bs_addr (sts2 ! i) \<and>
         s_LagBytes (Snapshot sts1 sts2 ! i) =
           (case rev (filter (\<lambda>st. bs_role st = RolePrimary \<and> bs_healthy st) sts1) of
              p # _ \<Rightarrow> if bs_role (sts2 ! i) = RoleReplica
                       then max 0 (uint (bs_lsn p) - uint (bs_lsn (sts2 ! i))) else 0
            | [] \<Rightarrow> 0)"
proof -
  let ?ps = "rev (filter (\<lambda>st. bs_role st = RolePrimary \<and> bs_healthy st) sts1)"
  have pl: "primary_lsn sts1 = (case ?ps of [] \<Rightarrow> None | p # _ \<Rightarrow> Some (bs_lsn p))"
    unfolding primary_lsn_def by (rule foldl_last_match)
  have "\<And>p ps. ?ps = p # ps \<Longrightarrow> p \<in> set sts1"
    by (metis filter_is_subset list.set_intros(1) set_rev subsetD)
  with assms(2) have "case primary_lsn sts1 of None \<Rightarrow> True | Some p \<Rightarrow> uint p < 2 ^ 63"
    unfolding pl by (auto split: list.split)
  from status_of_lag_nonneg [OF this, of "sts2 ! i"] assms(3) show ?thesis
    by (auto simp: Snapshot_def pl status_of_def split: list.splits)
qed

lemma Snapshot_lag_witness:
  defines "p \<equiv> (hd (launch [\<lparr>b_name = ''p'', b_addr = ''p:1''\<rparr>]))\<lparr>bs_role := RolePrimary, bs_healthy := True, bs_lsn := 100\<rparr>"
    and "r \<equiv> (hd (launch [\<lparr>b_name = ''r'', b_addr = ''r:1''\<rparr>]))\<lparr>bs_role := RoleReplica, bs_healthy := True, bs_lsn := 58\<rparr>"
  shows "s_LagBytes (Snapshot [p, r] [p, r] ! 1) = 42"
  using Snapshot_lag [of "[p, r]" "[p, r]" 1] by (simp add: p_def r_def launch_def)

text \<open>
  No health connection is leaked or closed twice: when a poll loop ends, the connections closed
  are exactly those its dialer returned, in the same order, whatever the polls did.
\<close>

theorem pollLoop_closes_dialed:
  "snd (pollLoop show_err cfg st None polls) = (None, polls_dialed None polls)"
proof -
  have "fst (snd (pollLoop show_err cfg st c polls)) = None" for st c
    by (induction polls arbitrary: st c) (auto simp: split_beta)
  then show ?thesis
    using pollLoop_closes [of show_err cfg st None polls] by (simp add: prod_eq_iff)
qed

text \<open>
  Reconfiguration: a registry that has been started can be given new backend lists any number
  of times; each time the old pollers stop (the wait returns), and afterwards exactly one poller per
  backend of the last list runs, on fresh states.
\<close>

theorem Reconfigure_all_pollers:
  assumes "Registry_Start (Registry_New cfg) ctx bs = Some r"
  shows "\<exists>r'. Reconfigure_all r bss = Some r' \<and>
              map snd (reg_pollers r') = map b_addr (last (bs # bss)) \<and>
              reg_backends r' = launch (last (bs # bss))"
proof -
  have "registry_inv r" "reg_parentCtx r = Some ctx" "reg_backends r = launch bs"
    using assms by (auto simp: Registry_Start_def Registry_New_def Registry_launch_def registry_inv_def Let_def)
  from Reconfigure_all_replaces [OF this, of bss] obtain r' where
    r': "Reconfigure_all r bss = Some r'" "registry_inv r'" "reg_backends r' = launch (last (bs # bss))"
    by blast
  then have "map snd (reg_pollers r') = map bs_addr (reg_backends r')"
    by (auto simp: registry_inv_def split: option.splits)
  with r' show ?thesis by (auto simp: launch_def)
qed

lemma Reconfigure_all_pollers_witness:
  "\<exists>r'. Reconfigure_all (the (Registry_Start (Registry_New
            \<lparr>rc_Interval = 0, rc_FailureThreshold = 0, rc_BaseBackoff = 0, rc_MaxBackoff = 0\<rparr>) 0 []))
          [[\<lparr>b_name = ''a'', b_addr = ''a:1''\<rparr>]] = Some r' \<and> map snd (reg_pollers r') = [''a:1'']"
  using Reconfigure_all_pollers [of "\<lparr>rc_Interval = 0, rc_FailureThreshold = 0, rc_BaseBackoff = 0, rc_MaxBackoff = 0\<rparr>" 0 "[]"
      _ "[[\<lparr>b_name = ''a'', b_addr = ''a:1''\<rparr>]]"]
  by (auto simp: Registry_Start_def Registry_New_def Registry_launch_def Let_def)

subsection \<open>What a snapshot rests on\<close>

text \<open>The registry's states after the polls of each address so far.\<close>

definition polled ::
  "(registry_err \<Rightarrow> string) \<Rightarrow> RegConfig \<Rightarrow> Backend list
   \<Rightarrow> (address \<Rightarrow> (int \<times> (string + 'c) \<times> ('c \<Rightarrow> string + string list)) list) \<Rightarrow> backendState list"
where
  "polled show_err cfg backends polls =
     map (\<lambda>st. fst (pollLoop show_err (registry_New cfg) st None (polls (bs_addr st)))) (launch backends)"

lemma pollOnce_addr: "bs_addr (fst (snd (pollOnce show_err cfg st now conn dial query))) = bs_addr st"
  by (auto simp: pollOnce_def recordFailure_def recordSuccess_def Let_def split: option.splits sum.splits prod.splits)

lemma pollLoop_addr: "bs_addr (fst (pollLoop show_err cfg st conn polls)) = bs_addr st"
proof (induction polls arbitrary: st conn)
  case (Cons p polls)
  obtain now dial query where p: "p = (now, dial, query)" by (cases p)
  obtain d st' conn' cl where o: "pollOnce show_err cfg st now conn dial query = (d, st', conn', cl)"
    by (cases "pollOnce show_err cfg st now conn dial query")
  with pollOnce_addr [of show_err cfg st now conn dial query] Cons.IH [of st' conn'] p show ?case
    by (auto split: prod.splits)
qed simp

lemma last_success_mem: "last_success rs = Some x \<Longrightarrow> Some x \<in> set rs"
  by (induction rs rule: rev_induct) (auto simp: last_success_def split: option.splits)

text \<open>The state of every polled backend: its address, and what its own polls make of it.\<close>

lemma polled_state:
  assumes "st \<in> set (polled show_err cfg backends polls)"
  shows "bs_addr st \<in> b_addr ` set backends" "breaker_state (registry_New cfg) st (poll_results None (polls (bs_addr st)))"
proof -
  from assms obtain st0 where st0: "st0 \<in> set (launch backends)"
    and st: "st = fst (pollLoop show_err (registry_New cfg) st0 None (polls (bs_addr st0)))"
    by (auto simp: polled_def)
  have a: "bs_addr st = bs_addr st0" by (simp add: st pollLoop_addr)
  with st0 show "bs_addr st \<in> b_addr ` set backends" by (auto simp: launch_def)
  have pos: "0 < rc_FailureThreshold (registry_New cfg)" by (simp add: registry_New_def)
  from breaker_state_pollLoop [OF pos breaker_state_launch [OF pos st0], of show_err None "polls (bs_addr st0)"]
  show "breaker_state (registry_New cfg) st (poll_results None (polls (bs_addr st)))" by (simp add: a st [symmetric])
qed

text \<open>What a snapshot says of a healthy replica is what a successful poll of it said.\<close>

lemma snapshot_polled:
  assumes "st \<in> set (Snapshot sts1 (polled show_err cfg backends polls))" "s_Role st = RoleReplica" "s_Healthy st"
  shows "\<exists>lag. Some (RoleReplica, s_LSN st, lag) \<in> set (poll_results None (polls (s_Addr st)))"
proof -
  from assms(1) obtain b where b: "b \<in> set (polled show_err cfg backends polls)" "st = status_of (primary_lsn sts1) b"
    by (auto simp: Snapshot_def)
  from polled_state(2) [OF b(1)] assms(2,3) b(2) show ?thesis
    by (auto simp: breaker_state_def status_of_def split: option.splits dest: last_success_mem)
qed

lemma snapshot_lag:
  assumes "st \<in> set (Snapshot sts1 (polled show_err cfg backends polls))"
  shows "s_LagSeconds st = Fin 0 \<or>
         (\<exists>role lsn. Some (role, lsn, s_LagSeconds st) \<in> set (poll_results None (polls (s_Addr st))))"
proof -
  from assms obtain b where b: "b \<in> set (polled show_err cfg backends polls)" "st = status_of (primary_lsn sts1) b"
    by (auto simp: Snapshot_def)
  show ?thesis
    using polled_state(2) [OF b(1)] b(2)
    by (auto simp: breaker_state_def status_of_def split: option.splits dest: last_success_mem)
qed

lemma snapshot_addr:
  "st \<in> set (Snapshot sts1 (polled show_err cfg backends polls)) \<Longrightarrow> s_Addr st \<in> b_addr ` set backends"
  using polled_state(1) by (fastforce simp: Snapshot_def status_of_def)

end
