(* ===== verification/Pool.thy ===== *)
theory Pool
  imports Prelude "HOL-Library.Multiset" "HOL-Library.Sublist"
begin

text \<open>
  \<^verbatim>\<open>internal/pool/pool.go\<close>: the bounded connection pool. Each critical section of the mutex is a
  function on the pool's state; \<^verbatim>\<open>Acquire\<close>, \<^verbatim>\<open>Close\<close> and the waiters' channels are then a transition
  system whose threads interleave between the critical sections. A connection is named by a
  number given when it is opened, a waiter's channel by a number given when it is made. Closing a
  connection, which the code does after unlocking on a connection no other thread can see, is
  recorded in the same step.
\<close>


subsection \<open>Data\<close>

type_synonym conn = nat
type_synonym chan = nat

datatype pool_err = PErrClosed | PErrTimeout | PErrExhausted | PErrCtx | PErrNew

record PoolConfig =
  pc_MaxSize :: int
  pc_MaxWaiters :: int
  pc_AcquireTimeout :: int
  pc_IdleTimeout :: int
  pc_New :: bool
  pc_Ping :: bool

record idleConn =
  ic_conn :: conn
  ic_idleSince :: int

record Pool =
  p_idle :: "idleConn list"
  p_open :: int
  p_waiters :: "chan list"
  p_closed :: bool

record Stats =
  st_Open :: int
  st_Idle :: int
  st_InUse :: int
  st_Waiters :: int

abbreviation fresh_pool :: Pool where
  "fresh_pool \<equiv> \<lparr>p_idle = [], p_open = 0, p_waiters = [], p_closed = False\<rparr>"

definition pool_New :: "PoolConfig \<Rightarrow> string + Pool" where
  "pool_New cfg =
     (if pc_MaxSize cfg \<le> 0 then Inl ''pool: MaxSize must be > 0''
      else if \<not> pc_New cfg then Inl ''pool: New is required''
      else Inr fresh_pool)"


subsection \<open>The critical sections\<close>

text \<open>What one turn of \<^verbatim>\<open>Acquire\<close>'s loop decides while it holds the lock.\<close>

datatype acquire_next =
  AcqErr pool_err
| AcqExpired conn
| AcqReuse conn
| AcqOpen
| AcqWait chan

definition Acquire_locked :: "PoolConfig \<Rightarrow> int \<Rightarrow> chan \<Rightarrow> Pool \<Rightarrow> acquire_next \<times> Pool" where
  "Acquire_locked cfg now w p =
     (if p_closed p then (AcqErr PErrClosed, p)
      else if p_idle p \<noteq> [] then
        let ic = last (p_idle p); p1 = p\<lparr>p_idle := butlast (p_idle p)\<rparr>
        in if 0 < pc_IdleTimeout cfg \<and> pc_IdleTimeout cfg \<le> now - ic_idleSince ic
           then (AcqExpired (ic_conn ic), p1\<lparr>p_open := p_open p1 - 1\<rparr>)
           else (AcqReuse (ic_conn ic), p1)
      else if p_open p < pc_MaxSize cfg then (AcqOpen, p\<lparr>p_open := p_open p + 1\<rparr>)
      else if 0 < pc_MaxWaiters cfg \<and> pc_MaxWaiters cfg \<le> int (length (p_waiters p))
        then (AcqErr PErrExhausted, p)
      else (AcqWait w, p\<lparr>p_waiters := p_waiters p @ [w]\<rparr>))"

text \<open>The slot given back by a failed \<^verbatim>\<open>New\<close>, a failed \<^verbatim>\<open>Ping\<close> or \<^verbatim>\<open>Discard\<close>.\<close>

definition free_slot :: "Pool \<Rightarrow> Pool" where
  "free_slot p = p\<lparr>p_open := p_open p - 1\<rparr>"

text \<open>\<^verbatim>\<open>abandonWaiter\<close>: whether the waiter was still queued, and the queue without it.\<close>

definition abandonWaiter_locked :: "chan \<Rightarrow> Pool \<Rightarrow> bool \<times> Pool" where
  "abandonWaiter_locked w p =
     (if w \<in> set (p_waiters p) then (True, p\<lparr>p_waiters := remove1 w (p_waiters p)\<rparr>) else (False, p))"

datatype release_next = RelClose conn | RelSend chan conn | RelKept

definition Release_locked :: "int \<Rightarrow> conn \<Rightarrow> Pool \<Rightarrow> release_next \<times> Pool" where
  "Release_locked now c p =
     (if p_closed p then (RelClose c, p\<lparr>p_open := p_open p - 1\<rparr>)
      else case p_waiters p of
             w # ws \<Rightarrow> (RelSend w c, p\<lparr>p_waiters := ws\<rparr>)
           | [] \<Rightarrow> (RelKept, p\<lparr>p_idle := p_idle p @ [\<lparr>ic_conn = c, ic_idleSince = now\<rparr>]\<rparr>))"

text \<open>\<^verbatim>\<open>Close\<close>: \<open>None\<close> when the pool is closed already, else what is to be woken and closed.\<close>

definition Close_locked :: "Pool \<Rightarrow> (chan list \<times> conn list) option \<times> Pool" where
  "Close_locked p =
     (if p_closed p then (None, p)
      else (Some (p_waiters p, map ic_conn (p_idle p)),
            p\<lparr>p_closed := True, p_idle := [], p_waiters := []\<rparr>))"

definition Pool_Stats :: "Pool \<Rightarrow> Stats" where
  "Pool_Stats p = \<lparr>st_Open = p_open p, st_Idle = int (length (p_idle p)),
                   st_InUse = p_open p - int (length (p_idle p)),
                   st_Waiters = int (length (p_waiters p))\<rparr>"

fun reap_scan ::
  "int \<Rightarrow> int \<Rightarrow> idleConn list \<Rightarrow> conn list \<Rightarrow> int \<Rightarrow> idleConn list \<Rightarrow> idleConn list \<times> conn list \<times> int"
where
  "reap_scan timeout now kept toClose n [] = (kept, toClose, n)"
| "reap_scan timeout now kept toClose n (ic # ics) =
     (if timeout \<le> now - ic_idleSince ic
      then reap_scan timeout now kept (toClose @ [ic_conn ic]) (n - 1) ics
      else reap_scan timeout now (kept @ [ic]) toClose n ics)"

definition reapOnce :: "PoolConfig \<Rightarrow> int \<Rightarrow> Pool \<Rightarrow> conn list \<times> Pool" where
  "reapOnce cfg now p =
     (case reap_scan (pc_IdleTimeout cfg) now [] [] (p_open p) (p_idle p) of
        (kept, toClose, n) \<Rightarrow> (toClose, p\<lparr>p_idle := kept, p_open := n\<rparr>))"

text \<open>\<^verbatim>\<open>reap\<close>: how often the reaper runs.\<close>

definition reap_interval :: "PoolConfig \<Rightarrow> int" where
  "reap_interval cfg =
     (let interval = pc_IdleTimeout cfg;
          interval = (if 30 * 10 ^ 9 < interval then 30 * 10 ^ 9 else interval)
      in if interval < 10 * 10 ^ 6 then 10 * 10 ^ 6 else interval)"


subsection \<open>Threads\<close>

text \<open>
  Where a thread is: outside the pool; at the top of \<^verbatim>\<open>Acquire\<close>'s loop; in \<^verbatim>\<open>Ping\<close> with a connection;
  in \<^verbatim>\<open>New\<close>; in the \<^verbatim>\<open>select\<close> of \<^verbatim>\<open>waitFor\<close>; at the receive at the end of \<^verbatim>\<open>abandonWaiter\<close>; in \<^verbatim>\<open>Close\<close>,
  with the waiters still to wake and the idle connections to close. The number is the deadline,
  \<open>None\<close> without a timeout.
\<close>

datatype thread =
  TIdle
| TLoop "int option"
| TPing conn "int option"
| TNew
| TWait chan "int option"
| TAbandon chan pool_err
| TClose "chan list" "conn list"

text \<open>
  The state of the transition system: the pool; its threads; the messages in the waiters'
  channels, which hold one message each (\<open>None\<close> is the nil that \<^verbatim>\<open>Close\<close> sends); the connections
  handed out, in the hands of the callers; the connections closed; the number of connections and
  of channels made so far; the clock; and what the calls of \<^verbatim>\<open>Acquire\<close> returned, by thread.
\<close>

record pool_world =
  w_pool :: Pool
  w_threads :: "thread list"
  w_box :: "(chan \<times> conn option) list"
  w_out :: "conn list"
  w_closed :: "conn list"
  w_nconns :: nat
  w_nchans :: nat
  w_now :: int
  w_rets :: "(nat \<times> (pool_err + conn)) list"

definition set_thread :: "nat \<Rightarrow> thread \<Rightarrow> pool_world \<Rightarrow> pool_world" where
  "set_thread i t w = w\<lparr>w_threads := (w_threads w)[i := t]\<rparr>"

definition return_err :: "nat \<Rightarrow> pool_err \<Rightarrow> pool_world \<Rightarrow> pool_world" where
  "return_err i e w = set_thread i TIdle (w\<lparr>w_rets := w_rets w @ [(i, Inl e)]\<rparr>)"

definition return_conn :: "nat \<Rightarrow> conn \<Rightarrow> pool_world \<Rightarrow> pool_world" where
  "return_conn i c w =
     set_thread i TIdle (w\<lparr>w_rets := w_rets w @ [(i, Inr c)], w_out := c # w_out w\<rparr>)"

text \<open>\<^verbatim>\<open>checkReused\<close>, first part: without \<^verbatim>\<open>Ping\<close> the connection is returned at once.\<close>

definition checkReused :: "PoolConfig \<Rightarrow> nat \<Rightarrow> conn \<Rightarrow> int option \<Rightarrow> pool_world \<Rightarrow> pool_world" where
  "checkReused cfg i c dl w = (if pc_Ping cfg then set_thread i (TPing c dl) w else return_conn i c w)"

definition acquire_turn :: "PoolConfig \<Rightarrow> nat \<Rightarrow> int option \<Rightarrow> pool_world \<Rightarrow> pool_world" where
  "acquire_turn cfg i dl w =
     (case Acquire_locked cfg (w_now w) (w_nchans w) (w_pool w) of
        (AcqErr e, p) \<Rightarrow> return_err i e (w\<lparr>w_pool := p\<rparr>)
      | (AcqExpired c, p) \<Rightarrow> w\<lparr>w_pool := p, w_closed := w_closed w @ [c]\<rparr>
      | (AcqReuse c, p) \<Rightarrow> checkReused cfg i c dl (w\<lparr>w_pool := p\<rparr>)
      | (AcqOpen, p) \<Rightarrow> set_thread i TNew (w\<lparr>w_pool := p\<rparr>)
      | (AcqWait ch, p) \<Rightarrow> set_thread i (TWait ch dl) (w\<lparr>w_pool := p, w_nchans := w_nchans w + 1\<rparr>))"

text \<open>\<^verbatim>\<open>Release\<close>; the send is blocked, \<open>None\<close>, when the channel already holds a message.\<close>

definition Pool_Release :: "conn \<Rightarrow> pool_world \<Rightarrow> pool_world option" where
  "Pool_Release c w =
     (case Release_locked (w_now w) c (w_pool w) of
        (RelClose c', p) \<Rightarrow> Some (w\<lparr>w_pool := p, w_closed := w_closed w @ [c']\<rparr>)
      | (RelSend ch c', p) \<Rightarrow>
          if ch \<in> fst ` set (w_box w) then None
          else Some (w\<lparr>w_pool := p, w_box := w_box w @ [(ch, Some c')]\<rparr>)
      | (RelKept, p) \<Rightarrow> Some (w\<lparr>w_pool := p\<rparr>))"

definition Pool_Discard :: "conn \<Rightarrow> pool_world \<Rightarrow> pool_world" where
  "Pool_Discard c w = w\<lparr>w_pool := free_slot (w_pool w), w_closed := w_closed w @ [c]\<rparr>"

definition take_msg :: "chan \<Rightarrow> pool_world \<Rightarrow> pool_world" where
  "take_msg ch w = w\<lparr>w_box := filter (\<lambda>m. fst m \<noteq> ch) (w_box w)\<rparr>"


subsection \<open>Events\<close>

datatype pool_event =
  EvAcquire nat
| EvTurn nat
| EvPing nat bool
| EvNew nat bool
| EvRecv nat
| EvTimeout nat
| EvCtxDone nat
| EvAbandonRecv nat
| EvRelease conn
| EvDiscard conn
| EvClose nat
| EvCloseSend nat
| EvCloseIdle nat
| EvReap
| EvTick nat

definition thread_at :: "nat \<Rightarrow> pool_world \<Rightarrow> thread" where
  "thread_at i w = (if i < length (w_threads w) then w_threads w ! i else TIdle)"

text \<open>A waiter gives up: off the queue at once, or on to the receive if it was taken off before.\<close>

definition give_up :: "nat \<Rightarrow> chan \<Rightarrow> pool_err \<Rightarrow> pool_world \<Rightarrow> pool_world" where
  "give_up i ch e w =
     (case abandonWaiter_locked ch (w_pool w) of
        (True, p) \<Rightarrow> return_err i e (w\<lparr>w_pool := p\<rparr>)
      | (False, p) \<Rightarrow> set_thread i (TAbandon ch e) (w\<lparr>w_pool := p\<rparr>))"

definition pool_deadline :: "PoolConfig \<Rightarrow> int \<Rightarrow> int option" where
  "pool_deadline cfg now = (if 0 < pc_AcquireTimeout cfg then Some (now + pc_AcquireTimeout cfg) else None)"

fun pool_exec :: "PoolConfig \<Rightarrow> pool_event \<Rightarrow> pool_world \<Rightarrow> pool_world option" where
  "pool_exec cfg (EvAcquire i) w =
     (if i < length (w_threads w) \<and> thread_at i w = TIdle
      then Some (set_thread i (TLoop (pool_deadline cfg (w_now w))) w) else None)"
| "pool_exec cfg (EvTurn i) w =
     (case thread_at i w of TLoop dl \<Rightarrow> Some (acquire_turn cfg i dl w) | _ \<Rightarrow> None)"
| "pool_exec cfg (EvPing i ok) w =
     (case thread_at i w of
        TPing c dl \<Rightarrow> if ok then Some (return_conn i c w)
                      else Some (set_thread i (TLoop dl) (Pool_Discard c w))
      | _ \<Rightarrow> None)"
| "pool_exec cfg (EvNew i ok) w =
     (case thread_at i w of
        TNew \<Rightarrow> if ok then Some (return_conn i (w_nconns w) (w\<lparr>w_nconns := w_nconns w + 1\<rparr>))
                else Some (return_err i PErrNew (w\<lparr>w_pool := free_slot (w_pool w)\<rparr>))
      | _ \<Rightarrow> None)"
| "pool_exec cfg (EvRecv i) w =
     (case thread_at i w of
        TWait ch dl \<Rightarrow>
          (case map_of (w_box w) ch of
             None \<Rightarrow> None
           | Some None \<Rightarrow> Some (return_err i PErrClosed (take_msg ch w))
           | Some (Some c) \<Rightarrow> Some (checkReused cfg i c dl (take_msg ch w)))
      | _ \<Rightarrow> None)"
| "pool_exec cfg (EvTimeout i) w =
     (case thread_at i w of
        TWait ch (Some d) \<Rightarrow> if d \<le> w_now w then Some (give_up i ch PErrTimeout w) else None
      | _ \<Rightarrow> None)"
| "pool_exec cfg (EvCtxDone i) w =
     (case thread_at i w of TWait ch dl \<Rightarrow> Some (give_up i ch PErrCtx w) | _ \<Rightarrow> None)"
| "pool_exec cfg (EvAbandonRecv i) w =
     (case thread_at i w of
        TAbandon ch e \<Rightarrow>
          (case map_of (w_box w) ch of
             None \<Rightarrow> None
           | Some None \<Rightarrow> Some (return_err i e (take_msg ch w))
           | Some (Some c) \<Rightarrow> map_option (return_err i e) (Pool_Release c (take_msg ch w)))
      | _ \<Rightarrow> None)"
| "pool_exec cfg (EvRelease c) w =
     (if c \<in> set (w_out w) then Pool_Release c (w\<lparr>w_out := remove1 c (w_out w)\<rparr>) else None)"
| "pool_exec cfg (EvDiscard c) w =
     (if c \<in> set (w_out w) then Some (Pool_Discard c (w\<lparr>w_out := remove1 c (w_out w)\<rparr>)) else None)"
| "pool_exec cfg (EvClose i) w =
     (if i < length (w_threads w) \<and> thread_at i w = TIdle
      then (case Close_locked (w_pool w) of
              (None, p) \<Rightarrow> Some (w\<lparr>w_pool := p\<rparr>)
            | (Some (ws, cs), p) \<Rightarrow> Some (set_thread i (TClose ws cs) (w\<lparr>w_pool := p\<rparr>)))
      else None)"
| "pool_exec cfg (EvCloseSend i) w =
     (case thread_at i w of
        TClose (ch # ws) cs \<Rightarrow>
          if ch \<in> fst ` set (w_box w) then None
          else Some (set_thread i (TClose ws cs) (w\<lparr>w_box := w_box w @ [(ch, None)]\<rparr>))
      | _ \<Rightarrow> None)"
| "pool_exec cfg (EvCloseIdle i) w =
     (case thread_at i w of
        TClose [] cs \<Rightarrow> Some (set_thread i TIdle (w\<lparr>w_closed := w_closed w @ cs\<rparr>))
      | _ \<Rightarrow> None)"
| "pool_exec cfg EvReap w =
     (if 0 < pc_IdleTimeout cfg
      then (case reapOnce cfg (w_now w) (w_pool w) of
              (cs, p) \<Rightarrow> Some (w\<lparr>w_pool := p, w_closed := w_closed w @ cs\<rparr>))
      else None)"
| "pool_exec cfg (EvTick d) w = Some (w\<lparr>w_now := w_now w + int d\<rparr>)"

definition pool_init :: "nat \<Rightarrow> Pool \<Rightarrow> pool_world" where
  "pool_init n p =
     \<lparr>w_pool = p, w_threads = replicate n TIdle, w_box = [], w_out = [], w_closed = [],
      w_nconns = 0, w_nchans = 0, w_now = 0, w_rets = []\<rparr>"

definition pool_reachable :: "PoolConfig \<Rightarrow> nat \<Rightarrow> pool_world \<Rightarrow> bool" where
  "pool_reachable cfg n w \<longleftrightarrow> (\<exists>p. pool_New cfg = Inr p \<and> reach (pool_exec cfg) (pool_init n p) w)"


subsection \<open>The invariant\<close>

text \<open>
  What a thread holds: connections, slots reserved for a connection being opened, the channel it
  receives from, the channels it has still to wake.
\<close>

fun thread_conns :: "thread \<Rightarrow> conn multiset" where
  "thread_conns (TPing c _) = {#c#}"
| "thread_conns (TClose _ cs) = mset cs"
| "thread_conns _ = {#}"

fun thread_news :: "thread \<Rightarrow> nat" where
  "thread_news TNew = 1"
| "thread_news _ = 0"

fun thread_chans :: "thread \<Rightarrow> chan multiset" where
  "thread_chans (TWait ch _) = {#ch#}"
| "thread_chans (TAbandon ch _) = {#ch#}"
| "thread_chans _ = {#}"

fun closer_chans :: "thread \<Rightarrow> chan multiset" where
  "closer_chans (TClose ws _) = mset ws"
| "closer_chans _ = {#}"

fun abandoned :: "thread \<Rightarrow> chan set" where
  "abandoned (TAbandon ch _) = {ch}"
| "abandoned _ = {}"

fun is_closer :: "thread \<Rightarrow> bool" where
  "is_closer (TClose _ _) = True"
| "is_closer _ = False"

fun box_conns :: "(chan \<times> conn option) list \<Rightarrow> conn multiset" where
  "box_conns [] = {#}"
| "box_conns ((ch, m) # box) = (case m of None \<Rightarrow> {#} | Some c \<Rightarrow> {#c#}) + box_conns box"

text \<open>The numbers given out so far, each once.\<close>

definition issued :: "nat \<Rightarrow> nat multiset" where
  "issued n = mset [0..<n]"

lemma issued_Suc [simp]: "issued (Suc n) = add_mset n (issued n)"
  by (simp add: issued_def)

lemma issued_0 [simp]: "issued 0 = {#}"
  by (simp add: issued_def)

lemma count_issued: "count (issued n) a \<le> 1"
  by (induction n) (auto simp: issued_def)

text \<open>
  \<open>pinv cfg p Cs N Ws Ks ab box cl nc nch\<close>: the threads and callers hold the connections \<open>Cs\<close> and
  \<open>N\<close> reserved slots, they wait on the channels \<open>Ws\<close>, of which the closers still wake \<open>Ks\<close> and \<open>ab\<close> are
  given up; \<open>cl\<close> is closed, \<open>nc\<close> connections and \<open>nch\<close> channels have been made.
\<close>

definition pinv ::
  "PoolConfig \<Rightarrow> Pool \<Rightarrow> conn multiset \<Rightarrow> nat \<Rightarrow> chan multiset \<Rightarrow> chan multiset \<Rightarrow> chan set
   \<Rightarrow> (chan \<times> conn option) list \<Rightarrow> conn list \<Rightarrow> nat \<Rightarrow> nat \<Rightarrow> bool"
where
  "pinv cfg p Cs N Ws Ks ab box cl nc nch \<longleftrightarrow>
     mset (map ic_conn (p_idle p)) + Cs + box_conns box + mset cl = issued nc \<and>
     int (length (p_idle p)) + int (size Cs) + int (size (box_conns box)) + int N \<le> p_open p \<and>
     (\<not> p_closed p \<longrightarrow>
        int (length (p_idle p)) + int (size Cs) + int (size (box_conns box)) + int N = p_open p) \<and>
     p_open p \<le> pc_MaxSize cfg \<and>
     Ws = mset (p_waiters p) + mset (map fst box) + Ks \<and>
     Ws \<subseteq># issued nch \<and>
     ab \<inter> set (p_waiters p) = {} \<and>
     (p_waiters p \<noteq> [] \<longrightarrow> p_idle p = []) \<and>
     (p_closed p \<longrightarrow> p_waiters p = [] \<and> p_idle p = [])"

definition winv :: "PoolConfig \<Rightarrow> pool_world \<Rightarrow> bool" where
  "winv cfg w \<longleftrightarrow>
     pinv cfg (w_pool w) (mset (w_out w) + tally thread_conns (w_threads w))
       (tally thread_news (w_threads w)) (tally thread_chans (w_threads w))
       (tally closer_chans (w_threads w)) (\<Union> (abandoned ` set (w_threads w)))
       (w_box w) (w_closed w) (w_nconns w) (w_nchans w) \<and>
     (\<forall>t \<in> set (w_threads w). is_closer t \<longrightarrow> p_closed (w_pool w))"

lemma subset_issued_distinct:
  assumes "mset xs \<subseteq># issued n"
  shows "distinct xs"
proof (rule distinct_count_atmost_1 [THEN iffD2], intro allI)
  fix a
  from assms have "count (mset xs) a \<le> count (issued n) a" by (rule mset_subset_eq_count)
  then have "count (mset xs) a \<le> 1" using count_issued [of n a] by linarith
  then show "count (mset xs) a = (if a \<in> set xs then 1 else 0)"
    using count_eq_zero_iff [of "mset xs" a] by (cases "count (mset xs) a") (auto simp del: count_eq_zero_iff count_mset_0_iff)
qed

lemma add_mset_subset: "add_mset x A \<subseteq># B \<Longrightarrow> A \<subseteq># B"
  by (rule subset_mset.order_trans [of A "add_mset x A"]) simp_all

lemma filter_out_notin: "ch \<notin> fst ` set box \<Longrightarrow> filter (\<lambda>m. fst m \<noteq> ch) box = box"
  by (induction box) auto

lemma box_take:
  "distinct (map fst box) \<Longrightarrow> map_of box ch = Some m \<Longrightarrow>
   mset (map fst box) = add_mset ch (mset (map fst (filter (\<lambda>m. fst m \<noteq> ch) box))) \<and>
   box_conns box = (case m of None \<Rightarrow> {#} | Some c \<Rightarrow> {#c#}) + box_conns (filter (\<lambda>m. fst m \<noteq> ch) box)"
  by (induction box) (auto simp: filter_out_notin simp flip: mset_filter split: if_splits)

lemma box_conns_append [simp]: "box_conns (xs @ ys) = box_conns xs + box_conns ys"
  by (induction xs rule: box_conns.induct) (auto simp: ac_simps)

lemma pinv_distinct:
  assumes "pinv cfg p Cs N Ws Ks ab box cl nc nch"
  shows "distinct (map fst box)" and "ch \<in># Ks \<Longrightarrow> ch \<notin> fst ` set box"
    and "ch \<in> set (p_waiters p) \<Longrightarrow> ch \<notin> fst ` set box" and "distinct (p_waiters p)"
proof -
  obtain ks where ks: "Ks = mset ks" by (metis ex_mset)
  from assms have "mset (p_waiters p) + mset (map fst box) + Ks \<subseteq># issued nch"
    unfolding pinv_def by blast
  then have "mset (p_waiters p @ map fst box @ ks) \<subseteq># issued nch"
    by (simp add: ks add.assoc)
  then have d: "distinct (p_waiters p @ map fst box @ ks)" by (rule subset_issued_distinct)
  then show "distinct (map fst box)" "distinct (p_waiters p)" by auto
  show "ch \<notin> fst ` set box" if "ch \<in># Ks" using d that ks by auto
  show "ch \<notin> fst ` set box" if "ch \<in> set (p_waiters p)" using d that by auto
qed



subsection \<open>What the critical sections keep\<close>

lemma pinv_idle_snoc:
  "pinv cfg p Cs N Ws Ks ab box cl nc nch \<Longrightarrow> p_idle p \<noteq> [] \<Longrightarrow>
   pinv cfg (p\<lparr>p_idle := butlast (p_idle p)\<rparr>) (add_mset (ic_conn (last (p_idle p))) Cs) N Ws Ks ab box cl nc nch"
  by (cases "p_idle p" rule: rev_cases) (auto simp: pinv_def)

lemma pinv_free_conn:
  "pinv cfg p (add_mset c Cs) N Ws Ks ab box cl nc nch \<Longrightarrow>
   pinv cfg (free_slot p) Cs N Ws Ks ab box (cl @ [c]) nc nch"
  by (auto simp: pinv_def free_slot_def)

lemma pinv_free_new:
  "pinv cfg p Cs (Suc N) Ws Ks ab box cl nc nch \<Longrightarrow> pinv cfg (free_slot p) Cs N Ws Ks ab box cl nc nch"
  by (auto simp: pinv_def free_slot_def)

lemma pinv_new_conn:
  "pinv cfg p Cs (Suc N) Ws Ks ab box cl nc nch \<Longrightarrow> pinv cfg p (add_mset nc Cs) N Ws Ks ab box cl (Suc nc) nch"
  by (auto simp: pinv_def)

lemma pinv_take:
  assumes "pinv cfg p Cs N (add_mset ch Ws) Ks ab box cl nc nch" "map_of box ch = Some m"
  shows "pinv cfg p ((case m of None \<Rightarrow> {#} | Some c \<Rightarrow> {#c#}) + Cs) N Ws Ks ab
           (filter (\<lambda>m. fst m \<noteq> ch) box) cl nc nch"
proof -
  note b = box_take [OF pinv_distinct(1) [OF assms(1)] assms(2)]
  with assms(1) show ?thesis
    by (auto simp: pinv_def ac_simps simp del: mset_map split: option.splits intro: add_mset_subset [of ch])
qed

lemma pinv_mono_abandoned:
  "pinv cfg p Cs N Ws Ks ab box cl nc nch \<Longrightarrow> ab' \<subseteq> ab \<Longrightarrow> pinv cfg p Cs N Ws Ks ab' box cl nc nch"
  by (auto simp: pinv_def)

lemma pinv_dequeue:
  assumes "pinv cfg p Cs N (add_mset ch Ws) Ks ab box cl nc nch" "ch \<in> set (p_waiters p)"
  shows "pinv cfg (p\<lparr>p_waiters := remove1 ch (p_waiters p)\<rparr>) Cs N Ws Ks ab box cl nc nch"
proof -
  obtain us vs where "p_waiters p = us @ ch # vs" "ch \<notin> set us"
    using split_list_first [OF assms(2)] by blast
  then show ?thesis
    using assms(1) by (auto simp: pinv_def remove1_append intro: add_mset_subset [of ch])
qed

lemma pinv_send:
  assumes "pinv cfg p Cs N Ws (add_mset ch Ks) ab box cl nc nch"
  shows "pinv cfg p Cs N Ws Ks ab (box @ [(ch, None)]) cl nc nch"
  using assms by (auto simp: pinv_def)

lemma pinv_close:
  assumes "pinv cfg p Cs N Ws Ks ab box cl nc nch" "Close_locked p = (Some (ws, cs), p')"
  shows "pinv cfg p' (mset cs + Cs) N Ws (mset ws + Ks) ab box cl nc nch"
  using assms by (auto simp: pinv_def Close_locked_def ac_simps split: if_splits)

lemma pinv_closed_conns:
  "pinv cfg p (mset cs + Cs) N Ws Ks ab box cl nc nch \<Longrightarrow> p_closed p \<Longrightarrow> pinv cfg p Cs N Ws Ks ab box (cl @ cs) nc nch"
  by (auto simp: pinv_def ac_simps)


lemma pinv_release:
  assumes "pinv cfg p (add_mset c Cs) N Ws Ks ab box cl nc nch" "Release_locked now c p = (r, p')"
  shows "case r of
           RelClose c' \<Rightarrow> pinv cfg p' Cs N Ws Ks ab box (cl @ [c']) nc nch
         | RelSend ch c' \<Rightarrow> c' = c \<and> ch \<notin> fst ` set box \<and> pinv cfg p' Cs N Ws Ks ab (box @ [(ch, Some c')]) cl nc nch
         | RelKept \<Rightarrow> pinv cfg p' Cs N Ws Ks ab box cl nc nch"
proof (cases "p_closed p")
  case True
  with assms pinv_free_conn [OF assms(1)] show ?thesis
    by (auto simp: Release_locked_def free_slot_def)
next
  case False
  show ?thesis
  proof (cases "p_waiters p")
    case Nil
    with False assms show ?thesis by (auto simp: Release_locked_def pinv_def)
  next
    case (Cons ch ws)
    with pinv_distinct(3) [OF assms(1), of ch] have "ch \<notin> fst ` set box" by simp
    with False Cons assms show ?thesis by (auto simp: Release_locked_def pinv_def)
  qed
qed

lemma Release_locked_closed: "p_closed (snd (Release_locked now c p)) = p_closed p"
  by (simp add: Release_locked_def split: list.splits)

lemma pinv_acquire:
  assumes "pinv cfg p Cs N Ws Ks ab box cl nc nch" "Acquire_locked cfg now nch p = (r, p')"
    and "ab \<subseteq> set_mset Ws"
  shows "case r of
           AcqErr e \<Rightarrow> p' = p
         | AcqExpired c \<Rightarrow> pinv cfg p' Cs N Ws Ks ab box (cl @ [c]) nc nch
         | AcqReuse c \<Rightarrow> pinv cfg p' (add_mset c Cs) N Ws Ks ab box cl nc nch
         | AcqOpen \<Rightarrow> pinv cfg p' Cs (Suc N) Ws Ks ab box cl nc nch
         | AcqWait ch \<Rightarrow> ch = nch \<and> pinv cfg p' Cs N (add_mset ch Ws) Ks ab box cl nc (Suc nch)"
proof (cases "p_closed p \<or> p_idle p = []")
  case True
  have "nch \<notin># issued nch" by (simp add: issued_def)
  moreover have "Ws \<subseteq># issued nch" using assms(1) unfolding pinv_def by blast
  ultimately have "nch \<notin># Ws" by (meson mset_subset_eqD)
  then have "nch \<notin> ab" using assms(3) by auto
  with True assms(1,2) show ?thesis
    by (auto simp: Acquire_locked_def pinv_def add.assoc split: if_splits)
next
  case False
  with pinv_idle_snoc [OF assms(1)] pinv_free_conn [OF pinv_idle_snoc [OF assms(1)]] assms(2)
  show ?thesis
    by (auto simp: Acquire_locked_def Let_def free_slot_def split: if_splits)
qed

lemma Acquire_locked_closed: "p_closed (snd (Acquire_locked cfg now w p)) = p_closed p"
  by (simp add: Acquire_locked_def Let_def)

lemma reap_scan_keeps:
  "reap_scan timeout now kept toClose n ics = (kept', toClose', n') \<Longrightarrow>
   mset (map ic_conn kept') + mset toClose' = mset (map ic_conn kept) + mset toClose + mset (map ic_conn ics) \<and>
   int (length kept') - n' = int (length kept) + int (length ics) - n \<and> n' \<le> n \<and> (ics = [] \<longrightarrow> kept' = kept)"
  by (induction timeout now kept toClose n ics rule: reap_scan.induct) (auto split: if_splits)

lemma pinv_reap:
  assumes "pinv cfg p Cs N Ws Ks ab box cl nc nch" "reapOnce cfg now p = (cs, p')"
  shows "pinv cfg p' Cs N Ws Ks ab box (cl @ cs) nc nch"
proof -
  obtain kept n where r: "reap_scan (pc_IdleTimeout cfg) now [] [] (p_open p) (p_idle p) = (kept, cs, n)"
    and p': "p' = p\<lparr>p_idle := kept, p_open := n\<rparr>"
    using assms(2) by (auto simp: reapOnce_def split: prod.splits)
  from reap_scan_keeps [OF r] have
    k: "mset (map ic_conn (p_idle p)) = mset (map ic_conn kept) + mset cs"
      "int (length kept) - n = int (length (p_idle p)) - p_open p" "n \<le> p_open p"
      "p_idle p = [] \<longrightarrow> kept = []"
    by auto
  have "mset (map ic_conn kept) + Cs + box_conns box + mset (cl @ cs) =
        mset (map ic_conn (p_idle p)) + Cs + box_conns box + mset cl"
    unfolding k(1) by (simp add: ac_simps)
  with assms(1) k(2-4) show ?thesis
    unfolding pinv_def p' by (auto simp del: mset_map)
qed



subsection \<open>Every event keeps the invariant\<close>

lemma abandoned_chans: "abandoned t \<subseteq> set_mset (thread_chans t)"
  by (cases t) auto

lemma abandoned_total: "\<Union> (abandoned ` set ts) \<subseteq> set_mset (tally thread_chans ts)"
  using abandoned_chans by (induction ts) (simp, fastforce)

text \<open>The invariant seen from one thread: what it holds, and the rest.\<close>

definition tinv :: "PoolConfig \<Rightarrow> nat \<Rightarrow> thread \<Rightarrow> pool_world \<Rightarrow> bool" where
  "tinv cfg i t w \<longleftrightarrow> i < length (w_threads w) \<and>
     pinv cfg (w_pool w) (mset (w_out w) + (thread_conns t + tally thread_conns (others i (w_threads w))))
       (thread_news t + tally thread_news (others i (w_threads w)))
       (thread_chans t + tally thread_chans (others i (w_threads w)))
       (closer_chans t + tally closer_chans (others i (w_threads w)))
       (abandoned t \<union> \<Union> (abandoned ` set (others i (w_threads w))))
       (w_box w) (w_closed w) (w_nconns w) (w_nchans w) \<and>
     (is_closer t \<longrightarrow> p_closed (w_pool w)) \<and>
     (\<forall>t \<in> set (others i (w_threads w)). is_closer t \<longrightarrow> p_closed (w_pool w))"

lemma winv_set_thread: "i < length (w_threads w) \<Longrightarrow> winv cfg (set_thread i t w) \<longleftrightarrow> tinv cfg i t w"
  by (simp add: winv_def tinv_def set_thread_def tally_update set_update)

lemma winv_tinv: "i < length (w_threads w) \<Longrightarrow> winv cfg w \<longleftrightarrow> tinv cfg i (w_threads w ! i) w"
  by (simp add: winv_def tinv_def tally_split [of i] set_split [of i "w_threads w"])

lemma tinv_thread_at: "winv cfg w \<Longrightarrow> thread_at i w \<noteq> TIdle \<Longrightarrow> tinv cfg i (thread_at i w) w"
  using winv_tinv by (auto simp: thread_at_def split: if_splits)

lemma tinv_length: "tinv cfg i t w \<Longrightarrow> i < length (w_threads w)"
  by (simp add: tinv_def)

lemma winv_return_err: "tinv cfg i TIdle w \<Longrightarrow> winv cfg (return_err i e w)"
  using winv_set_thread [of i "w\<lparr>w_rets := w_rets w @ [(i, Inl e)]\<rparr>" cfg TIdle]
  by (simp add: return_err_def) (simp add: tinv_def)

lemma winv_return_conn: "tinv cfg i (TPing c dl) w \<Longrightarrow> winv cfg (return_conn i c w)"
  using winv_set_thread [of i "w\<lparr>w_rets := w_rets w @ [(i, Inr c)], w_out := c # w_out w\<rparr>" cfg TIdle]
  by (simp add: return_conn_def) (simp add: tinv_def)

lemma winv_checkReused: "tinv cfg i (TPing c dl) w \<Longrightarrow> winv cfg (checkReused cfg i c dl w)"
  by (simp add: checkReused_def winv_return_conn winv_set_thread tinv_length)

lemma tinv_take_msg:
  assumes "tinv cfg i t w" "thread_chans t = {#ch#}" "map_of (w_box w) ch = Some m"
    and "thread_conns t = {#}" "thread_news t = 0" "closer_chans t = {#}"
  shows "tinv cfg i (case m of None \<Rightarrow> TIdle | Some c \<Rightarrow> TPing c dl) (take_msg ch w)"
proof -
  let ?os = "others i (w_threads w)"
  from assms have "pinv cfg (w_pool w) (mset (w_out w) + tally thread_conns ?os) (tally thread_news ?os)
      (add_mset ch (tally thread_chans ?os)) (tally closer_chans ?os)
      (abandoned t \<union> \<Union> (abandoned ` set ?os)) (w_box w) (w_closed w) (w_nconns w) (w_nchans w)"
    by (simp add: tinv_def)
  from pinv_mono_abandoned [OF pinv_take [OF this assms(3)], of "\<Union> (abandoned ` set ?os)"] assms(1)
  show ?thesis by (cases m) (auto simp: tinv_def take_msg_def)
qed

lemma winv_release:
  assumes "tinv cfg i (TPing c dl) w"
  shows "\<exists>w'. Pool_Release c w = Some w' \<and> tinv cfg i TIdle w' \<and> w_threads w' = w_threads w"
proof -
  let ?os = "others i (w_threads w)"
  obtain r p' where r: "Release_locked (w_now w) c (w_pool w) = (r, p')" by fastforce
  then have cl: "p_closed p' = p_closed (w_pool w)"
    using Release_locked_closed [of "w_now w" c "w_pool w"] by simp
  from assms have "pinv cfg (w_pool w) (add_mset c (mset (w_out w) + tally thread_conns ?os)) (tally thread_news ?os)
      (tally thread_chans ?os) (tally closer_chans ?os)
      (\<Union> (abandoned ` set ?os)) (w_box w) (w_closed w) (w_nconns w) (w_nchans w)"
    by (simp add: tinv_def)
  from pinv_release [OF this r] assms cl r show ?thesis
    by (cases r) (auto simp: Pool_Release_def tinv_def)
qed

lemma tinv_discard:
  assumes "tinv cfg i (TPing c dl) w" "\<not> is_closer t" "thread_conns t = {#}" "thread_news t = 0"
    "thread_chans t = {#}" "closer_chans t = {#}" "abandoned t = {}"
  shows "tinv cfg i t (Pool_Discard c w)"
proof -
  let ?os = "others i (w_threads w)"
  from assms(1) have "pinv cfg (w_pool w) (add_mset c (mset (w_out w) + tally thread_conns ?os)) (tally thread_news ?os)
      (tally thread_chans ?os) (tally closer_chans ?os)
      (\<Union> (abandoned ` set ?os)) (w_box w) (w_closed w) (w_nconns w) (w_nchans w)"
    by (simp add: tinv_def)
  from pinv_free_conn [OF this] assms show ?thesis
    by (auto simp: Pool_Discard_def tinv_def free_slot_def)
qed


lemma winv_acquire_turn:
  assumes "tinv cfg i (TLoop dl) w" "thread_at i w = TLoop dl"
  shows "winv cfg (acquire_turn cfg i dl w)"
proof -
  let ?os = "others i (w_threads w)"
  have i: "i < length (w_threads w)" using assms(1) by (rule tinv_length)
  have th: "w_threads w ! i = TLoop dl" using assms(2) i by (simp add: thread_at_def)
  obtain r p' where r: "Acquire_locked cfg (w_now w) (w_nchans w) (w_pool w) = (r, p')" by fastforce
  then have cl: "p_closed p' = p_closed (w_pool w)"
    using Acquire_locked_closed [of cfg "w_now w" "w_nchans w" "w_pool w"] by simp
  have "pinv cfg (w_pool w) (mset (w_out w) + tally thread_conns ?os) (tally thread_news ?os)
      (tally thread_chans ?os) (tally closer_chans ?os)
      (\<Union> (abandoned ` set ?os)) (w_box w) (w_closed w) (w_nconns w) (w_nchans w)"
    using assms(1) by (simp add: tinv_def)
  note k = pinv_acquire [OF this r abandoned_total]
  show ?thesis
  proof (cases r)
    case (AcqErr e)
    with k r assms(1) show ?thesis by (auto simp: acquire_turn_def tinv_def intro!: winv_return_err)
  next
    case (AcqExpired c)
    with k r cl assms(1) have "tinv cfg i (TLoop dl) (w\<lparr>w_pool := p', w_closed := w_closed w @ [c]\<rparr>)"
      by (auto simp: tinv_def)
    then show ?thesis using AcqExpired r th i winv_tinv [of i "w\<lparr>w_pool := p', w_closed := w_closed w @ [c]\<rparr>" cfg]
      by (simp add: acquire_turn_def)
  next
    case (AcqReuse c)
    with k r cl assms(1) show ?thesis by (auto simp: acquire_turn_def tinv_def intro!: winv_checkReused)
  next
    case AcqOpen
    with k r cl assms(1) i show ?thesis by (auto simp: acquire_turn_def winv_set_thread tinv_def)
  next
    case (AcqWait ch)
    with k r cl assms(1) i show ?thesis by (auto simp: acquire_turn_def winv_set_thread tinv_def)
  qed
qed

lemma winv_give_up:
  assumes "tinv cfg i (TWait ch dl) w"
  shows "winv cfg (give_up i ch e w)"
proof (cases "ch \<in> set (p_waiters (w_pool w))")
  case True
  let ?os = "others i (w_threads w)"
  from assms have "pinv cfg (w_pool w) (mset (w_out w) + tally thread_conns ?os) (tally thread_news ?os)
      (add_mset ch (tally thread_chans ?os)) (tally closer_chans ?os)
      (\<Union> (abandoned ` set ?os)) (w_box w) (w_closed w) (w_nconns w) (w_nchans w)"
    by (simp add: tinv_def)
  from pinv_dequeue [OF this True] assms True show ?thesis
    by (auto simp: give_up_def abandonWaiter_locked_def tinv_def intro!: winv_return_err)
next
  case False
  with assms show ?thesis
    by (auto simp: give_up_def abandonWaiter_locked_def winv_set_thread tinv_length)
       (auto simp: tinv_def pinv_def)
qed

lemma winv_close:
  assumes "winv cfg w" "i < length (w_threads w)" "thread_at i w = TIdle"
    "Close_locked (w_pool w) = (Some (ws, cs), p')"
  shows "winv cfg (set_thread i (TClose ws cs) (w\<lparr>w_pool := p'\<rparr>))"
proof -
  have "p_closed p'" using assms(4) by (auto simp: Close_locked_def split: if_splits)
  moreover have "tinv cfg i TIdle w" using assms(1-3) winv_tinv [of i w cfg] by (simp add: thread_at_def)
  ultimately show ?thesis
    using assms(2) pinv_close [OF _ assms(4)]
    by (auto simp: winv_set_thread tinv_def ac_simps dest: pinv_close [OF _ assms(4)])
qed

lemma winv_out:
  assumes "winv cfg w" "c \<in> set (w_out w)"
  shows "\<exists>w'. Pool_Release c (w\<lparr>w_out := remove1 c (w_out w)\<rparr>) = Some w' \<and> winv cfg w'"
    and "winv cfg (Pool_Discard c (w\<lparr>w_out := remove1 c (w_out w)\<rparr>))"
proof -
  let ?v = "w\<lparr>w_out := remove1 c (w_out w)\<rparr>"
  obtain r p' where r: "Release_locked (w_now w) c (w_pool w) = (r, p')" by fastforce
  then have cl: "p_closed p' = p_closed (w_pool w)"
    using Release_locked_closed [of "w_now w" c "w_pool w"] by simp
  have "add_mset c (mset (remove1 c (w_out w))) = mset (w_out w)" using assms(2) by simp
  then have k: "pinv cfg (w_pool w) (add_mset c (mset (remove1 c (w_out w)) + tally thread_conns (w_threads w)))
      (tally thread_news (w_threads w)) (tally thread_chans (w_threads w)) (tally closer_chans (w_threads w))
      (\<Union> (abandoned ` set (w_threads w))) (w_box w) (w_closed w) (w_nconns w) (w_nchans w)"
    using assms(1) by (simp add: winv_def del: mset_remove1 flip: union_mset_add_mset_left)
  from pinv_release [OF k r] assms(1) cl r
  show "\<exists>w'. Pool_Release c ?v = Some w' \<and> winv cfg w'"
    by (cases r) (auto simp: Pool_Release_def winv_def)
  from pinv_free_conn [OF k] assms(1) show "winv cfg (Pool_Discard c ?v)"
    by (auto simp: Pool_Discard_def winv_def free_slot_def)
qed


lemma winv_same_parts:
  "winv cfg w \<Longrightarrow> w_pool w' = w_pool w \<Longrightarrow> w_threads w' = w_threads w \<Longrightarrow> w_box w' = w_box w \<Longrightarrow>
   w_out w' = w_out w \<Longrightarrow> w_closed w' = w_closed w \<Longrightarrow> w_nconns w' = w_nconns w \<Longrightarrow>
   w_nchans w' = w_nchans w \<Longrightarrow> winv cfg w'"
  by (simp add: winv_def)

lemma winv_recv:
  assumes "winv cfg w" "thread_at i w = TWait ch dl" "pool_exec cfg (EvRecv i) w = Some w'"
  shows "winv cfg w'"
proof -
  obtain m where m: "map_of (w_box w) ch = Some m" using assms(2,3) by (auto split: option.splits)
  from tinv_take_msg [OF tinv_thread_at [OF assms(1)], of i ch m dl] assms(2) m
  have "tinv cfg i (case m of None \<Rightarrow> TIdle | Some c \<Rightarrow> TPing c dl) (take_msg ch w)" by simp
  with assms(2,3) m show ?thesis
    by (auto split: option.splits intro: winv_return_err winv_checkReused)
qed

lemma winv_abandon_recv:
  assumes "winv cfg w" "thread_at i w = TAbandon ch e" "pool_exec cfg (EvAbandonRecv i) w = Some w'"
  shows "winv cfg w'"
proof -
  obtain m where m: "map_of (w_box w) ch = Some m" using assms(2,3) by (auto split: option.splits)
  from tinv_take_msg [OF tinv_thread_at [OF assms(1)], of i ch m] assms(2) m
  have k: "tinv cfg i (case m of None \<Rightarrow> TIdle | Some c \<Rightarrow> TPing c None) (take_msg ch w)" by simp
  show ?thesis
  proof (cases m)
    case None
    with k assms(2,3) m show ?thesis by (auto intro: winv_return_err)
  next
    case (Some c)
    with winv_release [of cfg i c None "take_msg ch w"] k assms(2,3) m show ?thesis
      by (auto intro: winv_return_err)
  qed
qed

lemma winv_new:
  assumes "winv cfg w" "thread_at i w = TNew" "pool_exec cfg (EvNew i ok) w = Some w'"
  shows "winv cfg w'"
proof -
  have k: "tinv cfg i TNew w" using tinv_thread_at [OF assms(1), of i] assms(2) by simp
  let ?os = "others i (w_threads w)"
  have n: "pinv cfg (w_pool w) (mset (w_out w) + tally thread_conns ?os) (Suc (tally thread_news ?os))
      (tally thread_chans ?os) (tally closer_chans ?os)
      (\<Union> (abandoned ` set ?os)) (w_box w) (w_closed w) (w_nconns w) (w_nchans w)"
    using k by (simp add: tinv_def)
  show ?thesis
  proof (cases ok)
    case True
    have "tinv cfg i (TPing (w_nconns w) None) (w\<lparr>w_nconns := w_nconns w + 1\<rparr>)"
      using k pinv_new_conn [OF n] by (simp add: tinv_def)
    with True assms(2,3) show ?thesis by (auto intro: winv_return_conn)
  next
    case False
    have "tinv cfg i TIdle (w\<lparr>w_pool := free_slot (w_pool w)\<rparr>)"
      using k pinv_free_new [OF n] by (simp add: tinv_def free_slot_def)
    with False assms(2,3) show ?thesis by (auto intro: winv_return_err)
  qed
qed

lemma winv_close_send:
  assumes "winv cfg w" "thread_at i w = TClose (ch # ws) cs"
  shows "\<exists>w'. pool_exec cfg (EvCloseSend i) w = Some w' \<and> winv cfg w'"
proof -
  have k: "tinv cfg i (TClose (ch # ws) cs) w" using tinv_thread_at [OF assms(1), of i] assms(2) by simp
  let ?os = "others i (w_threads w)"
  have n: "pinv cfg (w_pool w) (mset (w_out w) + (mset cs + tally thread_conns ?os)) (tally thread_news ?os)
      (tally thread_chans ?os) (add_mset ch (mset ws + tally closer_chans ?os))
      (\<Union> (abandoned ` set ?os)) (w_box w) (w_closed w) (w_nconns w) (w_nchans w)"
    using k by (simp add: tinv_def)
  have "ch \<notin> fst ` set (w_box w)" by (rule pinv_distinct(2) [OF n]) simp
  moreover have "winv cfg (set_thread i (TClose ws cs) (w\<lparr>w_box := w_box w @ [(ch, None)]\<rparr>))"
    using pinv_send [OF n] k by (simp add: winv_set_thread tinv_length) (simp add: tinv_def)
  ultimately show ?thesis using assms(2) by simp
qed

lemma winv_close_idle:
  assumes "winv cfg w" "thread_at i w = TClose [] cs"
  shows "winv cfg (set_thread i TIdle (w\<lparr>w_closed := w_closed w @ cs\<rparr>))"
proof -
  have k: "tinv cfg i (TClose [] cs) w" using tinv_thread_at [OF assms(1), of i] assms(2) by simp
  let ?os = "others i (w_threads w)"
  have "pinv cfg (w_pool w) (mset cs + (mset (w_out w) + tally thread_conns ?os)) (tally thread_news ?os)
      (tally thread_chans ?os) (tally closer_chans ?os)
      (\<Union> (abandoned ` set ?os)) (w_box w) (w_closed w) (w_nconns w) (w_nchans w)"
    using k by (simp add: tinv_def ac_simps)
  from pinv_closed_conns [OF this] k show ?thesis
    by (simp add: winv_set_thread tinv_length) (simp add: tinv_def)
qed

lemma winv_acquire:
  assumes "winv cfg w" "i < length (w_threads w)" "thread_at i w = TIdle"
  shows "winv cfg (set_thread i (TLoop dl) w)"
proof -
  have "tinv cfg i TIdle w" using assms winv_tinv [of i w cfg] by (simp add: thread_at_def)
  then show ?thesis using assms(2) by (simp add: winv_set_thread) (simp add: tinv_def)
qed

lemma winv_reap:
  assumes "winv cfg w" "reapOnce cfg (w_now w) (w_pool w) = (cs, p)"
  shows "winv cfg (w\<lparr>w_pool := p, w_closed := w_closed w @ cs\<rparr>)"
proof -
  have "p_closed p = p_closed (w_pool w)" using assms(2) by (auto simp: reapOnce_def split: prod.splits)
  with assms(1) pinv_reap [OF _ assms(2)] show ?thesis by (auto simp: winv_def)
qed

lemma winv_ping_failed:
  assumes "tinv cfg i (TPing c dl) w"
  shows "winv cfg (set_thread i (TLoop dl) (Pool_Discard c w))"
proof -
  have "i < length (w_threads (Pool_Discard c w))"
    using tinv_length [OF assms] by (simp add: Pool_Discard_def)
  moreover have "tinv cfg i (TLoop dl) (Pool_Discard c w)" by (rule tinv_discard [OF assms]) simp_all
  ultimately show ?thesis by (simp add: winv_set_thread)
qed

lemma winv_step: "winv cfg w \<Longrightarrow> pool_exec cfg e w = Some w' \<Longrightarrow> winv cfg w'"
proof (induction e)
  case (EvAcquire i)
  then show ?case by (auto simp: winv_acquire split: if_splits)
next
  case (EvTurn i)
  then show ?case using tinv_thread_at [of cfg w i]
    by (auto split: thread.splits intro: winv_acquire_turn)
next
  case (EvPing i ok)
  then show ?case using tinv_thread_at [of cfg w i]
    by (auto split: thread.splits if_splits intro: winv_return_conn winv_ping_failed)
next
  case (EvNew i ok)
  then show ?case using winv_new [of cfg w i ok w'] by (auto split: thread.splits)
next
  case (EvRecv i)
  then obtain ch dl where "thread_at i w = TWait ch dl" by (auto split: thread.splits)
  from winv_recv [OF EvRecv(1) this EvRecv(2)] show ?case .
next
  case (EvTimeout i)
  then show ?case using tinv_thread_at [of cfg w i]
    by (auto split: thread.splits if_splits option.splits intro: winv_give_up)
next
  case (EvCtxDone i)
  then show ?case using tinv_thread_at [of cfg w i]
    by (auto split: thread.splits intro: winv_give_up)
next
  case (EvAbandonRecv i)
  then obtain ch e where "thread_at i w = TAbandon ch e" by (auto split: thread.splits)
  from winv_abandon_recv [OF EvAbandonRecv(1) this EvAbandonRecv(2)] show ?case .
next
  case (EvRelease c)
  then show ?case using winv_out(1) [of cfg w c] by (auto split: if_splits)
next
  case (EvDiscard c)
  then show ?case using winv_out(2) [of cfg w c] by (auto split: if_splits)
next
  case (EvClose i)
  then show ?case using winv_close [of cfg w i]
    by (auto split: if_splits option.splits prod.splits) (auto simp: Close_locked_def split: if_splits)
next
  case (EvCloseSend i)
  then obtain ch ws cs where "thread_at i w = TClose (ch # ws) cs" by (auto split: thread.splits list.splits)
  from winv_close_send [OF EvCloseSend(1) this] EvCloseSend(2) show ?case by (metis option.inject)
next
  case (EvCloseIdle i)
  then show ?case using winv_close_idle [of cfg w i] by (auto split: thread.splits list.splits)
next
  case EvReap
  then show ?case using winv_reap [of cfg w] by (auto split: if_splits prod.splits)
next
  case (EvTick d)
  then show ?case by (auto intro: winv_same_parts)
qed


lemma winv_init: "0 < pc_MaxSize cfg \<Longrightarrow> winv cfg (pool_init n fresh_pool)"
  by (auto simp: winv_def pool_init_def tally_replicate_0 pinv_def)

interpretation ps: step_invariant "pool_exec cfg" "pool_init n fresh_pool" "\<lambda>w. 0 < pc_MaxSize cfg \<longrightarrow> winv cfg w"
  for cfg n
  by unfold_locales (auto intro: winv_init winv_step)

lemma pool_reachable_inv: "pool_reachable cfg n w \<Longrightarrow> winv cfg w"
  using ps.invar_reach [of cfg n w] by (auto simp: pool_reachable_def pool_New_def split: if_splits)

lemma pool_reachable_run:
  assumes "pool_New cfg = Inr p" "run_steps (pool_exec cfg) es (pool_init n p) = Some w"
  shows "pool_reachable cfg n w"
  using assms(1) reach_run [OF reach_init assms(2)] by (auto simp: pool_reachable_def)

lemma pool_reachable_step:
  "pool_reachable cfg n w \<Longrightarrow> pool_exec cfg e w = Some w' \<Longrightarrow> pool_reachable cfg n w'"
  unfolding pool_reachable_def by (metis reach_step)

lemma tally_member: "x \<in># tally f ts \<Longrightarrow> \<exists>t \<in> set ts. x \<in># f t"
  by (induction ts) auto

lemma tally_same: "set ts \<subseteq> {t} \<Longrightarrow> f t = 0 \<Longrightarrow> tally f ts = 0"
  by (induction ts) auto

lemma thread_at_mem: "thread_at i w \<noteq> TIdle \<Longrightarrow> thread_at i w \<in> set (w_threads w)"
  by (auto simp: thread_at_def split: if_splits)

lemma abandon_progress:
  assumes inv: "winv cfg w" and "thread_at i w = TAbandon ch e"
  shows "map_of (w_box w) ch \<noteq> None \<or> (\<exists>j ws cs. thread_at j w = TClose ws cs \<and> ch \<in> set ws)"
proof -
  have mem: "TAbandon ch e \<in> set (w_threads w)" using thread_at_mem [of i w] assms(2) by simp
  have "ch \<in> abandoned (TAbandon ch e)" by simp
  with mem have ab: "ch \<in> \<Union> (abandoned ` set (w_threads w))" by blast
  have "\<Union> (abandoned ` set (w_threads w)) \<inter> set (p_waiters (w_pool w)) = {}"
    using inv unfolding winv_def pinv_def by blast
  with ab have "ch \<in># tally thread_chans (w_threads w)" "ch \<notin> set (p_waiters (w_pool w))"
    using abandoned_total [of "w_threads w"] by blast+
  moreover have "tally thread_chans (w_threads w) =
      mset (p_waiters (w_pool w)) + mset (map fst (w_box w)) + tally closer_chans (w_threads w)"
    using inv unfolding winv_def pinv_def by blast
  ultimately consider "ch \<in> fst ` set (w_box w)" | "ch \<in># tally closer_chans (w_threads w)" by auto
  then show ?thesis
  proof cases
    case 1
    then show ?thesis by (simp add: map_of_eq_None_iff)
  next
    case 2
    from tally_member [OF this] obtain j where "j < length (w_threads w)" "ch \<in># closer_chans (w_threads w ! j)"
      by (auto simp: in_set_conv_nth)
    then show ?thesis
      by (intro disjI2 exI [of _ j]) (cases "w_threads w ! j", auto simp: thread_at_def)
  qed
qed


lemma pool_counter:
  assumes inv: "winv cfg w"
  shows "int (w_nconns w) - int (length (w_closed w)) + int (tally thread_news (w_threads w)) \<le> p_open (w_pool w) \<and>
         p_open (w_pool w) \<le> pc_MaxSize cfg \<and>
         (\<not> p_closed (w_pool w) \<longrightarrow>
            p_open (w_pool w) =
              int (w_nconns w) - int (length (w_closed w)) + int (tally thread_news (w_threads w)))"
proof -
  let ?C = "mset (w_out w) + tally thread_conns (w_threads w)"
  have "mset (map ic_conn (p_idle (w_pool w))) + ?C + box_conns (w_box w) + mset (w_closed w) = issued (w_nconns w)"
    using inv unfolding winv_def pinv_def by blast
  from arg_cong [OF this, of size]
  have "length (p_idle (w_pool w)) + size ?C + size (box_conns (w_box w)) + length (w_closed w) = w_nconns w"
    by (simp add: issued_def)
  then have "int (w_nconns w) - int (length (w_closed w)) =
      int (length (p_idle (w_pool w))) + int (size ?C) + int (size (box_conns (w_box w)))"
    by linarith
  with inv show ?thesis by (auto simp: winv_def pinv_def)
qed

lemma pool_open_bound:
  "pool_reachable cfg n w \<Longrightarrow>
   int (w_nconns w) - int (length (w_closed w)) + int (tally thread_news (w_threads w)) \<le> pc_MaxSize cfg"
  using pool_counter [OF pool_reachable_inv] by fastforce

subsection \<open>The queue\<close>

text \<open>
  The waiters' channels are made, and numbered, in the order in which the callers begin to wait. The queue
  keeps that order and is never longer than \<^verbatim>\<open>MaxWaiters\<close> allows.
\<close>

definition queue_inv :: "PoolConfig \<Rightarrow> pool_world \<Rightarrow> bool" where
  "queue_inv cfg w \<longleftrightarrow>
     sorted_wrt (<) (p_waiters (w_pool w)) \<and> (\<forall>ch \<in> set (p_waiters (w_pool w)). ch < w_nchans w) \<and>
     (0 < pc_MaxWaiters cfg \<longrightarrow> int (length (p_waiters (w_pool w))) \<le> pc_MaxWaiters cfg)"

text \<open>What an event can do to the queue: nothing, a caller joins at the end, and one or all leave.\<close>

definition queue_step :: "PoolConfig \<Rightarrow> pool_world \<Rightarrow> pool_world \<Rightarrow> bool" where
  "queue_step cfg w w' \<longleftrightarrow>
     w_nchans w' = w_nchans w \<and> subseq (p_waiters (w_pool w')) (p_waiters (w_pool w)) \<or>
     w_nchans w' = Suc (w_nchans w) \<and> p_waiters (w_pool w') = p_waiters (w_pool w) @ [w_nchans w] \<and>
     (0 < pc_MaxWaiters cfg \<longrightarrow> int (length (p_waiters (w_pool w))) < pc_MaxWaiters cfg)"

lemma queue_step_same:
  "w_nchans w' = w_nchans w \<Longrightarrow> subseq (p_waiters (w_pool w')) (p_waiters (w_pool w)) \<Longrightarrow> queue_step cfg w w'"
  by (simp add: queue_step_def)

lemma thread_ops_queue [simp]:
  "w_pool (set_thread i t w) = w_pool w" "w_nchans (set_thread i t w) = w_nchans w"
  "w_pool (return_err i e w) = w_pool w" "w_nchans (return_err i e w) = w_nchans w"
  "w_pool (return_conn i c w) = w_pool w" "w_nchans (return_conn i c w) = w_nchans w"
  "w_pool (take_msg ch w) = w_pool w" "w_nchans (take_msg ch w) = w_nchans w"
  "w_pool (checkReused cfg i c dl w) = w_pool w" "w_nchans (checkReused cfg i c dl w) = w_nchans w"
  "p_waiters (w_pool (Pool_Discard c w)) = p_waiters (w_pool w)" "w_nchans (Pool_Discard c w) = w_nchans w"
  "p_waiters (free_slot p) = p_waiters p"
  by (simp_all add: set_thread_def return_err_def return_conn_def take_msg_def checkReused_def Pool_Discard_def free_slot_def)

lemma subseq_set: "subseq xs ys \<Longrightarrow> set xs \<subseteq> set ys"
  by (induction rule: list_emb.induct) auto

lemma subseq_sorted_wrt: "subseq xs ys \<Longrightarrow> sorted_wrt R ys \<Longrightarrow> sorted_wrt R xs"
  by (induction rule: list_emb.induct) (auto dest: subseq_set)

lemma subseq_remove1: "subseq (remove1 x xs) xs"
  by (induction xs) auto

lemma give_up_queue [simp]:
  "subseq (p_waiters (w_pool (give_up i ch e w))) (p_waiters (w_pool w))" "w_nchans (give_up i ch e w) = w_nchans w"
  by (auto simp: give_up_def abandonWaiter_locked_def subseq_remove1 split: prod.splits bool.splits if_splits)

lemma Pool_Release_queue:
  "Pool_Release c w = Some w' \<Longrightarrow> subseq (p_waiters (w_pool w')) (p_waiters (w_pool w)) \<and> w_nchans w' = w_nchans w"
  by (auto simp: Pool_Release_def Release_locked_def split: if_splits list.splits)

lemma queue_step_turn: "queue_step cfg w (acquire_turn cfg i dl w)"
  by (auto simp: acquire_turn_def Acquire_locked_def queue_step_def Let_def)

lemma queue_step_exec: "pool_exec cfg e w = Some w' \<Longrightarrow> queue_step cfg w w'"
proof (cases e)
  case (EvTurn i)
  assume "pool_exec cfg e w = Some w'"
  with EvTurn show ?thesis using queue_step_turn by (auto split: thread.splits)
qed (auto intro!: queue_step_same dest!: Pool_Release_queue simp: reapOnce_def Close_locked_def
      split: if_splits thread.splits option.splits prod.splits list.splits)

lemma queue_step_inv:
  assumes "queue_inv cfg w" "queue_step cfg w w'"
  shows "queue_inv cfg w'"
  using assms(2) unfolding queue_step_def
proof (elim disjE conjE)
  assume n: "w_nchans w' = w_nchans w" and s: "subseq (p_waiters (w_pool w')) (p_waiters (w_pool w))"
  from list_emb_length [OF s] have "length (p_waiters (w_pool w')) \<le> length (p_waiters (w_pool w))" .
  with assms(1) n show ?thesis
    unfolding queue_inv_def using subseq_sorted_wrt [OF s] subseq_set [OF s] by auto
qed (use assms(1) in \<open>auto simp: queue_inv_def sorted_wrt_append less_Suc_eq\<close>)

interpretation pq: step_invariant "pool_exec cfg" "pool_init n fresh_pool" "queue_inv cfg" for cfg n
proof
  show "queue_inv cfg (pool_init n fresh_pool)" by (simp add: queue_inv_def pool_init_def)
qed (blast intro: queue_step_inv queue_step_exec)

lemma pool_reachable_queue: "pool_reachable cfg n w \<Longrightarrow> queue_inv cfg w"
  using pq.invar_reach [of cfg n w] by (auto simp: pool_reachable_def pool_New_def split: if_splits)

text \<open>Whoever waits after a run waited before it, or began to wait during it.\<close>

lemma queue_run:
  assumes "run_steps (pool_exec cfg) es w = Some w'"
  shows "w_nchans w \<le> w_nchans w' \<and> (\<forall>ch \<in> set (p_waiters (w_pool w')). ch \<in> set (p_waiters (w_pool w)) \<or> w_nchans w \<le> ch)"
  using assms
proof (induction es arbitrary: w)
  case (Cons e es)
  then obtain w1 where w1: "pool_exec cfg e w = Some w1" "run_steps (pool_exec cfg) es w1 = Some w'"
    by (auto simp del: pool_exec.simps split: option.splits)
  from queue_step_exec [OF w1(1)] have "w_nchans w \<le> w_nchans w1 \<and>
      (\<forall>ch \<in> set (p_waiters (w_pool w1)). ch \<in> set (p_waiters (w_pool w)) \<or> w_nchans w \<le> ch)"
    by (auto simp: queue_step_def dest!: subseq_set)
  with Cons.IH [OF w1(2)] show ?case by (meson order_trans)
qed simp


subsection \<open>Giving up\<close>

text \<open>A waiter that has been taken off the queue and given up returns once its message is there.\<close>

lemma abandoned_receives:
  assumes "winv cfg w" "thread_at i w = TAbandon ch e" "map_of (w_box w) ch = Some m"
  shows "\<exists>w'. pool_exec cfg (EvAbandonRecv i) w = Some w' \<and> thread_at i w' = TIdle \<and> w_rets w' = w_rets w @ [(i, Inl e)]"
proof -
  have i: "i < length (w_threads w)" using assms(2) by (auto simp: thread_at_def split: if_splits)
  from tinv_take_msg [OF tinv_thread_at [OF assms(1)], of i ch m] assms(2,3)
  have k: "tinv cfg i (case m of None \<Rightarrow> TIdle | Some c \<Rightarrow> TPing c None) (take_msg ch w)" by simp
  show ?thesis
  proof (cases m)
    case None
    with assms(2,3) i show ?thesis
      by (auto simp: return_err_def set_thread_def thread_at_def take_msg_def)
  next
    case (Some c)
    with k obtain w' where w': "Pool_Release c (take_msg ch w) = Some w'" "w_threads w' = w_threads w"
      using winv_release [of cfg i c None "take_msg ch w"] by (auto simp: take_msg_def)
    then have "w_rets w' = w_rets w"
      by (auto simp: Pool_Release_def take_msg_def split: release_next.splits prod.splits if_splits)
    with w' Some assms(2,3) i show ?thesis
      by (auto simp: return_err_def set_thread_def thread_at_def)
  qed
qed

text \<open>A \<^verbatim>\<open>Close\<close> that still has to wake a waiter can do so, whatever it sends before.\<close>

lemma closer_sends:
  "winv cfg w \<Longrightarrow> thread_at j w = TClose (us @ ch # vs) cs \<Longrightarrow>
   \<exists>w'. run_steps (pool_exec cfg) (replicate (Suc (length us)) (EvCloseSend j)) w = Some w' \<and> winv cfg w' \<and>
        map_of (w_box w') ch \<noteq> None \<and> w_rets w' = w_rets w \<and> (\<forall>i. i \<noteq> j \<longrightarrow> thread_at i w' = thread_at i w)"
proof (induction us arbitrary: w)
  case Nil
  from winv_close_send [OF Nil(1), of j ch vs cs] Nil(2) obtain w1 where
    w1: "pool_exec cfg (EvCloseSend j) w = Some w1" "winv cfg w1" by auto
  with Nil(2) have "w1 = set_thread j (TClose vs cs) (w\<lparr>w_box := w_box w @ [(ch, None)]\<rparr>)"
    by (auto split: if_splits)
  with w1 show ?case by (simp del: pool_exec.simps) (simp add: set_thread_def thread_at_def map_add_def split: option.splits)
next
  case (Cons u us)
  from winv_close_send [OF Cons.prems(1), of j u "us @ ch # vs" cs] Cons.prems(2) obtain w1 where
    w1: "pool_exec cfg (EvCloseSend j) w = Some w1" "winv cfg w1" by auto
  with Cons.prems(2) have e: "w1 = set_thread j (TClose (us @ ch # vs) cs) (w\<lparr>w_box := w_box w @ [(u, None)]\<rparr>)"
    by (auto split: if_splits)
  have j: "j < length (w_threads w)" using Cons.prems(2) by (auto simp: thread_at_def split: if_splits)
  with e have t: "thread_at j w1 = TClose (us @ ch # vs) cs" "w_rets w1 = w_rets w" "\<forall>i. i \<noteq> j \<longrightarrow> thread_at i w1 = thread_at i w"
    by (simp_all add: set_thread_def thread_at_def)
  from Cons.IH [OF w1(2) t(1)] w1(1) t(2,3) show ?case by (auto simp del: pool_exec.simps)
qed

lemma abandoned_returns:
  assumes "winv cfg w" "thread_at i w = TAbandon ch e"
  shows "\<exists>es w'. set es \<subseteq> {EvAbandonRecv i} \<union> range EvCloseSend \<and> run_steps (pool_exec cfg) es w = Some w' \<and>
           thread_at i w' = TIdle \<and> w_rets w' = w_rets w @ [(i, Inl e)]"
  using abandon_progress [OF assms]
proof (elim disjE exE conjE)
  assume "map_of (w_box w) ch \<noteq> None"
  with abandoned_receives [OF assms] obtain w' where
    "pool_exec cfg (EvAbandonRecv i) w = Some w'" "thread_at i w' = TIdle" "w_rets w' = w_rets w @ [(i, Inl e)]" by blast
  then show ?thesis by (intro exI [of _ "[EvAbandonRecv i]"] exI [of _ w']) (simp del: pool_exec.simps)
next
  fix j ws cs
  assume j: "thread_at j w = TClose ws cs" "ch \<in> set ws"
  obtain us vs where "ws = us @ ch # vs" using split_list [OF j(2)] by blast
  with closer_sends [OF assms(1), of j us ch vs cs] j(1) obtain w1 where
    w1: "run_steps (pool_exec cfg) (replicate (Suc (length us)) (EvCloseSend j)) w = Some w1" "winv cfg w1"
      "map_of (w_box w1) ch \<noteq> None" "w_rets w1 = w_rets w" "\<forall>i. i \<noteq> j \<longrightarrow> thread_at i w1 = thread_at i w" by blast
  have "i \<noteq> j" using assms(2) j(1) by auto
  with w1 abandoned_receives [OF w1(2), of i ch e] assms(2) obtain w' where
    w': "pool_exec cfg (EvAbandonRecv i) w1 = Some w'" "thread_at i w' = TIdle" "w_rets w' = w_rets w @ [(i, Inl e)]" by auto
  have "run_steps (pool_exec cfg) (replicate (Suc (length us)) (EvCloseSend j) @ [EvAbandonRecv i]) w = Some w'"
    using w1(1) w'(1) by (simp add: run_steps_append del: pool_exec.simps replicate.simps)
  with w'(2,3) show ?thesis
    by (intro exI [of _ "replicate (Suc (length us)) (EvCloseSend j) @ [EvAbandonRecv i]"] exI [of _ w']) (auto simp del: replicate.simps)
qed


subsection \<open>Properties\<close>

text \<open>
  C2. No connection is lost, handed out twice or closed twice. In every state any interleaving of
  callers, waiters, the reaper and \<^verbatim>\<open>Close\<close> can reach, each connection ever opened is in exactly one
  place: idle in the pool, handed out, held by one thread, on its way to a waiter, or closed.
\<close>

theorem pool_conservation:
  assumes "pool_reachable cfg n w"
  shows "mset (map ic_conn (p_idle (w_pool w))) + mset (w_out w) + tally thread_conns (w_threads w)
         + box_conns (w_box w) + mset (w_closed w) = mset [0..<w_nconns w]"
proof -
  have "mset (map ic_conn (p_idle (w_pool w))) + (mset (w_out w) + tally thread_conns (w_threads w))
         + box_conns (w_box w) + mset (w_closed w) = issued (w_nconns w)"
    using pool_reachable_inv [OF assms] unfolding winv_def pinv_def by blast
  then show ?thesis by (simp only: issued_def add.assoc)
qed

definition wit_cfg :: PoolConfig where
  "wit_cfg = \<lparr>pc_MaxSize = 1, pc_MaxWaiters = 0, pc_AcquireTimeout = 0, pc_IdleTimeout = 0,
              pc_New = True, pc_Ping = False\<rparr>"

lemmas pool_run_simps = wit_cfg_def pool_New_def pool_init_def thread_at_def set_thread_def
  acquire_turn_def Acquire_locked_def return_conn_def return_err_def pool_deadline_def checkReused_def
  Pool_Release_def Release_locked_def Pool_Discard_def free_slot_def Close_locked_def
  Pool_Stats_def take_msg_def Let_def

lemma wit_handed_out:
  "run_steps (pool_exec wit_cfg) [EvAcquire 0, EvTurn 0, EvNew 0 True, EvAcquire 1, EvTurn 1]
     (pool_init 2 fresh_pool) =
   Some \<lparr>w_pool = \<lparr>p_idle = [], p_open = 1, p_waiters = [0], p_closed = False\<rparr>,
         w_threads = [TIdle, TWait 0 None], w_box = [], w_out = [0], w_closed = [], w_nconns = 1,
         w_nchans = 1, w_now = 0, w_rets = [(0, Inr 0)]\<rparr>"
  by (simp add: pool_run_simps numeral_2_eq_2)


lemma pool_conservation_witness:
  "pool_reachable wit_cfg 2
     \<lparr>w_pool = \<lparr>p_idle = [], p_open = 1, p_waiters = [0], p_closed = False\<rparr>,
      w_threads = [TIdle, TWait 0 None], w_box = [], w_out = [0], w_closed = [], w_nconns = 1,
      w_nchans = 1, w_now = 0, w_rets = [(0, Inr 0)]\<rparr> \<and>
   mset [0 :: conn] = mset [0..<1]"
proof -
  have r: "pool_reachable wit_cfg 2
     \<lparr>w_pool = \<lparr>p_idle = [], p_open = 1, p_waiters = [0], p_closed = False\<rparr>,
      w_threads = [TIdle, TWait 0 None], w_box = [], w_out = [0], w_closed = [], w_nconns = 1,
      w_nchans = 1, w_now = 0, w_rets = [(0, Inr 0)]\<rparr>"
    by (rule pool_reachable_run [OF _ wit_handed_out]) (simp add: wit_cfg_def pool_New_def)
  from pool_conservation [OF r] r show ?thesis by simp
qed

text \<open>
  C6. The pool keeps its two bounds. In every reachable state the connections that are open, and those
  being opened, are together at most the pool's counter, which is at most \<^verbatim>\<open>MaxSize\<close>; until the pool is
  closed the counter is exact. And no more than \<^verbatim>\<open>MaxWaiters\<close> callers wait in the queue, if that is set.
\<close>

theorem pool_never_exceeds_MaxSize:
  assumes "pool_reachable cfg n w"
  shows "int (w_nconns w) - int (length (w_closed w)) + int (tally thread_news (w_threads w)) \<le> p_open (w_pool w) \<and>
         p_open (w_pool w) \<le> pc_MaxSize cfg \<and>
         (\<not> p_closed (w_pool w) \<longrightarrow>
            st_Open (Pool_Stats (w_pool w)) =
              int (w_nconns w) - int (length (w_closed w)) + int (tally thread_news (w_threads w))) \<and>
         (0 < pc_MaxWaiters cfg \<longrightarrow> st_Waiters (Pool_Stats (w_pool w)) \<le> pc_MaxWaiters cfg)"
  using pool_counter [OF pool_reachable_inv [OF assms]] pool_reachable_queue [OF assms]
  by (simp add: Pool_Stats_def queue_inv_def)

lemma pool_never_exceeds_MaxSize_witness:
  "\<exists>w. run_steps (pool_exec (wit_cfg\<lparr>pc_MaxWaiters := 1\<rparr>))
         [EvAcquire 0, EvTurn 0, EvNew 0 True, EvAcquire 1, EvTurn 1, EvAcquire 0, EvTurn 0] (pool_init 2 fresh_pool) = Some w \<and>
       w_rets w = [(0, Inr 0), (0, Inl PErrExhausted)] \<and> p_open (w_pool w) \<le> 1 \<and> st_Waiters (Pool_Stats (w_pool w)) \<le> 1"
proof -
  let ?cfg = "wit_cfg\<lparr>pc_MaxWaiters := 1\<rparr>"
  obtain w where w: "run_steps (pool_exec ?cfg)
      [EvAcquire 0, EvTurn 0, EvNew 0 True, EvAcquire 1, EvTurn 1, EvAcquire 0, EvTurn 0] (pool_init 2 fresh_pool) = Some w"
    "w_rets w = [(0, Inr 0), (0, Inl PErrExhausted)]"
    by (simp add: pool_run_simps numeral_2_eq_2)
  have "pool_reachable ?cfg 2 w" by (rule pool_reachable_run [OF _ w(1)]) (simp add: wit_cfg_def pool_New_def)
  from pool_never_exceeds_MaxSize [OF this] have "p_open (w_pool w) \<le> 1" "st_Waiters (Pool_Stats (w_pool w)) \<le> 1"
    by (simp_all add: wit_cfg_def)
  with w show ?thesis by blast
qed

text \<open>
  C20. A release never blocks while it holds the lock, and callers are served in the order in which they began
  to wait. Take any reachable state \<open>w\<close> and any later state \<open>w1\<close>: giving back a connection that is handed out
  succeeds; if somebody waits, nothing is idle, the connection goes to the head of the queue and the others
  keep their places; and the one who gets it was waiting at \<open>w\<close> already, unless nobody who waited at \<open>w\<close> still
  does: nobody is overtaken by a caller who came later.
\<close>

theorem Release_serves_first_waiter:
  assumes "pool_reachable cfg n w" "run_steps (pool_exec cfg) es w = Some w1" "c \<in> set (w_out w1)"
  shows "\<exists>w2. pool_exec cfg (EvRelease c) w1 = Some w2 \<and>
              (\<forall>ch ws. p_waiters (w_pool w1) = ch # ws \<longrightarrow>
                 p_idle (w_pool w1) = [] \<and> p_waiters (w_pool w2) = ws \<and> map_of (w_box w2) ch = Some (Some c) \<and>
                 (ch \<in> set (p_waiters (w_pool w)) \<or> set (p_waiters (w_pool w)) \<inter> set (p_waiters (w_pool w1)) = {}))"
proof -
  have r1: "pool_reachable cfg n w1" using assms(1,2) unfolding pool_reachable_def by (metis reach_run)
  have inv: "winv cfg w1" using r1 by (rule pool_reachable_inv)
  from winv_out(1) [OF inv assms(3)] assms(3) obtain w2 where
    w2: "Pool_Release c (w1\<lparr>w_out := remove1 c (w_out w1)\<rparr>) = Some w2" "pool_exec cfg (EvRelease c) w1 = Some w2"
    by auto
  have "p_idle (w_pool w1) = [] \<and> p_waiters (w_pool w2) = ws \<and> map_of (w_box w2) ch = Some (Some c) \<and>
      (ch \<in> set (p_waiters (w_pool w)) \<or> set (p_waiters (w_pool w)) \<inter> set (p_waiters (w_pool w1)) = {})"
    if q: "p_waiters (w_pool w1) = ch # ws" for ch ws
  proof -
    have "ch \<notin> fst ` set (w_box w1)"
      using inv q by (intro pinv_distinct(3) [of cfg "w_pool w1"]) (auto simp: winv_def)
    moreover have "\<not> p_closed (w_pool w1)" "p_idle (w_pool w1) = []"
      using inv q unfolding winv_def pinv_def by auto
    ultimately have p: "\<not> p_closed (w_pool w1)" "p_idle (w_pool w1) = []" "ch \<notin> fst ` set (w_box w1)" "map_of (w_box w1) ch = None"
      by (simp_all add: map_of_eq_None_iff)
    have "ch \<in> set (p_waiters (w_pool w))" if "x \<in> set (p_waiters (w_pool w))" "x \<in> set (p_waiters (w_pool w1))" for x
    proof -
      have "x < w_nchans w" using pool_reachable_queue [OF assms(1)] that(1) by (simp add: queue_inv_def)
      moreover have "ch \<le> x" using pool_reachable_queue [OF r1] that(2) q by (auto simp: queue_inv_def)
      ultimately show ?thesis using queue_run [OF assms(2)] q by auto
    qed
    with p w2(1) q show ?thesis by (auto simp: Pool_Release_def Release_locked_def map_add_def)
  qed
  with w2(2) show ?thesis by blast
qed

lemma wit_queue:
  "\<exists>w1. run_steps (pool_exec wit_cfg) [EvAcquire 2, EvTurn 2] \<lparr>w_pool = \<lparr>p_idle = [], p_open = 1, p_waiters = [0], p_closed = False\<rparr>,
      w_threads = [TIdle, TWait 0 None, TIdle], w_box = [], w_out = [0], w_closed = [], w_nconns = 1,
      w_nchans = 1, w_now = 0, w_rets = [(0, Inr 0)]\<rparr> = Some w1 \<and> p_waiters (w_pool w1) = [0, 1] \<and> w_out w1 = [0]"
  by (simp add: pool_run_simps)

lemma Release_serves_first_waiter_witness:
  "\<exists>w1 w2. p_waiters (w_pool w1) = [0, 1] \<and> pool_exec wit_cfg (EvRelease 0) w1 = Some w2 \<and>
           map_of (w_box w2) 0 = Some (Some 0) \<and> p_waiters (w_pool w2) = [1]"
proof -
  let ?w = "\<lparr>w_pool = \<lparr>p_idle = [], p_open = 1, p_waiters = [0], p_closed = False\<rparr>,
      w_threads = [TIdle, TWait 0 None, TIdle], w_box = [], w_out = [0], w_closed = [], w_nconns = 1,
      w_nchans = 1, w_now = 0, w_rets = [(0, Inr 0)]\<rparr>"
  have "run_steps (pool_exec wit_cfg) [EvAcquire 0, EvTurn 0, EvNew 0 True, EvAcquire 1, EvTurn 1] (pool_init 3 fresh_pool) = Some ?w"
    by (simp add: pool_run_simps numeral_3_eq_3)
  then have r: "pool_reachable wit_cfg 3 ?w"
    by (rule pool_reachable_run [rotated]) (simp add: wit_cfg_def pool_New_def)
  obtain w1 where w1: "run_steps (pool_exec wit_cfg) [EvAcquire 2, EvTurn 2] ?w = Some w1" "p_waiters (w_pool w1) = [0, 1]" "w_out w1 = [0]"
    using wit_queue by blast
  from Release_serves_first_waiter [OF r w1(1), of 0] w1(2,3) show ?thesis by auto
qed

text \<open>
  C19. A waiter can always give up. In every reachable state, a caller that waits and whose context ends returns
  the context's error: at once, in the step that takes it off the queue, if it is still queued; and else after
  it has received what was sent to it, which is there or will be sent by a \<^verbatim>\<open>Close\<close> under way, whose sends
  never block. So there is a run to its return in which nothing happens but that \<^verbatim>\<open>Close\<close> goes on sending
  and the caller itself acts, and nobody else gets a result meanwhile; a caller already at the receive of
  \<^verbatim>\<open>abandonWaiter\<close> returns the error it gave up with in the same way.
\<close>

theorem abandonWaiter_not_stuck:
  assumes "pool_reachable cfg n w" "thread_at i w = TWait ch dl \<and> e = PErrCtx \<or> thread_at i w = TAbandon ch e"
  shows "(thread_at i w = TWait ch dl \<and> ch \<in> set (p_waiters (w_pool w)) \<longrightarrow>
            (\<exists>w'. pool_exec cfg (EvCtxDone i) w = Some w' \<and> thread_at i w' = TIdle \<and> w_rets w' = w_rets w @ [(i, Inl e)])) \<and>
         (\<exists>es w'. set es \<subseteq> {EvCtxDone i, EvAbandonRecv i} \<union> range EvCloseSend \<and> run_steps (pool_exec cfg) es w = Some w' \<and>
            thread_at i w' = TIdle \<and> w_rets w' = w_rets w @ [(i, Inl e)])"
  using assms(2)
proof (elim disjE conjE)
  assume t: "thread_at i w = TAbandon ch e"
  from abandoned_returns [OF pool_reachable_inv [OF assms(1)] t] show ?thesis by (auto simp: t)
next
  assume t: "thread_at i w = TWait ch dl" "e = PErrCtx"
  have i: "i < length (w_threads w)" using t(1) by (auto simp: thread_at_def split: if_splits)
  obtain w1 where w1: "pool_exec cfg (EvCtxDone i) w = Some w1" "w1 = give_up i ch e w" using t by simp
  show ?thesis
  proof (cases "ch \<in> set (p_waiters (w_pool w))")
    case True
    with w1(2) i have "thread_at i w1 = TIdle" "w_rets w1 = w_rets w @ [(i, Inl e)]"
      by (simp_all add: give_up_def abandonWaiter_locked_def return_err_def set_thread_def thread_at_def)
    with w1(1) show ?thesis
      by (auto simp del: pool_exec.simps intro!: exI [of _ "[EvCtxDone i]"] exI [of _ w1])
  next
    case False
    with w1(2) i have a: "thread_at i w1 = TAbandon ch e" "w_rets w1 = w_rets w"
      by (simp_all add: give_up_def abandonWaiter_locked_def set_thread_def thread_at_def)
    have "winv cfg w1" by (rule winv_step [OF pool_reachable_inv [OF assms(1)] w1(1)])
    from abandoned_returns [OF this a(1)] obtain es w' where
      es: "set es \<subseteq> {EvAbandonRecv i} \<union> range EvCloseSend" "run_steps (pool_exec cfg) es w1 = Some w'"
        "thread_at i w' = TIdle" "w_rets w' = w_rets w1 @ [(i, Inl e)]" by blast
    have "run_steps (pool_exec cfg) (EvCtxDone i # es) w = Some w'" using w1(1) es(2) by (simp del: pool_exec.simps)
    with es a(2) False show ?thesis by (intro conjI impI exI [of _ "EvCtxDone i # es"] exI [of _ w']) auto
  qed
qed

text \<open>A caller gives up while \<^verbatim>\<open>Close\<close> has taken it off the queue and not yet woken it.\<close>

lemma wit_abandon:
  "run_steps (pool_exec wit_cfg)
     [EvAcquire 0, EvTurn 0, EvNew 0 True, EvAcquire 1, EvTurn 1, EvClose 0, EvCtxDone 1]
     (pool_init 2 fresh_pool) =
   Some \<lparr>w_pool = \<lparr>p_idle = [], p_open = 1, p_waiters = [], p_closed = True\<rparr>,
         w_threads = [TClose [0] [], TAbandon 0 PErrCtx], w_box = [], w_out = [0], w_closed = [], w_nconns = 1,
         w_nchans = 1, w_now = 0, w_rets = [(0, Inr 0)]\<rparr>"
  by (simp add: pool_run_simps give_up_def abandonWaiter_locked_def numeral_2_eq_2)

lemma abandonWaiter_not_stuck_witness:
  "\<exists>w es w'. pool_reachable wit_cfg 2 w \<and> thread_at 0 w = TClose [0] [] \<and> thread_at 1 w = TAbandon 0 PErrCtx \<and>
     run_steps (pool_exec wit_cfg) es w = Some w' \<and> thread_at 1 w' = TIdle \<and> w_rets w' = [(0, Inr 0), (1, Inl PErrCtx)]"
proof -
  let ?w = "\<lparr>w_pool = \<lparr>p_idle = [], p_open = 1, p_waiters = [], p_closed = True\<rparr>,
         w_threads = [TClose [0] [], TAbandon 0 PErrCtx], w_box = [], w_out = [0], w_closed = [], w_nconns = 1,
         w_nchans = 1, w_now = 0, w_rets = [(0, Inr 0)]\<rparr>"
  have r: "pool_reachable wit_cfg 2 ?w"
    by (rule pool_reachable_run [OF _ wit_abandon]) (simp add: wit_cfg_def pool_New_def)
  have t: "thread_at 0 ?w = TClose [0] []" "thread_at 1 ?w = TAbandon 0 PErrCtx" by (simp_all add: thread_at_def)
  from abandonWaiter_not_stuck [OF r disjI2 [OF t(2)]] obtain es w' where
    "run_steps (pool_exec wit_cfg) es ?w = Some w'" "thread_at 1 w' = TIdle" "w_rets w' = w_rets ?w @ [(1, Inl PErrCtx)]" by blast
  with r t show ?thesis by (intro exI [of _ ?w] exI [of _ es] exI [of _ w']) simp
qed

text \<open>
  \<^verbatim>\<open>Close\<close> drains the pool: once the pool is closed, every call has returned and the callers have
  given back what they held, every connection ever opened has been closed, each exactly once.
\<close>

theorem Close_drains:
  assumes "pool_reachable cfg n w" "p_closed (w_pool w)" "set (w_threads w) \<subseteq> {TIdle}" "w_out w = []"
  shows "mset (w_closed w) = mset [0..<w_nconns w]"
proof -
  have inv: "winv cfg w" using assms(1) by (rule pool_reachable_inv)
  have z: "tally thread_conns (w_threads w) = {#}" "tally thread_chans (w_threads w) = {#}"
    using assms(3) by (auto intro: tally_same)
  moreover have "tally thread_chans (w_threads w) =
      mset (p_waiters (w_pool w)) + mset (map fst (w_box w)) + tally closer_chans (w_threads w)"
    using inv unfolding winv_def pinv_def by blast
  ultimately have "w_box w = []" by auto
  then show ?thesis
    using inv assms(2,4) z unfolding winv_def pinv_def issued_def by auto
qed


lemma wit_drained:
  "run_steps (pool_exec wit_cfg)
     [EvAcquire 0, EvTurn 0, EvNew 0 True, EvRelease 0, EvClose 1, EvCloseIdle 1]
     (pool_init 2 fresh_pool) =
   Some \<lparr>w_pool = \<lparr>p_idle = [], p_open = 1, p_waiters = [], p_closed = True\<rparr>,
         w_threads = [TIdle, TIdle], w_box = [], w_out = [], w_closed = [0], w_nconns = 1,
         w_nchans = 0, w_now = 0, w_rets = [(0, Inr 0)]\<rparr>"
  by (simp add: pool_run_simps numeral_2_eq_2)

lemma Close_drains_witness:
  "\<exists>w. pool_reachable wit_cfg 2 w \<and> p_closed (w_pool w) \<and> w_nconns w = 1 \<and> mset (w_closed w) = mset [0..<1]"
proof -
  let ?w = "\<lparr>w_pool = \<lparr>p_idle = [], p_open = 1, p_waiters = [], p_closed = True\<rparr>,
         w_threads = [TIdle, TIdle], w_box = [], w_out = [], w_closed = [0], w_nconns = 1,
         w_nchans = 0, w_now = 0, w_rets = [(0, Inr 0)]\<rparr>"
  have r: "pool_reachable wit_cfg 2 ?w"
    by (rule pool_reachable_run [OF _ wit_drained]) (simp add: wit_cfg_def pool_New_def)
  from Close_drains [OF r] r show ?thesis by (intro exI [of _ ?w]) simp
qed

text \<open>
  C36. \<^verbatim>\<open>Discard\<close> wakes no waiter. In every reachable state in which somebody waits, discarding a connection
  leaves the queue, the messages on their way and every thread as they were, although it frees a slot: the
  waiters go on waiting with fewer than \<^verbatim>\<open>MaxSize\<close> connections, none of them can receive, and a caller who
  comes now opens a connection in the free slot before those who wait.
\<close>

theorem Discard_leaves_waiter:
  assumes "pool_reachable cfg n w" "c \<in> set (w_out w)" "ch \<in> set (p_waiters (w_pool w))"
  shows "\<exists>w'. pool_exec cfg (EvDiscard c) w = Some w' \<and> p_waiters (w_pool w') = p_waiters (w_pool w) \<and>
              w_box w' = w_box w \<and> w_threads w' = w_threads w \<and> p_open (w_pool w') < pc_MaxSize cfg \<and>
              (\<forall>i dl. thread_at i w' = TWait ch dl \<longrightarrow> pool_exec cfg (EvRecv i) w' = None) \<and>
              (\<forall>j. j < length (w_threads w') \<and> thread_at j w' = TIdle \<longrightarrow>
                 (\<exists>w''. run_steps (pool_exec cfg) [EvAcquire j, EvTurn j, EvNew j True] w' = Some w'' \<and>
                    w_out w'' = w_nconns w # w_out w' \<and> p_waiters (w_pool w'') = p_waiters (w_pool w)))"
proof -
  note inv = pool_reachable_inv [OF assms(1)]
  let ?w = "Pool_Discard c (w\<lparr>w_out := remove1 c (w_out w)\<rparr>)"
  have p: "\<not> p_closed (w_pool w)" "p_idle (w_pool w) = []" "p_open (w_pool w) \<le> pc_MaxSize cfg"
    using inv assms(3) unfolding winv_def pinv_def by auto
  have "ch \<notin> fst ` set (w_box w)"
    using inv assms(3) by (intro pinv_distinct(3) [of cfg "w_pool w"]) (auto simp: winv_def)
  then have "map_of (w_box w) ch = None" by (simp add: map_of_eq_None_iff)
  then have recv: "pool_exec cfg (EvRecv i) ?w = None" if "thread_at i ?w = TWait ch dl" for i dl
    using that by (simp add: Pool_Discard_def)
  have arrive: "\<exists>w''. run_steps (pool_exec cfg) [EvAcquire j, EvTurn j, EvNew j True] ?w = Some w'' \<and>
      w_out w'' = w_nconns w # w_out ?w \<and> p_waiters (w_pool w'') = p_waiters (w_pool w)"
    if "j < length (w_threads ?w)" "thread_at j ?w = TIdle" for j
    using that p by (simp add: pool_run_simps)
  show ?thesis
    by (rule exI [of _ ?w], intro conjI allI impI)
       (use assms(2) p recv arrive in \<open>auto simp del: run_steps.simps simp: Pool_Discard_def free_slot_def\<close>)
qed

lemma Discard_leaves_waiter_witness:
  "\<exists>w w'. pool_reachable wit_cfg 2 w \<and> p_waiters (w_pool w) = [0] \<and> pool_exec wit_cfg (EvDiscard 0) w = Some w' \<and>
     p_waiters (w_pool w') = [0] \<and> p_open (w_pool w') < 1 \<and> thread_at 1 w' = TWait 0 None"
proof -
  let ?w = "\<lparr>w_pool = \<lparr>p_idle = [], p_open = 1, p_waiters = [0], p_closed = False\<rparr>,
      w_threads = [TIdle, TWait 0 None], w_box = [], w_out = [0], w_closed = [], w_nconns = 1,
      w_nchans = 1, w_now = 0, w_rets = [(0, Inr 0)]\<rparr>"
  have r: "pool_reachable wit_cfg 2 ?w"
    by (rule pool_reachable_run [OF _ wit_handed_out]) (simp add: wit_cfg_def pool_New_def)
  from Discard_leaves_waiter [OF r, of 0 0] obtain w' where
    w': "pool_exec wit_cfg (EvDiscard 0) ?w = Some w'" "p_waiters (w_pool w') = [0]" "w_threads w' = [TIdle, TWait 0 None]"
      "p_open (w_pool w') < pc_MaxSize wit_cfg" by auto
  then have "thread_at 1 w' = TWait 0 None" "p_open (w_pool w') < 1" by (simp_all add: thread_at_def wit_cfg_def)
  with r w'(1,2) show ?thesis by (intro exI [of _ ?w] exI [of _ w']) simp
qed

text \<open>
  After \<^verbatim>\<open>Close\<close> the counter is no longer the number of open connections: there is a reachable state
  in which the pool is closed, every connection has been closed and none is handed out, and \<^verbatim>\<open>Stats\<close>
  still reports one open connection, in use.
\<close>

theorem Close_leaves_open_count:
  "\<exists>w. pool_reachable wit_cfg 2 w \<and> p_closed (w_pool w) \<and> w_out w = [] \<and> length (w_closed w) = w_nconns w \<and>
       st_Open (Pool_Stats (w_pool w)) = 1 \<and> st_InUse (Pool_Stats (w_pool w)) = 1"
  by (rule exI, rule conjI, rule pool_reachable_run [OF _ wit_drained])
     (simp_all add: Pool_Stats_def pool_New_def wit_cfg_def)

end
