(* ===== verification/PoolLease.thy ===== *)
theory PoolLease
  imports Pool
begin

text \<open>
  What the pool of \<^verbatim>\<open>internal/pool/pool.go\<close> promises its callers, as a specification of a few lines: a
  set of leased connections and a set of dead ones. The pool with its threads, channels, deadlines,
  pings and reaper refines it: what the callers see of a run, event by event, is a trace of the specification.
\<close>


subsection \<open>The specification\<close>

record lease =
  ls_out :: "conn set"
  ls_dead :: "conn set"

text \<open>
  What the callers see of a step: a call returns a connection, a connection is given back or thrown away, or
  nothing. A connection is granted that nobody has and that is not dead, while fewer than the limit are leased.
  Its holder gives it back, after which it is free or (in a closed pool) dead, or throws it away, after which
  it is dead. When the callers see nothing, no lease changes, and only connections nobody has may die.
\<close>

datatype lease_label = Granted nat conn | Returned conn | Discarded conn | Internal

inductive lease_step :: "int \<Rightarrow> lease \<Rightarrow> lease_label \<Rightarrow> lease \<Rightarrow> bool" for limit where
  grant: "c \<notin> ls_out l \<Longrightarrow> c \<notin> ls_dead l \<Longrightarrow> int (card (ls_out l)) < limit \<Longrightarrow>
          lease_step limit l (Granted i c) (l\<lparr>ls_out := insert c (ls_out l)\<rparr>)"
| give_back: "c \<in> ls_out l \<Longrightarrow> lease_step limit l (Returned c) (l\<lparr>ls_out := ls_out l - {c}\<rparr>)"
| give_back_late: "c \<in> ls_out l \<Longrightarrow>
          lease_step limit l (Returned c) \<lparr>ls_out = ls_out l - {c}, ls_dead = insert c (ls_dead l)\<rparr>"
| throw_away: "c \<in> ls_out l \<Longrightarrow>
          lease_step limit l (Discarded c) \<lparr>ls_out = ls_out l - {c}, ls_dead = insert c (ls_dead l)\<rparr>"
| retire: "X \<inter> ls_out l = {} \<Longrightarrow> lease_step limit l Internal (l\<lparr>ls_dead := ls_dead l \<union> X\<rparr>)"

inductive_cases lease_stepE: "lease_step limit l x l'"

definition leases :: "pool_world \<Rightarrow> lease" where
  "leases w = \<lparr>ls_out = set (w_out w), ls_dead = set (w_closed w)\<rparr>"


subsection \<open>What an event does to the connections outside the pool\<close>

lemma thread_ops_out [simp]:
  "w_out (set_thread i t w) = w_out w" "w_closed (set_thread i t w) = w_closed w"
  "w_out (return_err i e w) = w_out w" "w_closed (return_err i e w) = w_closed w"
  "w_out (return_conn i c w) = c # w_out w" "w_closed (return_conn i c w) = w_closed w"
  "w_out (take_msg ch w) = w_out w" "w_closed (take_msg ch w) = w_closed w"
  "w_out (Pool_Discard c w) = w_out w" "w_closed (Pool_Discard c w) = w_closed w @ [c]"
  by (simp_all add: set_thread_def return_err_def return_conn_def take_msg_def Pool_Discard_def)

lemma checkReused_out: "w_out (checkReused cfg i c dl w) \<in> {w_out w, c # w_out w}" "w_closed (checkReused cfg i c dl w) = w_closed w"
  by (simp_all add: checkReused_def)

lemma Pool_Release_out:
  "Pool_Release c w = Some w' \<Longrightarrow> w_out w' = w_out w \<and> (w_closed w' = w_closed w \<or> w_closed w' = w_closed w @ [c])"
  by (auto simp: Pool_Release_def Release_locked_def split: release_next.splits prod.splits if_splits list.splits)

lemma give_up_out [simp]: "w_out (give_up i ch e w) = w_out w" "w_closed (give_up i ch e w) = w_closed w"
  by (simp_all add: give_up_def split: prod.splits bool.splits)

datatype lease_effect = LeGrant conn | LeReturn conn | LeDead conn | LeRetire "conn list"

fun has_effect :: "lease_effect \<Rightarrow> pool_world \<Rightarrow> pool_world \<Rightarrow> bool" where
  "has_effect (LeGrant c) w w' = (w_out w' = c # w_out w \<and> w_closed w' = w_closed w)"
| "has_effect (LeReturn c) w w' = (c \<in> set (w_out w) \<and> w_out w' = remove1 c (w_out w) \<and> w_closed w' = w_closed w)"
| "has_effect (LeDead c) w w' = (c \<in> set (w_out w) \<and> w_out w' = remove1 c (w_out w) \<and> w_closed w' = w_closed w @ [c])"
| "has_effect (LeRetire cs) w w' = (w_out w' = w_out w \<and> w_closed w' = w_closed w @ cs)"

lemma effect_none: "w_out w' = w_out w \<Longrightarrow> w_closed w' = w_closed w \<Longrightarrow> \<exists>l. has_effect l w w'"
  by (rule exI [of _ "LeRetire []"]) simp

lemma effect_reuse: "has_effect (LeRetire []) w w1 \<Longrightarrow> \<exists>l. has_effect l w (checkReused cfg i c dl w1)"
  using checkReused_out [of cfg i c dl w1] has_effect.simps(1) [of c w "checkReused cfg i c dl w1"] effect_none
  by fastforce

lemma effect_turn: "\<exists>l. has_effect l w (acquire_turn cfg i dl w)"
proof -
  obtain a p where a: "Acquire_locked cfg (w_now w) (w_nchans w) (w_pool w) = (a, p)" by fastforce
  show ?thesis
  proof (cases a)
    case (AcqExpired c)
    with a show ?thesis by (intro exI [of _ "LeRetire [c]"]) (simp add: acquire_turn_def)
  next
    case (AcqReuse c)
    with a effect_reuse [of w "w\<lparr>w_pool := p\<rparr>" cfg i c dl] show ?thesis by (simp add: acquire_turn_def)
  qed (use a in \<open>auto simp: acquire_turn_def intro: effect_none\<close>)
qed

lemma effect_exec: "pool_exec cfg e w = Some w' \<Longrightarrow> \<exists>l. has_effect l w w'"
proof (induction e)
  case (EvTurn i)
  then show ?case using effect_turn [of w cfg i] by (auto split: thread.splits)
next
  case (EvPing i ok)
  then obtain c dl where t: "thread_at i w = TPing c dl" by (auto split: thread.splits)
  with EvPing show ?case
    by (intro exI [of _ "if ok then LeGrant c else LeRetire [c]"]) (auto split: if_splits)
next
  case (EvNew i ok)
  then show ?case
    by (intro exI [of _ "if ok then LeGrant (w_nconns w) else LeRetire []"]) (auto split: if_splits thread.splits)
next
  case (EvRecv i)
  then obtain ch dl m where t: "thread_at i w = TWait ch dl" "map_of (w_box w) ch = Some m"
    by (auto split: thread.splits option.splits)
  with EvRecv effect_reuse [of w "take_msg ch w"] show ?case
    by (cases m) (auto intro: effect_none)
next
  case (EvAbandonRecv i)
  then obtain ch e m where t: "thread_at i w = TAbandon ch e" "map_of (w_box w) ch = Some m"
    by (auto split: thread.splits option.splits)
  show ?case
  proof (cases m)
    case None
    with EvAbandonRecv t show ?thesis by (auto intro: effect_none)
  next
    case (Some c)
    with EvAbandonRecv t obtain w1 where w1: "Pool_Release c (take_msg ch w) = Some w1" "w' = return_err i e w1" by auto
    with Pool_Release_out [OF w1(1)] have "has_effect (LeRetire []) w w' \<or> has_effect (LeRetire [c]) w w'" by auto
    then show ?thesis by blast
  qed
next
  case (EvRelease c)
  then have c: "c \<in> set (w_out w)" and r: "Pool_Release c (w\<lparr>w_out := remove1 c (w_out w)\<rparr>) = Some w'"
    by (auto split: if_splits)
  with Pool_Release_out [OF r] have "has_effect (LeReturn c) w w' \<or> has_effect (LeDead c) w w'" by auto
  then show ?case by blast
next
  case (EvDiscard c)
  then show ?case by (intro exI [of _ "LeDead c"]) (auto split: if_splits)
next
  case (EvCloseIdle i)
  then obtain cs where "thread_at i w = TClose [] cs" by (auto split: thread.splits list.splits)
  with EvCloseIdle show ?case by (intro exI [of _ "LeRetire cs"]) auto
next
  case EvReap
  then show ?case
    by (intro exI [of _ "LeRetire (fst (reapOnce cfg (w_now w) (w_pool w)))"]) (auto split: if_splits prod.splits)
qed (auto intro: effect_none split: if_splits thread.splits option.splits prod.splits list.splits)


subsection \<open>What a caller sees\<close>

text \<open>What an event granted to a caller of \<^verbatim>\<open>Acquire\<close>, if anything: the result its call returned.\<close>

definition granted :: "pool_world \<Rightarrow> pool_world \<Rightarrow> (nat \<times> conn) option" where
  "granted w w' =
     (if w_rets w' = w_rets w then None
      else case last (w_rets w') of (i, Inr c) \<Rightarrow> Some (i, c) | (i, Inl e) \<Rightarrow> None)"

fun gives_back :: "pool_event \<Rightarrow> bool" where
  "gives_back (EvRelease c) = True"
| "gives_back (EvDiscard c) = True"
| "gives_back _ = False"

fun pool_label :: "pool_event \<Rightarrow> pool_world \<Rightarrow> pool_world \<Rightarrow> lease_label" where
  "pool_label (EvRelease c) w w' = Returned c"
| "pool_label (EvDiscard c) w w' = Discarded c"
| "pool_label _ w w' = (case granted w w' of None \<Rightarrow> Internal | Some (i, c) \<Rightarrow> Granted i c)"

lemma granted_out:
  assumes "pool_exec cfg e w = Some w'" "\<not> gives_back e"
  shows "w_out w' = (case granted w w' of None \<Rightarrow> w_out w | Some (i, c) \<Rightarrow> c # w_out w)"
proof -
  have g: "granted w (return_err i e v) = None" "granted w (set_thread i t v) = None" "granted w v = None"
    "granted w (return_conn i c v) = Some (i, c)" if "w_rets v = w_rets w" for i e v t c
    using that by (simp_all add: granted_def return_err_def return_conn_def set_thread_def)
  note defs = set_thread_def return_err_def return_conn_def take_msg_def
  have r: "w_rets (take_msg ch v) = w_rets v" "w_rets (Pool_Discard c v) = w_rets v" "w_rets (set_thread i t v) = w_rets v" for ch v c i t
    by (simp_all add: take_msg_def Pool_Discard_def set_thread_def)
  have rel: "w_rets v' = w_rets v \<and> w_out v' = w_out v" if "Pool_Release c v = Some v'" for c v v'
    using that Pool_Release_out [OF that] by (auto simp: Pool_Release_def split: release_next.splits prod.splits if_splits)
  have chk: "w_out (checkReused cfg i c dl v) = (case granted w (checkReused cfg i c dl v) of None \<Rightarrow> w_out w | Some (i, c) \<Rightarrow> c # w_out w)"
    if "w_rets v = w_rets w" "w_out v = w_out w" for i c dl v
    using g [OF that(1)] that(2) by (simp add: checkReused_def)
  have give: "granted w (give_up i ch er w) = None" for i ch er
    by (auto simp: give_up_def g split: prod.splits bool.splits)
  show ?thesis
  proof (cases e)
    case (EvTurn i)
    with assms(1) obtain dl where w': "w' = acquire_turn cfg i dl w" by (auto split: thread.splits)
    obtain a p where a: "Acquire_locked cfg (w_now w) (w_nchans w) (w_pool w) = (a, p)" by fastforce
    with w' show ?thesis using chk [of "w\<lparr>w_pool := p\<rparr>"] by (cases a) (auto simp: acquire_turn_def g)
  next
    case (EvPing i ok)
    with assms(1) show ?thesis by (auto simp: g r split: thread.splits if_splits)
  next
    case (EvNew i ok)
    with assms(1) show ?thesis by (auto simp: g r split: thread.splits if_splits)
  next
    case (EvRecv i)
    with assms(1) show ?thesis using chk [of "take_msg _ w"] by (auto simp: g r split: thread.splits option.splits)
  next
    case (EvAbandonRecv i)
    with assms(1) show ?thesis
      by (auto simp: g r dest!: rel split: thread.splits option.splits)
  qed (use assms g r give in \<open>auto split: thread.splits option.splits if_splits prod.splits list.splits\<close>)
qed


subsection \<open>The refinement\<close>

lemma winv_leases:
  assumes "winv cfg w"
  shows "distinct (w_out w)" "set (w_out w) \<inter> set (w_closed w) = {}" "int (length (w_out w)) \<le> pc_MaxSize cfg"
proof -
  have i: "mset (map ic_conn (p_idle (w_pool w))) + (mset (w_out w) + tally thread_conns (w_threads w))
         + box_conns (w_box w) + mset (w_closed w) = issued (w_nconns w)"
    and b: "int (length (p_idle (w_pool w))) + int (size (mset (w_out w) + tally thread_conns (w_threads w)))
         + int (size (box_conns (w_box w))) + int (tally thread_news (w_threads w)) \<le> p_open (w_pool w)"
      "p_open (w_pool w) \<le> pc_MaxSize cfg"
    using assms unfolding winv_def pinv_def by blast+
  have "mset (w_out w @ w_closed w) \<subseteq># issued (w_nconns w)"
    unfolding i [symmetric] mset_append by (simp add: ac_simps subset_mset.add_increasing2 subset_mset.add_increasing)
  then have "distinct (w_out w @ w_closed w)" by (rule subset_issued_distinct)
  then show "distinct (w_out w)" "set (w_out w) \<inter> set (w_closed w) = {}" by simp_all
  show "int (length (w_out w)) \<le> pc_MaxSize cfg" using b by simp
qed

text \<open>The effect of an event on the leases fits what its label says.\<close>

lemma effect_granted:
  assumes "pool_exec cfg e w = Some w'" "\<not> gives_back e"
  shows "case granted w w' of Some (i, c) \<Rightarrow> has_effect (LeGrant c) w w' | None \<Rightarrow> \<exists>cs. has_effect (LeRetire cs) w w'"
proof -
  from effect_exec [OF assms(1)] obtain l where l: "has_effect l w w'" by blast
  have no: "remove1 c xs \<noteq> xs" "remove1 c xs \<noteq> d # xs" if "c \<in> set xs" for c d and xs :: "conn list"
  proof -
    have "length (remove1 c xs) < length xs" using that length_pos_if_in_set [OF that] by (simp add: length_remove1)
    then show "remove1 c xs \<noteq> xs" "remove1 c xs \<noteq> d # xs" by auto
  qed
  show ?thesis
  proof (cases "granted w w'")
    case None
    with granted_out [OF assms] have "w_out w' = w_out w" by simp
    with l no None show ?thesis by (cases l) auto
  next
    case (Some g)
    then obtain i c where g: "granted w w' = Some (i, c)" by (cases g) simp
    with granted_out [OF assms] have "w_out w' = c # w_out w" by simp
    with l no g show ?thesis by (cases l) (auto simp: eq_commute)
  qed
qed

lemma effect_given_back:
  assumes "pool_exec cfg e w = Some w'"
  shows "e = EvRelease c \<Longrightarrow> has_effect (LeReturn c) w w' \<or> has_effect (LeDead c) w w'" "e = EvDiscard c \<Longrightarrow> has_effect (LeDead c) w w'"
  using assms by (auto split: if_splits dest!: Pool_Release_out)

lemma leases_grant:
  assumes "winv cfg w" "winv cfg w'" "has_effect (LeGrant c) w w'"
  shows "lease_step (pc_MaxSize cfg) (leases w) (Granted i c) (leases w')"
proof -
  from assms(3) have e: "w_out w' = c # w_out w" "w_closed w' = w_closed w" by auto
  have "int (card (set (w_out w))) < pc_MaxSize cfg"
    using winv_leases(3) [OF assms(2)] winv_leases(1) [OF assms(1)] e by (simp add: distinct_card)
  with winv_leases [OF assms(2)] e lease_step.grant [of c "leases w" "pc_MaxSize cfg" i] show ?thesis
    by (simp add: leases_def)
qed

lemma leases_retire:
  assumes "winv cfg w'" "has_effect (LeRetire cs) w w'"
  shows "lease_step limit (leases w) Internal (leases w')"
  using assms(2) winv_leases(2) [OF assms(1)] lease_step.retire [of "set cs" "leases w" limit] by (auto simp: leases_def)

lemma leases_step:
  assumes "winv cfg w" "pool_exec cfg e w = Some w'"
  shows "lease_step (pc_MaxSize cfg) (leases w) (pool_label e w w') (leases w')"
proof (cases "gives_back e")
  case True
  note d = winv_leases(1) [OF assms(1)]
  from True consider c where "e = EvRelease c" | c where "e = EvDiscard c" by (cases e) auto
  then show ?thesis
  proof cases
    case (1 c)
    with effect_given_back(1) [OF assms(2) 1] d lease_step.give_back [of c "leases w"] lease_step.give_back_late [of c "leases w"]
    show ?thesis by (auto simp: leases_def set_remove1_eq)
  next
    case (2 c)
    with effect_given_back(2) [OF assms(2) 2] d lease_step.throw_away [of c "leases w"] show ?thesis
      by (auto simp: leases_def set_remove1_eq)
  qed
next
  case False
  note inv = winv_step [OF assms]
  have "pool_label e w w' = (case granted w w' of None \<Rightarrow> Internal | Some (i, c) \<Rightarrow> Granted i c)"
    using False by (cases e) auto
  with effect_granted [OF assms(2) False] leases_grant [OF assms(1) inv] leases_retire [OF inv] show ?thesis
    by (auto split: option.splits)
qed

interpretation pl: refinement "pool_exec cfg" "pool_init n fresh_pool" "\<lambda>w. 0 < pc_MaxSize cfg \<longrightarrow> winv cfg w" leases pool_label
    "\<lambda>l x l'. 0 < pc_MaxSize cfg \<longrightarrow> lease_step (pc_MaxSize cfg) l x l'"
  for cfg n
  by unfold_locales (auto intro: leases_step)

lemma traced_mono: "traced P a ls b \<Longrightarrow> (\<And>x l y. P x l y \<Longrightarrow> Q x l y) \<Longrightarrow> traced Q a ls b"
  by (induction rule: traced.induct) (auto intro: traced.intros)


subsection \<open>Properties\<close>

text \<open>
  C7. The pool implements the specification, call by call. Take any run of a new pool, with any interleaving of
  callers, waiters, timeouts, the reaper and \<^verbatim>\<open>Close\<close>, and what the callers see of it, event by event: the
  connections the calls of \<^verbatim>\<open>Acquire\<close> return and the connections given back. It is a trace of the specification
  from no leases to the leases at the end. So at every single event a connection that is returned to a
  caller is one nobody had and that was not closed, with fewer than \<^verbatim>\<open>MaxSize\<close> out; only a call of \<^verbatim>\<open>Release\<close> or
  \<^verbatim>\<open>Discard\<close> ends a lease, and only that one; and no connection is closed under its holder.
\<close>

theorem pool_refines_leases:
  assumes "pool_New cfg = Inr p" "run_steps (pool_exec cfg) es (pool_init n p) = Some w"
  shows "traced (lease_step (pc_MaxSize cfg)) \<lparr>ls_out = {}, ls_dead = {}\<rparr>
           (run_labels (pool_exec cfg) pool_label es (pool_init n p)) (leases w)"
proof -
  have p: "0 < pc_MaxSize cfg" "p = fresh_pool" using assms(1) by (auto simp: pool_New_def split: if_splits)
  have "0 < pc_MaxSize cfg \<longrightarrow> winv cfg (pool_init n fresh_pool)" by (simp add: winv_init)
  from pl.refines_run [OF this assms(2) [unfolded p(2)]]
  have "traced (lease_step (pc_MaxSize cfg)) (leases (pool_init n fresh_pool))
      (run_labels (pool_exec cfg) pool_label es (pool_init n fresh_pool)) (leases w)"
    by (rule traced_mono) (use p(1) in blast)
  moreover have "leases (pool_init n fresh_pool) = \<lparr>ls_out = {}, ls_dead = {}\<rparr>" by (simp add: leases_def pool_init_def)
  ultimately show ?thesis by (simp add: p(2))
qed

theorem pool_refines_leases_witness:
  "\<exists>w. run_steps (pool_exec wit_cfg) [EvAcquire 0, EvTurn 0, EvNew 0 True, EvAcquire 1, EvTurn 1, EvRelease 0, EvRecv 1]
     (pool_init 2 fresh_pool) = Some w \<and>
     traced (lease_step 1) \<lparr>ls_out = {}, ls_dead = {}\<rparr>
       [Internal, Internal, Granted 0 0, Internal, Internal, Returned 0, Granted 1 0] (leases w)"
proof -
  let ?es = "[EvAcquire 0, EvTurn 0, EvNew 0 True, EvAcquire 1, EvTurn 1, EvRelease 0, EvRecv 1]"
  obtain w where w: "run_steps (pool_exec wit_cfg) ?es (pool_init 2 fresh_pool) = Some w"
    by (simp add: pool_run_simps numeral_2_eq_2)
  have l: "run_labels (pool_exec wit_cfg) pool_label ?es (pool_init 2 fresh_pool) =
      [Internal, Internal, Granted 0 0, Internal, Internal, Returned 0, Granted 1 0]"
    by (simp add: pool_run_simps granted_def numeral_2_eq_2)
  have "pool_New wit_cfg = Inr fresh_pool" "pc_MaxSize wit_cfg = 1" by (simp_all add: wit_cfg_def pool_New_def)
  with pool_refines_leases [OF this(1) w] w l show ?thesis by auto
qed

end
