(* ===== verification/Manager.thy ===== *)
theory Manager
  imports Pool
begin

text \<open>
  \<^verbatim>\<open>internal/backend/manager.go\<close>: one pool per user, database and address. A pool is the transition
  system of \<open>Pool\<close>; a call of the manager finds its pool under the manager's mutex and then acts on
  it, and the calls of \<^verbatim>\<open>Acquire\<close> it started go on by the pool's own events (\<open>Manager_step\<close>). A Go map
  is ranged over in an order of its own: \<open>keys\<close> is the order the range took.
\<close>


subsection \<open>Data\<close>

record ManagerPoolConfig =
  mpc_MaxSize :: int
  mpc_MaxWaiters :: int
  mpc_AcquireTimeout :: int
  mpc_IdleTimeout :: int

record poolKey =
  k_user :: string
  k_database :: string
  k_addr :: address

record Manager =
  mg_primary :: address
  mg_users :: "string \<rightharpoonup> string"
  mg_poolCfg :: ManagerPoolConfig
  mg_pools :: "poolKey \<rightharpoonup> pool_world"
  mg_threads :: nat
  mg_orphans :: "conn list"

datatype mgr_err = UnknownUser string | PoolErr string

definition NewManager :: "address \<Rightarrow> (string \<rightharpoonup> string) \<Rightarrow> ManagerPoolConfig \<Rightarrow> nat \<Rightarrow> Manager" where
  "NewManager primary users cfg n =
     \<lparr>mg_primary = primary, mg_users = users, mg_poolCfg = cfg, mg_pools = Map.empty, mg_threads = n,
      mg_orphans = []\<rparr>"

definition pool_config :: "ManagerPoolConfig \<Rightarrow> PoolConfig" where
  "pool_config cfg =
     \<lparr>pc_MaxSize = mpc_MaxSize cfg, pc_MaxWaiters = mpc_MaxWaiters cfg,
      pc_AcquireTimeout = mpc_AcquireTimeout cfg, pc_IdleTimeout = mpc_IdleTimeout cfg,
      pc_New = True, pc_Ping = True\<rparr>"


subsection \<open>Operations\<close>

definition poolFor :: "Manager \<Rightarrow> poolKey \<Rightarrow> (mgr_err + pool_world) \<times> Manager" where
  "poolFor m key =
     (case mg_users m (k_user key) of
        None \<Rightarrow> (Inl (UnknownUser (k_user key)), m)
      | Some _ \<Rightarrow>
          (case mg_pools m key of
             Some p \<Rightarrow> (Inr p, m)
           | None \<Rightarrow>
               (case pool_New (pool_config (mg_poolCfg m)) of
                  Inl e \<Rightarrow> (Inl (PoolErr e), m)
                | Inr p \<Rightarrow>
                    let w = pool_init (mg_threads m) p
                    in (Inr w, m\<lparr>mg_pools := (mg_pools m)(key \<mapsto> w)\<rparr>))))"

definition lookup_pool :: "Manager \<Rightarrow> poolKey \<Rightarrow> pool_world option" where
  "lookup_pool m key = mg_pools m key"

definition set_pool :: "poolKey \<Rightarrow> pool_world \<Rightarrow> Manager \<Rightarrow> Manager" where
  "set_pool key w m = m\<lparr>mg_pools := (mg_pools m)(key \<mapsto> w)\<rparr>"

text \<open>
  \<^verbatim>\<open>AcquireAt\<close>: thread \<open>i\<close> enters the pool's \<^verbatim>\<open>Acquire\<close>; \<open>None\<close> when the thread is not free to call.
\<close>

definition AcquireAt :: "Manager \<Rightarrow> poolKey \<Rightarrow> nat \<Rightarrow> (mgr_err + Manager) option" where
  "AcquireAt m key i =
     (case poolFor m key of
        (Inl e, m1) \<Rightarrow> Some (Inl e)
      | (Inr w, m1) \<Rightarrow>
          (case pool_exec (pool_config (mg_poolCfg m1)) (EvAcquire i) w of
             None \<Rightarrow> None
           | Some w' \<Rightarrow> Some (Inr (set_pool key w' m1))))"

definition Manager_step :: "Manager \<Rightarrow> poolKey \<Rightarrow> pool_event \<Rightarrow> Manager option" where
  "Manager_step m key e =
     (case mg_pools m key of
        None \<Rightarrow> None
      | Some w \<Rightarrow> map_option (\<lambda>w'. set_pool key w' m) (pool_exec (pool_config (mg_poolCfg m)) e w))"

definition ReleaseAt :: "Manager \<Rightarrow> poolKey \<Rightarrow> conn \<Rightarrow> Manager option" where
  "ReleaseAt m key c =
     (case lookup_pool m key of
        Some w \<Rightarrow> map_option (\<lambda>w'. set_pool key w' m) (pool_exec (pool_config (mg_poolCfg m)) (EvRelease c) w)
      | None \<Rightarrow> Some (m\<lparr>mg_orphans := mg_orphans m @ [c]\<rparr>))"

definition DiscardAt :: "Manager \<Rightarrow> poolKey \<Rightarrow> conn \<Rightarrow> Manager option" where
  "DiscardAt m key c =
     (case lookup_pool m key of
        Some w \<Rightarrow> map_option (\<lambda>w'. set_pool key w' m) (pool_exec (pool_config (mg_poolCfg m)) (EvDiscard c) w)
      | None \<Rightarrow> Some (m\<lparr>mg_orphans := mg_orphans m @ [c]\<rparr>))"

definition primary_key :: "Manager \<Rightarrow> string \<Rightarrow> string \<Rightarrow> poolKey" where
  "primary_key m user database = \<lparr>k_user = user, k_database = database, k_addr = mg_primary m\<rparr>"

definition Manager_Acquire :: "Manager \<Rightarrow> string \<Rightarrow> string \<Rightarrow> nat \<Rightarrow> (mgr_err + Manager) option" where
  "Manager_Acquire m user database i = AcquireAt m (primary_key m user database) i"

definition Manager_Release :: "Manager \<Rightarrow> string \<Rightarrow> string \<Rightarrow> conn \<Rightarrow> Manager option" where
  "Manager_Release m user database c = ReleaseAt m (primary_key m user database) c"

definition Manager_Discard :: "Manager \<Rightarrow> string \<Rightarrow> string \<Rightarrow> conn \<Rightarrow> Manager option" where
  "Manager_Discard m user database c = DiscardAt m (primary_key m user database) c"

text \<open>
  \<^verbatim>\<open>Close\<close>: the pools that are to be closed, and the manager without them. Go's order of a map is unspecified: \<open>keys\<close> is the
  order in which the pools are met.
\<close>

definition Manager_Close :: "Manager \<Rightarrow> poolKey list \<Rightarrow> pool_world list \<times> Manager" where
  "Manager_Close m keys =
     (List.map_filter (\<lambda>k. mg_pools m k) keys, m\<lparr>mg_pools := Map.empty\<rparr>)"

record PoolStat =
  ps_Addr :: address
  ps_Idle :: int
  ps_InUse :: int
  ps_Waiters :: int

definition stat_add :: "(address \<rightharpoonup> PoolStat) \<Rightarrow> address \<times> Pool \<Rightarrow> (address \<rightharpoonup> PoolStat)" where
  "stat_add byAddr e =
     (case e of (addr, p) \<Rightarrow>
        let s = Pool_Stats p;
            agg = (case byAddr addr of
                     None \<Rightarrow> \<lparr>ps_Addr = addr, ps_Idle = 0, ps_InUse = 0, ps_Waiters = 0\<rparr>
                   | Some a \<Rightarrow> a)
        in byAddr(addr \<mapsto> agg\<lparr>ps_Idle := ps_Idle agg + st_Idle s, ps_InUse := ps_InUse agg + st_InUse s,
                            ps_Waiters := ps_Waiters agg + st_Waiters s\<rparr>))"

text \<open>\<^verbatim>\<open>StatsByAddr\<close>, as the map it is built from: the result lists its values.\<close>

definition StatsByAddr :: "(poolKey \<times> Pool) list \<Rightarrow> (address \<rightharpoonup> PoolStat)" where
  "StatsByAddr snap = foldl stat_add Map.empty (map (\<lambda>(k, p). (k_addr k, p)) snap)"


subsection \<open>Lemmas\<close>

definition mgr_inv :: "Manager \<Rightarrow> bool" where
  "mgr_inv m \<longleftrightarrow>
     (\<forall>k w. mg_pools m k = Some w \<longrightarrow>
        mg_users m (k_user k) \<noteq> None \<and> pool_reachable (pool_config (mg_poolCfg m)) (mg_threads m) w)"

lemma mgr_inv_New: "mgr_inv (NewManager primary users cfg n)"
  by (simp add: mgr_inv_def NewManager_def)

lemma poolFor_inv:
  assumes "mgr_inv m" "poolFor m key = (r, m1)"
  shows "mgr_inv m1 \<and> (\<forall>k. k \<noteq> key \<longrightarrow> mg_pools m1 k = mg_pools m k) \<and> mg_poolCfg m1 = mg_poolCfg m \<and>
         mg_users m1 = mg_users m \<and> mg_threads m1 = mg_threads m \<and>
         (\<forall>w. r = Inr w \<longrightarrow> mg_pools m1 key = Some w)"
proof -
  have "pool_reachable (pool_config (mg_poolCfg m)) (mg_threads m) (pool_init (mg_threads m) p)"
    if "pool_New (pool_config (mg_poolCfg m)) = Inr p" for p
    using that by (auto simp: pool_reachable_def intro: reach_init)
  with assms show ?thesis
    by (auto simp: poolFor_def mgr_inv_def Let_def split: option.splits sum.splits if_splits)
qed

lemma set_pool_inv:
  assumes "mgr_inv m" "mg_pools m key = Some w" "pool_exec (pool_config (mg_poolCfg m)) e w = Some w'"
  shows "mgr_inv (set_pool key w' m)"
  using assms pool_reachable_step [OF _ assms(3)] by (auto simp: mgr_inv_def set_pool_def split: if_splits)

text \<open>The calls of the manager, as the steps of one transition system.\<close>

datatype mgr_event =
  MAcquire poolKey nat | MStep poolKey pool_event | MRelease poolKey conn | MDiscard poolKey conn
| MClose "poolKey list"

fun mgr_exec :: "mgr_event \<Rightarrow> Manager \<Rightarrow> Manager option" where
  "mgr_exec (MAcquire k i) m =
     (case AcquireAt m k i of None \<Rightarrow> None | Some (Inl e) \<Rightarrow> Some m | Some (Inr m') \<Rightarrow> Some m')"
| "mgr_exec (MStep k e) m = Manager_step m k e"
| "mgr_exec (MRelease k c) m = ReleaseAt m k c"
| "mgr_exec (MDiscard k c) m = DiscardAt m k c"
| "mgr_exec (MClose ks) m = Some (snd (Manager_Close m ks))"

fun mgr_key :: "mgr_event \<Rightarrow> poolKey option" where
  "mgr_key (MAcquire k i) = Some k"
| "mgr_key (MStep k e) = Some k"
| "mgr_key (MRelease k c) = Some k"
| "mgr_key (MDiscard k c) = Some k"
| "mgr_key (MClose ks) = None"

lemma AcquireAt_inv:
  assumes "mgr_inv m" "AcquireAt m key i = Some (Inr m')"
  shows "mgr_inv m' \<and> (\<forall>k. k \<noteq> key \<longrightarrow> mg_pools m' k = mg_pools m k) \<and>
         mg_poolCfg m' = mg_poolCfg m \<and> mg_users m' = mg_users m \<and> mg_threads m' = mg_threads m"
proof -
  obtain w m1 w' where p: "poolFor m key = (Inr w, m1)"
    and w': "pool_exec (pool_config (mg_poolCfg m1)) (EvAcquire i) w = Some w'" and m': "m' = set_pool key w' m1"
    using assms(2) by (auto simp: AcquireAt_def simp del: pool_exec.simps split: prod.splits sum.splits option.splits)
  note k = poolFor_inv [OF assms(1) p]
  have "mgr_inv m'"
    unfolding m' by (rule set_pool_inv [of m1 key w, OF _ _ w']) (use k in auto)
  with k show ?thesis by (auto simp: m' set_pool_def)
qed

lemma mgr_exec_inv:
  assumes "mgr_inv m" "mgr_exec e m = Some m'"
  shows "mgr_inv m' \<and> (\<forall>k. mgr_key e \<notin> {None, Some k} \<longrightarrow> mg_pools m' k = mg_pools m k)
         \<and> mg_poolCfg m' = mg_poolCfg m \<and> mg_users m' = mg_users m \<and> mg_threads m' = mg_threads m"
proof (cases e)
  case (MAcquire k i)
  with assms show ?thesis using AcquireAt_inv [OF assms(1), of k i]
    by (auto split: option.splits sum.splits)
next
  case (MStep k ev)
  with assms show ?thesis
    by (auto simp: Manager_step_def set_pool_def [symmetric] simp del: pool_exec.simps split: option.splits intro: set_pool_inv)
       (auto simp: set_pool_def)
next
  case (MRelease k c)
  with assms show ?thesis
    by (auto simp: ReleaseAt_def lookup_pool_def simp del: pool_exec.simps split: option.splits intro: set_pool_inv)
       (auto simp: set_pool_def mgr_inv_def)
next
  case (MDiscard k c)
  with assms show ?thesis
    by (auto simp: DiscardAt_def lookup_pool_def simp del: pool_exec.simps split: option.splits intro: set_pool_inv)
       (auto simp: set_pool_def mgr_inv_def)
next
  case (MClose ks)
  with assms show ?thesis by (auto simp: Manager_Close_def mgr_inv_def)
qed

interpretation mgr: step_invariant mgr_exec "NewManager primary users cfg n"
  "\<lambda>m. mgr_inv m \<and> mg_poolCfg m = cfg \<and> mg_users m = users \<and> mg_threads m = n" for primary users cfg n
proof
  show "mgr_inv (NewManager primary users cfg n) \<and> mg_poolCfg (NewManager primary users cfg n) = cfg
      \<and> mg_users (NewManager primary users cfg n) = users \<and> mg_threads (NewManager primary users cfg n) = n"
    using mgr_inv_New by (simp add: NewManager_def)
next
  fix m e m'
  assume "mgr_inv m \<and> mg_poolCfg m = cfg \<and> mg_users m = users \<and> mg_threads m = n" "mgr_exec e m = Some m'"
  then show "mgr_inv m' \<and> mg_poolCfg m' = cfg \<and> mg_users m' = users \<and> mg_threads m' = n"
    using mgr_exec_inv by blast
qed


definition addr_stat :: "address \<Rightarrow> (address \<times> Pool) list \<Rightarrow> PoolStat" where
  "addr_stat a es =
     (let ps = map snd (filter (\<lambda>e. fst e = a) es)
      in \<lparr>ps_Addr = a, ps_Idle = (\<Sum>p\<leftarrow>ps. st_Idle (Pool_Stats p)), ps_InUse = (\<Sum>p\<leftarrow>ps. st_InUse (Pool_Stats p)),
          ps_Waiters = (\<Sum>p\<leftarrow>ps. st_Waiters (Pool_Stats p))\<rparr>)"

lemma addr_stat_snoc:
  "addr_stat a (es @ [(b, p)]) =
     (if a = b then (addr_stat a es)\<lparr>ps_Idle := ps_Idle (addr_stat a es) + st_Idle (Pool_Stats p),
                                     ps_InUse := ps_InUse (addr_stat a es) + st_InUse (Pool_Stats p),
                                     ps_Waiters := ps_Waiters (addr_stat a es) + st_Waiters (Pool_Stats p)\<rparr>
      else addr_stat a es)"
  by (simp add: addr_stat_def Let_def)

lemma addr_stat_none:
  "a \<notin> fst ` set es \<Longrightarrow> addr_stat a es = \<lparr>ps_Addr = a, ps_Idle = 0, ps_InUse = 0, ps_Waiters = 0\<rparr>"
proof -
  assume "a \<notin> fst ` set es"
  then have "filter (\<lambda>e. fst e = a) es = []" by (auto simp: filter_empty_conv)
  then show ?thesis by (simp add: addr_stat_def)
qed

lemma foldl_stat_add:
  "foldl stat_add Map.empty es a = (if a \<in> fst ` set es then Some (addr_stat a es) else None)"
proof (induction es arbitrary: a rule: rev_induct)
  case (snoc e es)
  obtain b p where e: "e = (b, p)" by (cases e)
  show ?case
  proof (cases "a = b")
    case True
    then show ?thesis
      by (cases "b \<in> fst ` set es")
         (simp_all add: e stat_add_def [of _ "(b, p)"] snoc addr_stat_snoc addr_stat_none Let_def)
  next
    case False
    then show ?thesis by (simp add: e stat_add_def [of _ "(b, p)"] snoc addr_stat_snoc Let_def)
  qed
qed simp


subsection \<open>Properties\<close>

text \<open>
  The pools of the manager are isolated and bounded: in every state the manager can reach, a pool
  belongs to a configured user and has at most \<^verbatim>\<open>MaxSize\<close> connections open or opening; and a call for
  one user, database and address leaves the pool of every other one exactly as it was.
\<close>

theorem Manager_pools_isolated:
  assumes "reach mgr_exec (NewManager primary users cfg n) m" "mgr_exec e m = Some m'"
    and "mgr_key e = Some k" "k' \<noteq> k" "mg_pools m k' = Some w"
  shows "mg_pools m' k' = Some w \<and> users (k_user k') \<noteq> None \<and>
         int (w_nconns w) - int (length (w_closed w)) + int (tally thread_news (w_threads w)) \<le> mpc_MaxSize cfg"
proof -
  have i: "mgr_inv m" "mg_poolCfg m = cfg" "mg_users m = users"
    using mgr.invar_reach [OF assms(1)] by auto
  then have r: "pool_reachable (pool_config cfg) (mg_threads m) w" "users (k_user k') \<noteq> None"
    using assms(5) by (auto simp: mgr_inv_def)
  have "mg_pools m' k' = mg_pools m k'"
    using mgr_exec_inv [OF i(1) assms(2)] assms(3,4) by auto
  moreover have "int (w_nconns w) - int (length (w_closed w)) + int (tally thread_news (w_threads w)) \<le> mpc_MaxSize cfg"
    using pool_open_bound [OF r(1)] by (simp add: pool_config_def)
  ultimately show ?thesis using r(2) assms(5) by simp
qed

definition wit_key :: "string \<Rightarrow> poolKey" where
  "wit_key db = \<lparr>k_user = ''app'', k_database = db, k_addr = ''p:5432''\<rparr>"

definition wit_manager :: Manager where
  "wit_manager = NewManager ''p:5432'' [''app'' \<mapsto> ''pw'']
     \<lparr>mpc_MaxSize = 2, mpc_MaxWaiters = 0, mpc_AcquireTimeout = 0, mpc_IdleTimeout = 0\<rparr> 1"

lemma Manager_pools_isolated_witness:
  "\<exists>m m' w. reach mgr_exec wit_manager m \<and> mgr_exec (MAcquire (wit_key ''b'') 0) m = Some m' \<and>
            mg_pools m (wit_key ''a'') = Some w \<and> mg_pools m' (wit_key ''a'') = Some w"
proof -
  note defs = wit_manager_def NewManager_def AcquireAt_def poolFor_def pool_New_def pool_config_def wit_key_def
    pool_init_def thread_at_def Let_def
  obtain m1 where m1: "mgr_exec (MAcquire (wit_key ''a'') 0) wit_manager = Some m1"
    by (simp add: defs)
  then have r: "reach mgr_exec wit_manager m1" by (rule reach_step [OF reach_init])
  have "mg_pools m1 (wit_key ''a'') \<noteq> None" using m1 by (auto simp: defs set_pool_def)
  then obtain w where w: "mg_pools m1 (wit_key ''a'') = Some w" by blast
  have "mg_pools m1 (wit_key ''b'') = None" "mg_users m1 = [''app'' \<mapsto> ''pw'']" "mg_threads m1 = 1"
    "mg_poolCfg m1 = \<lparr>mpc_MaxSize = 2, mpc_MaxWaiters = 0, mpc_AcquireTimeout = 0, mpc_IdleTimeout = 0\<rparr>"
    using m1 by (auto simp: defs set_pool_def)
  then obtain m2 where m2: "mgr_exec (MAcquire (wit_key ''b'') 0) m1 = Some m2"
    by (simp add: defs)
  have ne: "wit_key ''a'' \<noteq> wit_key ''b''" by (simp add: wit_key_def)
  from Manager_pools_isolated [OF r [unfolded wit_manager_def] m2 _ ne w] r m2 w show ?thesis by auto
qed

text \<open>
  The figures of the metrics endpoint are the sums: for every address that has a pool,
  \<^verbatim>\<open>StatsByAddr\<close> reports exactly once the sums of the idle connections, the connections in use and the
  waiters over all pools of that address, whatever the order the pools are visited in, and it reports
  no other address.
\<close>

theorem StatsByAddr_sums:
  "StatsByAddr snap a =
     (if a \<in> (\<lambda>(k, p). k_addr k) ` set snap
      then Some (addr_stat a (map (\<lambda>(k, p). (k_addr k, p)) snap)) else None)"
proof -
  have "(fst ` set (map (\<lambda>(k, p). (k_addr k, p)) snap)) = (\<lambda>(k, p). k_addr k) ` set snap" by force
  then show ?thesis unfolding StatsByAddr_def foldl_stat_add by simp
qed

end
