(* ===== verification/Classify.thy ===== *)
theory Classify
  imports Prelude
begin

text \<open>
  \<^verbatim>\<open>internal/classify/classify.go\<close> and \<^verbatim>\<open>internal/detect/detect.go\<close>: the routing class of a query and
  the features that break transaction pooling, both decided on the parse tree. The parser is
  pg_query, a library: it is a parameter, a function from the query text to an error or the
  statements of its tree. The tree is a protobuf message; the code walks it by reflection, field
  after field, so the model keeps messages generic: a kind, scalar fields, and the populated
  message-valued fields, each with its list of messages (one message for a field that is not
  repeated). \<^verbatim>\<open>pg.Node\<close> is the message whose only field is the oneof payload.
\<close>


subsection \<open>Parse trees\<close>

datatype scalar = SStr string | SBool bool | SInt int

datatype proto =
  PNode "proto option"
| PMsg string "(string \<times> scalar) list" "(string \<times> proto list) list"

fun msg_kind :: "proto \<Rightarrow> string" where
  "msg_kind (PMsg k _ _) = k"
| "msg_kind (PNode _) = ''Node''"

text \<open>The getters: \<^verbatim>\<open>n.GetX()\<close> is the payload if it has the kind asked for, nil otherwise.\<close>

fun get_payload :: "string \<Rightarrow> proto \<Rightarrow> proto option" where
  "get_payload k (PNode (Some m)) = (if msg_kind m = k then Some m else None)"
| "get_payload k _ = None"

fun msg_field :: "string \<Rightarrow> proto \<Rightarrow> proto list" where
  "msg_field f (PMsg _ _ fs) = (case map_of fs f of None \<Rightarrow> [] | Some ms \<Rightarrow> ms)"
| "msg_field f (PNode _) = []"

definition msg_single :: "string \<Rightarrow> proto \<Rightarrow> proto option" where
  "msg_single f m = (case msg_field f m of [] \<Rightarrow> None | x # _ \<Rightarrow> Some x)"

fun msg_scalar :: "string \<Rightarrow> proto \<Rightarrow> scalar option" where
  "msg_scalar f (PMsg _ ss _) = map_of ss f"
| "msg_scalar f (PNode _) = None"

definition msg_string :: "string \<Rightarrow> proto \<Rightarrow> string" where
  "msg_string f m = (case msg_scalar f m of Some (SStr s) \<Rightarrow> s | _ \<Rightarrow> [])"

definition msg_bool :: "string \<Rightarrow> proto \<Rightarrow> bool" where
  "msg_bool f m = (case msg_scalar f m of Some (SBool b) \<Rightarrow> b | _ \<Rightarrow> False)"

text \<open>The parser: an error, or the statements (\<open>None\<close> where a raw statement has no tree).\<close>

type_synonym parser = "string \<Rightarrow> string + proto option list"


subsection \<open>The walk\<close>

text \<open>
  \<^verbatim>\<open>walk\<close>, \<^verbatim>\<open>walkChildren\<close> and \<^verbatim>\<open>visitMessage\<close>: depth-first, a visit at every \<^verbatim>\<open>pg.Node\<close>. The state is
  what the visitor's closure changes. \<^verbatim>\<open>Range\<close> goes over the populated fields in an order of its
  own; the model takes that of the list.
\<close>

fun visitMessage :: "('s \<Rightarrow> proto \<Rightarrow> 's) \<Rightarrow> 's \<Rightarrow> proto \<Rightarrow> 's"
  and walkFields :: "('s \<Rightarrow> proto \<Rightarrow> 's) \<Rightarrow> 's \<Rightarrow> (string \<times> proto list) list \<Rightarrow> 's"
  and walkList :: "('s \<Rightarrow> proto \<Rightarrow> 's) \<Rightarrow> 's \<Rightarrow> proto list \<Rightarrow> 's"
where
  "visitMessage visit s (PNode None) = visit s (PNode None)"
| "visitMessage visit s (PNode (Some m)) = visitMessage visit (visit s (PNode (Some m))) m"
| "visitMessage visit s (PMsg k ss fs) = walkFields visit s fs"
| "walkFields visit s [] = s"
| "walkFields visit s ((f, ms) # fs) = walkFields visit (walkList visit s ms) fs"
| "walkList visit s [] = s"
| "walkList visit s (m # ms) = walkList visit (visitMessage visit s m) ms"


subsection \<open>Classification\<close>

datatype Class = Read | Write

fun Class_String :: "Class \<Rightarrow> string" where
  "Class_String Write = ''write''"
| "Class_String Read = ''read''"

definition volatileFuncs :: "string list" where
  "volatileFuncs =
     [''nextval'', ''setval'', ''currval'', ''lastval'', ''random'', ''gen_random_uuid'',
      ''uuid_generate_v4'', ''clock_timestamp'', ''timeofday'', ''pg_sleep'']"

definition isVolatile :: "proto \<Rightarrow> bool" where
  "isVolatile fc =
     (let parts = msg_field ''funcname'' fc
      in if parts = [] then False
         else case get_payload ''String'' (last parts) of
                None \<Rightarrow> False
              | Some s \<Rightarrow> str_to_lower (msg_string ''sval'' s) \<in> set volatileFuncs)"

definition isModifyStmt :: "proto \<Rightarrow> bool" where
  "isModifyStmt n =
     (get_payload ''InsertStmt'' n \<noteq> None \<or> get_payload ''UpdateStmt'' n \<noteq> None \<or>
      get_payload ''DeleteStmt'' n \<noteq> None \<or> get_payload ''MergeStmt'' n \<noteq> None)"

text \<open>The visitor of \<^verbatim>\<open>writesInSubtree\<close>, on its flag \<^verbatim>\<open>found\<close>.\<close>

definition writes_visit :: "bool \<Rightarrow> proto \<Rightarrow> bool" where
  "writes_visit found n =
     (if found then found
      else let found1 = (if isModifyStmt n then True
                         else case get_payload ''SelectStmt'' n of
                                Some sel \<Rightarrow> if 0 < length (msg_field ''locking_clause'' sel) then True else found
                              | None \<Rightarrow> found)
      in case get_payload ''FuncCall'' n of
           Some fc \<Rightarrow> if isVolatile fc then True else found1
         | None \<Rightarrow> found1)"

definition writesInSubtree :: "proto \<Rightarrow> bool" where
  "writesInSubtree root = visitMessage writes_visit False root"

definition explainExecutes :: "proto \<Rightarrow> bool" where
  "explainExecutes ex =
     list_ex (\<lambda>opt. case get_payload ''DefElem'' opt of
                      Some d \<Rightarrow> map lower_char (msg_string ''defname'' d) = ''analyze''
                    | None \<Rightarrow> False) (msg_field ''options'' ex)"

lemma msg_single_size: "msg_single f m = Some q \<Longrightarrow> size q < size m"
proof (cases m)
  case (PMsg k ss fs)
  assume "msg_single f m = Some q"
  then obtain ms where ms: "map_of fs f = Some ms" "q \<in> set ms"
    by (auto simp: msg_single_def PMsg split: option.splits list.splits)
  from ms(1) have "(f, ms) \<in> set fs" by (rule map_of_SomeD)
  then have "size_list (size_prod (\<lambda>_. 0) (size_list size)) fs \<ge> size_prod (\<lambda>_. 0) (size_list size) (f, ms)"
    by (rule size_list_estimation') simp
  moreover have "size_list size ms \<ge> size q" by (rule size_list_estimation' [OF ms(2)]) simp
  ultimately show ?thesis by (simp add: PMsg)
qed (simp add: msg_single_def)

lemma get_payload_size: "get_payload k n = Some m \<Longrightarrow> size m < size n"
  by (cases n rule: get_payload.cases [of "(k, n)" for n, simplified]) (auto split: if_splits)

function classifyStmt :: "proto option \<Rightarrow> Class" where
  "classifyStmt None = Write"
| "classifyStmt (Some n) =
     (case get_payload ''ExplainStmt'' n of
        Some ex \<Rightarrow> if explainExecutes ex then classifyStmt (msg_single ''query'' ex) else Read
      | None \<Rightarrow>
          if isModifyStmt n then Write
          else (case get_payload ''SelectStmt'' n of
                  Some sel \<Rightarrow>
                    if msg_single ''into_clause'' sel \<noteq> None then Write
                    else if writesInSubtree n then Write
                    else Read
                | None \<Rightarrow>
                    if get_payload ''VariableShowStmt'' n \<noteq> None then Read
                    else Write))"
  by pat_completeness auto
termination
proof (relation "measure (\<lambda>n. case n of None \<Rightarrow> 0 | Some m \<Rightarrow> size m)", goal_cases)
  case (2 n ex)
  then show ?case
    using get_payload_size [of "''ExplainStmt''" n ex] msg_single_size [of "''query''" ex]
    by (cases "msg_single ''query'' ex") (fastforce split: option.splits)+
qed simp

declare classifyStmt.simps [simp del]

fun classify_stmts :: "proto option list \<Rightarrow> Class" where
  "classify_stmts [] = Read"
| "classify_stmts (raw # stmts) = (if classifyStmt raw = Write then Write else classify_stmts stmts)"

definition Classify :: "parser \<Rightarrow> string \<Rightarrow> Class" where
  "Classify parse sql =
     (case parse sql of Inl _ \<Rightarrow> Write | Inr stmts \<Rightarrow> classify_stmts stmts)"

text \<open>\<^verbatim>\<open>Fingerprint\<close>: pg_query's fingerprint, empty when there is none.\<close>

definition Fingerprint :: "(string \<Rightarrow> string + string) \<Rightarrow> string \<Rightarrow> string" where
  "Fingerprint fp sql = (case fp sql of Inl _ \<Rightarrow> [] | Inr f \<Rightarrow> f)"


subsection \<open>Detection\<close>

datatype Feature =
  FeaturePreparedStatement | FeatureTempTable | FeatureListenNotify | FeatureSessionGUC | FeatureUnparseable

text \<open>A nil statement has no payload: every getter of \<^verbatim>\<open>breakingStmt\<close> returns nil on it.\<close>

definition getter :: "string \<Rightarrow> proto option \<Rightarrow> proto option" where
  "getter k n = (case n of None \<Rightarrow> None | Some m \<Rightarrow> get_payload k m)"

definition breakingStmt :: "proto option \<Rightarrow> Feature option" where
  "breakingStmt n =
     (if getter ''PrepareStmt'' n \<noteq> None then Some FeaturePreparedStatement
      else if getter ''ListenStmt'' n \<noteq> None \<or> getter ''NotifyStmt'' n \<noteq> None
              \<or> getter ''UnlistenStmt'' n \<noteq> None then Some FeatureListenNotify
      else case getter ''CreateStmt'' n of
        Some c \<Rightarrow>
          (case msg_single ''relation'' c of
             Some r \<Rightarrow> if msg_string ''relpersistence'' r = ''t'' then Some FeatureTempTable else None
           | None \<Rightarrow> None)
      | None \<Rightarrow>
          (case getter ''VariableSetStmt'' n of
             Some v \<Rightarrow> if \<not> msg_bool ''is_local'' v then Some FeatureSessionGUC else None
           | None \<Rightarrow> None))"

fun breaking_stmts :: "proto option list \<Rightarrow> Feature option" where
  "breaking_stmts [] = None"
| "breaking_stmts (raw # stmts) =
     (case breakingStmt raw of Some f \<Rightarrow> Some f | None \<Rightarrow> breaking_stmts stmts)"

definition BreaksTxPooling :: "parser \<Rightarrow> string \<Rightarrow> Feature option" where
  "BreaksTxPooling parse sql =
     (case parse sql of Inl _ \<Rightarrow> Some FeatureUnparseable | Inr stmts \<Rightarrow> breaking_stmts stmts)"



subsection \<open>What the walk finds\<close>

text \<open>A \<^verbatim>\<open>pg.Node\<close> occurs in a tree.\<close>

inductive occurs :: "proto \<Rightarrow> proto \<Rightarrow> bool" where
  occurs_self: "occurs (PNode p) (PNode p)"
| occurs_payload: "occurs n m \<Longrightarrow> occurs n (PNode (Some m))"
| occurs_field: "(f, ms) \<in> set fs \<Longrightarrow> m \<in> set ms \<Longrightarrow> occurs n m \<Longrightarrow> occurs n (PMsg k ss fs)"

inductive_simps occurs_PNode: "occurs n (PNode p)"
inductive_simps occurs_PMsg: "occurs n (PMsg k ss fs)"

text \<open>
  A node that must run on the primary: a data-modifying statement, a \<^verbatim>\<open>SELECT\<close> that locks rows, or a
  call of a volatile function.
\<close>

definition write_node :: "proto \<Rightarrow> bool" where
  "write_node n \<longleftrightarrow>
     isModifyStmt n \<or>
     (\<exists>sel. get_payload ''SelectStmt'' n = Some sel \<and> msg_field ''locking_clause'' sel \<noteq> []) \<or>
     (\<exists>fc. get_payload ''FuncCall'' n = Some fc \<and> isVolatile fc)"

lemma writes_visit_eq: "writes_visit found n = (found \<or> write_node n)"
  by (auto simp: writes_visit_def write_node_def Let_def split: option.splits)

lemma walk_finds:
  "visitMessage writes_visit s m = (s \<or> (\<exists>n. occurs n m \<and> write_node n))"
  "walkFields writes_visit s fs = (s \<or> (\<exists>f ms m n. (f, ms) \<in> set fs \<and> m \<in> set ms \<and> occurs n m \<and> write_node n))"
  "walkList writes_visit s ms = (s \<or> (\<exists>m n. m \<in> set ms \<and> occurs n m \<and> write_node n))"
proof (induction "writes_visit" s m and "writes_visit" s fs and "writes_visit" s ms
    rule: visitMessage_walkFields_walkList.induct)
  case (1 s)
  then show ?case by (auto simp: writes_visit_eq occurs_PNode)
next
  case (2 s m)
  then show ?case by (auto simp: writes_visit_eq occurs_PNode)
next
  case (3 s k ss fs)
  then show ?case by (auto simp: occurs_PMsg)
next
  case (5 s f ms fs)
  then show ?case by auto blast+
next
  case (7 s m ms)
  then show ?case by auto
qed auto

lemma writesInSubtree_iff: "writesInSubtree root \<longleftrightarrow> (\<exists>n. occurs n root \<and> write_node n)"
  by (simp add: writesInSubtree_def walk_finds)

text \<open>
  The statements that may be served by a replica, as the package describes them: a \<^verbatim>\<open>SELECT\<close> without
  \<^verbatim>\<open>INTO\<close> in whose tree nothing must run on the primary, a \<^verbatim>\<open>SHOW\<close>, an \<^verbatim>\<open>EXPLAIN\<close> that only plans, and
  an \<^verbatim>\<open>EXPLAIN ANALYZE\<close> of such a statement.
\<close>

inductive safe_read :: "proto \<Rightarrow> bool" where
  safe_select: "get_payload ''SelectStmt'' n = Some sel \<Longrightarrow> msg_single ''into_clause'' sel = None \<Longrightarrow>
    (\<And>m. occurs m n \<Longrightarrow> \<not> write_node m) \<Longrightarrow> safe_read n"
| safe_show: "get_payload ''VariableShowStmt'' n = Some s \<Longrightarrow> safe_read n"
| safe_plan: "get_payload ''ExplainStmt'' n = Some ex \<Longrightarrow> \<not> explainExecutes ex \<Longrightarrow> safe_read n"
| safe_analyze: "get_payload ''ExplainStmt'' n = Some ex \<Longrightarrow> explainExecutes ex \<Longrightarrow>
    msg_single ''query'' ex = Some q \<Longrightarrow> safe_read q \<Longrightarrow> safe_read n"

lemma get_payload_unique: "get_payload k n = Some m \<Longrightarrow> get_payload k' n = Some m' \<Longrightarrow> k = k'"
  by (cases n rule: get_payload.cases [of "(k, n)" for n, simplified]) (auto split: if_splits)

lemma get_payload_other: "get_payload k n = Some m \<Longrightarrow> k \<noteq> k' \<Longrightarrow> get_payload k' n = None"
  using get_payload_unique by (metis option.exhaust)

lemma isModifyStmt_other:
  "get_payload k n = Some m \<Longrightarrow> k \<notin> {''InsertStmt'', ''UpdateStmt'', ''DeleteStmt'', ''MergeStmt''} \<Longrightarrow>
   \<not> isModifyStmt n"
  by (auto simp: isModifyStmt_def get_payload_other)

lemma safe_read_Read: "safe_read n \<Longrightarrow> classifyStmt (Some n) = Read"
proof (induction rule: safe_read.induct)
  case (safe_select n sel)
  then show ?case
    using isModifyStmt_other [OF safe_select(1)] get_payload_other [OF safe_select(1), of "''ExplainStmt''"]
    by (auto simp: classifyStmt.simps writesInSubtree_iff)
next
  case (safe_show n s)
  then show ?case
    using isModifyStmt_other [OF safe_show] get_payload_other [OF safe_show, of "''ExplainStmt''"]
      get_payload_other [OF safe_show, of "''SelectStmt''"]
    by (simp add: classifyStmt.simps)
qed (simp_all add: classifyStmt.simps)

lemma Read_safe_read: "classifyStmt r = Read \<Longrightarrow> \<exists>n. r = Some n \<and> safe_read n"
proof (induction r rule: classifyStmt.induct)
  case (2 n)
  show ?case
  proof (cases "get_payload ''ExplainStmt'' n")
    case None
    with 2(2) show ?thesis
      by (auto simp: classifyStmt.simps writesInSubtree_iff split: option.splits if_splits
          intro: safe_select safe_show)
  next
    case (Some ex)
    with 2 show ?thesis
      by (auto simp: classifyStmt.simps(2) [of n] split: if_splits intro: safe_plan safe_analyze)
  qed
qed (simp add: classifyStmt.simps)

lemma classifyStmt_Read_iff: "classifyStmt r = Read \<longleftrightarrow> (case r of None \<Rightarrow> False | Some n \<Rightarrow> safe_read n)"
  using safe_read_Read Read_safe_read by (cases r) (auto simp: classifyStmt.simps(1))

lemma classify_stmts_Read_iff:
  "classify_stmts stmts = Read \<longleftrightarrow> list_all (\<lambda>r. case r of None \<Rightarrow> False | Some n \<Rightarrow> safe_read n) stmts"
  by (induction stmts) (auto simp flip: classifyStmt_Read_iff intro: Class.exhaust)

lemma safe_read_not_breaking: "safe_read n \<Longrightarrow> breakingStmt (Some n) = None"
proof -
  assume "safe_read n"
  then obtain k m where "get_payload k n = Some m" "k \<in> {''SelectStmt'', ''VariableShowStmt'', ''ExplainStmt''}"
    by cases auto
  then have "get_payload k' n = None" if "k' \<notin> {''SelectStmt'', ''VariableShowStmt'', ''ExplainStmt''}" for k'
    using that by (metis get_payload_other)
  then show ?thesis by (simp add: breakingStmt_def getter_def)
qed



subsection \<open>Properties\<close>


text \<open>
  C21. Routing asks the detector about writes only, and decides as if it asked about every query: whether a
  query pins its session, which \<^verbatim>\<open>serveRouting\<close> computes only for a query classified as a write, is what
  \<^verbatim>\<open>BreaksTxPooling\<close> answers for it. So the detector never answers that a query classified as a read breaks
  pooling. (What the detector itself overlooks, such as \<^verbatim>\<open>SELECT set_config(...)\<close>, it overlooks in both.)
\<close>

theorem detector_asked_for_writes_only:
  "(if Classify parse sql = Write then BreaksTxPooling parse sql \<noteq> None else False) \<longleftrightarrow> BreaksTxPooling parse sql \<noteq> None"
proof (cases "Classify parse sql")
  case Read
  then obtain stmts where s: "parse sql = Inr stmts" "classify_stmts stmts = Read"
    by (auto simp: Classify_def split: sum.splits)
  from s(2) have "list_all (\<lambda>r. case r of None \<Rightarrow> False | Some n \<Rightarrow> safe_read n) stmts"
    by (simp only: classify_stmts_Read_iff)
  then have "breaking_stmts stmts = None"
    by (induction stmts) (auto simp: safe_read_not_breaking split: option.splits)
  with s(1) Read show ?thesis by (simp add: BreaksTxPooling_def)
qed simp

text \<open>Trees the witnesses and the two results below are about.\<close>

definition str_node :: "string \<Rightarrow> proto" where
  "str_node s = PNode (Some (PMsg ''String'' [(''sval'', SStr s)] []))"

definition call_node :: "string \<Rightarrow> proto" where
  "call_node f = PNode (Some (PMsg ''FuncCall'' [] [(''funcname'', [str_node f])]))"

definition select_node :: "proto list \<Rightarrow> proto" where
  "select_node targets =
     PNode (Some (PMsg ''SelectStmt'' []
       [(''target_list'', map (\<lambda>t. PNode (Some (PMsg ''ResTarget'' [] [(''val'', [t])]))) targets)]))"

lemmas tree_simps = str_node_def call_node_def select_node_def Classify_def classifyStmt.simps
  isModifyStmt_def msg_single_def writesInSubtree_def writes_visit_def isVolatile_def msg_string_def
  BreaksTxPooling_def breakingStmt_def getter_def

text \<open>
  \<open>into_arm into m m'\<close>: \<open>m'\<close> is the \<^verbatim>\<open>SELECT\<close> \<open>m\<close> with the \<^verbatim>\<open>INTO\<close> clause \<open>into\<close> put on one of the arms of its set
  operation, directly or on an arm of that arm. Arms are messages of their own, not \<^verbatim>\<open>pg.Node\<close>s.
\<close>

inductive into_arm :: "proto \<Rightarrow> proto \<Rightarrow> proto \<Rightarrow> bool" for into where
  on_arm: "f \<in> {''larg'', ''rarg''} \<Longrightarrow>
    into_arm into (PMsg k ss (xs @ (f, [PMsg ''SelectStmt'' as fs]) # ys))
      (PMsg k ss (xs @ (f, [PMsg ''SelectStmt'' as ((''into_clause'', [into]) # fs)]) # ys))"
| in_arm: "f \<in> {''larg'', ''rarg''} \<Longrightarrow> into_arm into m m' \<Longrightarrow>
    into_arm into (PMsg k ss (xs @ (f, [m]) # ys)) (PMsg k ss (xs @ (f, [m']) # ys))"

lemma occurs_fields: "occurs n (PMsg k ss fs) \<longleftrightarrow> (\<exists>x \<in> set fs. \<exists>m \<in> set (snd x). occurs n m)"
  by (force simp: occurs_PMsg)

lemma into_arm_occurs: "into_arm into m m' \<Longrightarrow> occurs n m' \<longleftrightarrow> occurs n m \<or> occurs n into"
  by (induction rule: into_arm.induct) (simp_all add: occurs_fields bex_Un, blast+)

lemma msg_field_other: "g \<noteq> f \<Longrightarrow> msg_field g (PMsg k ss (xs @ (f, v) # ys)) = msg_field g (PMsg k ss (xs @ (f, u) # ys))"
  by (simp add: map_add_def split: option.split)

lemma into_arm_top:
  assumes "into_arm into m m'"
  shows "msg_kind m' = msg_kind m" "g \<notin> {''larg'', ''rarg''} \<Longrightarrow> msg_field g m' = msg_field g m"
proof -
  from assms show "msg_kind m' = msg_kind m" by cases simp_all
  show "msg_field g m' = msg_field g m" if g: "g \<notin> {''larg'', ''rarg''}"
    using assms by cases (use g msg_field_other in metis)+
qed

text \<open>
  C34. An \<^verbatim>\<open>INTO\<close> clause on an arm of a set operation is invisible to the classifier, so \<^verbatim>\<open>SELECT ... INTO t ... UNION
  SELECT ...\<close>, which creates a table, is classified like the same query without it. Postgres' raw tree has the
  clause on the leftmost arm (\<^verbatim>\<open>larg\<close>); the classifier looks for it on the statement itself only, where it makes
  the query a write, and the walk does not look for it. This holds for any arm at any depth of any query, as
  long as the clause itself contains nothing else that makes a write.
\<close>

theorem Classify_misses_into_in_set_operation:
  assumes "into_arm into (PMsg ''SelectStmt'' ss fs) sel'" "\<And>n. occurs n into \<Longrightarrow> \<not> write_node n"
    and "parse sql = Inr (before @ Some (PNode (Some (PMsg ''SelectStmt'' ss fs))) # after)"
    and "parse' sql = Inr (before @ Some (PNode (Some sel')) # after)"
  shows "Classify parse' sql = Classify parse sql \<and>
         Classify (\<lambda>_. Inr [Some (PNode (Some (PMsg ''SelectStmt'' ss ((''into_clause'', [into]) # fs))))]) sql = Write"
proof -
  let ?n = "PNode (Some (PMsg ''SelectStmt'' ss fs))" and ?n' = "PNode (Some sel')"
  note same = into_arm_top [OF assms(1)]
  have pay: "get_payload k ?n = (if k = ''SelectStmt'' then Some (PMsg ''SelectStmt'' ss fs) else None)"
    "get_payload k ?n' = (if k = ''SelectStmt'' then Some sel' else None)" for k
    using same(1) by auto
  have "write_node ?n' \<longleftrightarrow> write_node ?n"
    using same(2) [of "''locking_clause''"] by (simp add: write_node_def isModifyStmt_def pay del: get_payload.simps msg_field.simps)
  then have "(\<exists>n. occurs n ?n' \<and> write_node n) \<longleftrightarrow> (\<exists>n. occurs n ?n \<and> write_node n)"
    using into_arm_occurs [OF assms(1)] assms(2) by (auto simp: occurs_PNode)
  then have "writesInSubtree ?n' = writesInSubtree ?n" by (simp only: writesInSubtree_iff)
  moreover have "msg_single ''into_clause'' sel' = msg_single ''into_clause'' (PMsg ''SelectStmt'' ss fs)"
    using same(2) [of "''into_clause''"] by (simp add: msg_single_def del: msg_field.simps)
  ultimately have c: "classifyStmt (Some ?n') = classifyStmt (Some ?n)"
    by (simp add: classifyStmt.simps pay isModifyStmt_def del: get_payload.simps)
  have "classify_stmts (before @ Some ?n' # after) = classify_stmts (before @ Some ?n # after)"
    by (induction before) (simp_all add: c)
  with assms(3,4) show ?thesis by (simp add: Classify_def classifyStmt.simps isModifyStmt_def msg_single_def)
qed

theorem Classify_misses_into_in_set_operation_witness:
  "Classify (\<lambda>_. Inr [Some (PNode (Some (PMsg ''SelectStmt'' [(''op'', SStr ''SETOP_UNION'')]
       [(''larg'', [PMsg ''SelectStmt'' [] [(''into_clause'', [PMsg ''IntoClause'' []
               [(''rel'', [PMsg ''RangeVar'' [(''relname'', SStr ''newt'')] []])]])]]),
        (''rarg'', [PMsg ''SelectStmt'' [] []])])))]) ''SELECT INTO newt UNION SELECT'' = Read"
proof -
  let ?into = "PMsg ''IntoClause'' [] [(''rel'', [PMsg ''RangeVar'' [(''relname'', SStr ''newt'')] []])]"
  let ?ss = "[(''op'', SStr ''SETOP_UNION'')]" and ?fs = "[(''larg'', [PMsg ''SelectStmt'' [] []]), (''rarg'', [PMsg ''SelectStmt'' [] []])]"
  have "into_arm ?into (PMsg ''SelectStmt'' ?ss ([] @ (''larg'', [PMsg ''SelectStmt'' [] []]) # [(''rarg'', [PMsg ''SelectStmt'' [] []])]))
     (PMsg ''SelectStmt'' ?ss ([] @ (''larg'', [PMsg ''SelectStmt'' [] ((''into_clause'', [?into]) # [])]) # [(''rarg'', [PMsg ''SelectStmt'' [] []])]))"
    by (rule on_arm) simp
  then have i: "into_arm ?into (PMsg ''SelectStmt'' ?ss ?fs)
     (PMsg ''SelectStmt'' ?ss [(''larg'', [PMsg ''SelectStmt'' [] [(''into_clause'', [?into])]]), (''rarg'', [PMsg ''SelectStmt'' [] []])])"
    by simp
  have "\<not> occurs n ?into" for n by (auto simp: occurs_PMsg)
  with Classify_misses_into_in_set_operation [OF i, where before = "[]" and after = "[]"
      and parse = "\<lambda>_. Inr [Some (PNode (Some (PMsg ''SelectStmt'' ?ss ?fs)))]" and sql = "''SELECT INTO newt UNION SELECT''" and
      parse' = "\<lambda>_. Inr [Some (PNode (Some (PMsg ''SelectStmt'' ?ss
        [(''larg'', [PMsg ''SelectStmt'' [] [(''into_clause'', [?into])]]), (''rarg'', [PMsg ''SelectStmt'' [] []])])))]"]
  show ?thesis by (simp add: tree_simps)
qed

text \<open>
  The detector does not see every statement that leaves session state on the connection: a
  \<^verbatim>\<open>CREATE TEMP TABLE ... AS\<close> (a \<^verbatim>\<open>CreateTableAsStmt\<close>) and a \<^verbatim>\<open>SELECT set_config(...)\<close> are both reported as
  safe to pool, and the latter is even routed as a read.
\<close>

theorem BreaksTxPooling_misses_session_state:
  "BreaksTxPooling (\<lambda>_. Inr [Some (PNode (Some (PMsg ''CreateTableAsStmt'' []
       [(''into'', [PMsg ''IntoClause'' []
           [(''rel'', [PMsg ''RangeVar'' [(''relpersistence'', SStr ''t'')] []])]])])))]) sql = None \<and>
   BreaksTxPooling (\<lambda>_. Inr [Some (select_node [call_node ''set_config''])]) sql = None \<and>
   Classify (\<lambda>_. Inr [Some (select_node [call_node ''set_config''])]) sql = Read"
  by (simp add: tree_simps volatileFuncs_def lower_char_def)

end
