(* ===== verification/Crypto.thy ===== *)
theory Crypto
  imports Prelude
begin

text \<open>
  The parts of Go's standard library that \<^verbatim>\<open>internal/scram\<close> computes with: \<^verbatim>\<open>crypto/sha256\<close> (FIPS
  180-4), \<^verbatim>\<open>crypto/hmac\<close> over it (RFC 2104), \<^verbatim>\<open>encoding/base64\<close> with and without padding, and
  \<^verbatim>\<open>strconv.Itoa\<close> and \<^verbatim>\<open>strconv.Atoi\<close>. What the protocol proofs need of them: a digest has 32 bytes,
  the encodings have no comma, and decoding gives back what was encoded.
\<close>


subsection \<open>SHA-256\<close>

text \<open>
  The constants as the standard derives them: the first 32 bits of the fractional parts of the cube
  roots of the first 64 primes, and of the square roots of the first eight. \<open>iroot k n b 0\<close> is the
  greatest number of \<open>b\<close> bits whose \<open>k\<close>-th power is at most \<open>n\<close>, found bit by bit.
\<close>

fun iroot :: "nat \<Rightarrow> nat \<Rightarrow> nat \<Rightarrow> nat \<Rightarrow> nat" where
  "iroot k n 0 r = r"
| "iroot k n (Suc b) r = (if (r + 2 ^ b) ^ k \<le> n then iroot k n b (r + 2 ^ b) else iroot k n b r)"

definition root_fraction :: "nat \<Rightarrow> nat \<Rightarrow> uint32" where
  "root_fraction k p = of_nat (iroot k (p * 2 ^ (32 * k)) 36 0)"

definition small_primes :: "nat \<Rightarrow> nat list" where
  "small_primes n = filter (\<lambda>p. list_all (\<lambda>d. \<not> d dvd p) [2..<p]) [2..<n]"

definition sha_K :: "uint32 list" where
  "sha_K = map (root_fraction 3) (small_primes 312)"

definition sha_H0 :: "uint32 list" where
  "sha_H0 = map (root_fraction 2) [2, 3, 5, 7, 11, 13, 17, 19]"

definition sha_pad :: "byte list \<Rightarrow> byte list" where
  "sha_pad m =
     (let n = length m; z = (119 - n mod 64) mod 64
      in m @ [0x80] @ replicate z 0 @ uint32_be (of_nat (8 * n div 2 ^ 32)) @ uint32_be (of_nat (8 * n)))"

fun chunks :: "nat \<Rightarrow> 'a list \<Rightarrow> 'a list list" where
  "chunks k xs = (if k = 0 \<or> xs = [] then [] else take k xs # chunks k (drop k xs))"

declare chunks.simps [simp del]

text \<open>The message schedule, built from the last sixteen words, the newest first.\<close>

definition sha_next :: "uint32 list \<Rightarrow> uint32" where
  "sha_next ws =
     (let w15 = ws ! 14; w2 = ws ! 1;
          s0 = word_rotr 7 w15 XOR word_rotr 18 w15 XOR drop_bit 3 w15;
          s1 = word_rotr 17 w2 XOR word_rotr 19 w2 XOR drop_bit 10 w2
      in ws ! 15 + s0 + ws ! 6 + s1)"

fun sha_schedule :: "nat \<Rightarrow> uint32 list \<Rightarrow> uint32 list" where
  "sha_schedule 0 ws = rev ws"
| "sha_schedule (Suc n) ws = sha_schedule n (sha_next ws # ws)"

fun sha_round :: "uint32 list \<Rightarrow> uint32 \<times> uint32 \<Rightarrow> uint32 list" where
  "sha_round [a, b, c, d, e, f, g, h] (k, w) =
     (let s1 = word_rotr 6 e XOR word_rotr 11 e XOR word_rotr 25 e;
          ch = (e AND f) XOR (NOT e AND g);
          t1 = h + s1 + ch + k + w;
          s0 = word_rotr 2 a XOR word_rotr 13 a XOR word_rotr 22 a;
          maj = (a AND b) XOR (a AND c) XOR (b AND c);
          t2 = s0 + maj
      in [t1 + t2, a, b, c, d + t1, e, f, g])"
| "sha_round st _ = st"

definition sha_block :: "uint32 list \<Rightarrow> byte list \<Rightarrow> uint32 list" where
  "sha_block hs blk =
     (let ws = sha_schedule 48 (rev (map be_uint32_list (chunks 4 blk)))
      in map2 (+) hs (foldl sha_round hs (zip sha_K ws)))"

definition sha256 :: "byte list \<Rightarrow> byte list" where
  "sha256 m = concat (map uint32_be (foldl sha_block sha_H0 (chunks 64 (sha_pad m))))"

lemma length_sha_round [simp]: "length (sha_round st kw) = length st"
  by (cases "(st, kw)" rule: sha_round.cases) (simp_all add: Let_def)

lemma length_foldl_sha_round [simp]: "length (foldl sha_round st kws) = length st"
  by (induction kws arbitrary: st) simp_all

lemma length_sha_blocks [simp]: "length (foldl sha_block hs blks) = length hs"
  by (induction blks arbitrary: hs) (simp_all add: sha_block_def Let_def)

lemma length_concat_be: "length (concat (map uint32_be ws)) = 4 * length ws"
  by (induction ws) (simp_all add: uint32_be_def)

lemma length_sha256 [simp]: "length (sha256 m) = 32"
  by (simp add: sha256_def length_concat_be sha_H0_def)


subsection \<open>HMAC\<close>

definition hmac_sha256 :: "byte list \<Rightarrow> byte list \<Rightarrow> byte list" where
  "hmac_sha256 key msg =
     (let k = (if 64 < length key then sha256 key else key);
          k = k @ replicate (64 - length k) 0
      in sha256 (map (\<lambda>b. b XOR 0x5c) k @ sha256 (map (\<lambda>b. b XOR 0x36) k @ msg)))"

lemma length_hmac [simp]: "length (hmac_sha256 key msg) = 32"
  by (simp add: hmac_sha256_def Let_def)


subsection \<open>Base64\<close>

definition b64_alphabet :: string where
  "b64_alphabet = ''ABCDEFGHIJKLMNOPQRSTUVWXYZabcdefghijklmnopqrstuvwxyz0123456789+/''"

definition b64_char :: "nat \<Rightarrow> char" where
  "b64_char n = b64_alphabet ! n"

fun b64_find :: "string \<Rightarrow> char \<Rightarrow> nat \<Rightarrow> nat option" where
  "b64_find [] c i = None"
| "b64_find (x # xs) c i = (if x = c then Some i else b64_find xs c (Suc i))"

definition b64_val :: "char \<Rightarrow> nat option" where
  "b64_val c = b64_find b64_alphabet c 0"

text \<open>\<^verbatim>\<open>StdEncoding\<close> pads the last group with \<^verbatim>\<open>=\<close>, \<^verbatim>\<open>RawStdEncoding\<close> does not.\<close>

fun b64_encode :: "bool \<Rightarrow> byte list \<Rightarrow> string" where
  "b64_encode pad [] = []"
| "b64_encode pad [a] =
     (let n = unat a in [b64_char (n div 4), b64_char (n mod 4 * 16)] @ (if pad then ''=='' else []))"
| "b64_encode pad [a, b] =
     (let n = unat a; m = unat b
      in [b64_char (n div 4), b64_char (n mod 4 * 16 + m div 16), b64_char (m mod 16 * 4)]
         @ (if pad then ''='' else []))"
| "b64_encode pad (a # b # c # rest) =
     (let n = unat a; m = unat b; k = unat c
      in [b64_char (n div 4), b64_char (n mod 4 * 16 + m div 16), b64_char (m mod 16 * 4 + k div 64),
          b64_char (k mod 64)] @ b64_encode pad rest)"

abbreviation EncodeToString :: "byte list \<Rightarrow> string" where
  "EncodeToString \<equiv> b64_encode True"

abbreviation RawEncodeToString :: "byte list \<Rightarrow> string" where
  "RawEncodeToString \<equiv> b64_encode False"

text \<open>
  \<^verbatim>\<open>StdEncoding.DecodeString\<close>: line breaks are skipped; groups of four digits; padding only in the
  last group. The bits a padded group leaves over are not checked.
\<close>

fun b64_decode_groups :: "string \<Rightarrow> byte list option" where
  "b64_decode_groups [] = Some []"
| "b64_decode_groups (a # b # c # d # rest) =
     (case (b64_val a, b64_val b) of
        (Some x, Some y) \<Rightarrow>
          if c = CHR ''='' then
            (if d = CHR ''='' \<and> rest = [] then Some [of_nat (x * 4 + y div 16)] else None)
          else (case b64_val c of
                  None \<Rightarrow> None
                | Some z \<Rightarrow>
                    if d = CHR ''='' then
                      (if rest = [] then Some [of_nat (x * 4 + y div 16), of_nat (y mod 16 * 16 + z div 4)] else None)
                    else (case b64_val d of
                            None \<Rightarrow> None
                          | Some u \<Rightarrow>
                              (case b64_decode_groups rest of
                                 None \<Rightarrow> None
                               | Some bs \<Rightarrow>
                                   Some (of_nat (x * 4 + y div 16) # of_nat (y mod 16 * 16 + z div 4)
                                         # of_nat (z mod 4 * 64 + u) # bs))))
      | _ \<Rightarrow> None)"
| "b64_decode_groups _ = None"

definition DecodeString :: "string \<Rightarrow> byte list option" where
  "DecodeString s = b64_decode_groups (filter (\<lambda>c. c \<noteq> CHR 0x0A \<and> c \<noteq> CHR 0x0D) s)"


lemma b64_find_nth: "distinct xs \<Longrightarrow> i < length xs \<Longrightarrow> b64_find xs (xs ! i) k = Some (k + i)"
proof (induction xs arbitrary: i k)
  case (Cons x xs)
  show ?case
  proof (cases i)
    case (Suc j)
    then have "j < length xs" "x \<noteq> xs ! j" using Cons.prems by auto
    with Cons Suc show ?thesis by simp
  qed simp
qed simp

lemma distinct_b64: "distinct b64_alphabet"
  by (simp add: b64_alphabet_def)

lemma length_b64: "length b64_alphabet = 64"
  by (simp add: b64_alphabet_def)

lemma b64_val_char [simp]: "n < 64 \<Longrightarrow> b64_val (b64_char n) = Some n"
  using b64_find_nth [OF distinct_b64, of n 0] by (simp add: b64_val_def b64_char_def length_b64)

lemma b64_alphabet_plain: "{CHR ''='', CHR '','', CHR 0x0A, CHR 0x0D} \<inter> set b64_alphabet = {}"
  by (simp add: b64_alphabet_def)

lemma b64_char_plain: "n < 64 \<Longrightarrow> b64_char n \<notin> {CHR ''='', CHR '','', CHR 0x0A, CHR 0x0D}"
  using b64_alphabet_plain nth_mem [of n b64_alphabet] unfolding b64_char_def length_b64 by blast

lemma byte_split: "unat (b :: byte) < 256"
  using unsigned_less [of b, where 'a = nat] by simp

lemma b64_indices:
  fixes n m k :: nat
  assumes "n < 256" "m < 256" "k < 256"
  shows "n div 4 < 64" "n mod 4 * 16 < 64" "n mod 4 * 16 + m div 16 < 64" "m mod 16 * 4 < 64"
    "m mod 16 * 4 + k div 64 < 64" "k mod 64 < 64"
  using assms by (auto simp: less_mult_imp_div_less)

lemma b64_encode_plain:
  "c \<in> set (b64_encode pad bs) \<Longrightarrow> c \<noteq> CHR '','' \<and> c \<noteq> CHR 0x0A \<and> c \<noteq> CHR 0x0D"
proof (induction pad bs rule: b64_encode.induct)
  case (2 pad a)
  then show ?case
    using b64_indices [of "unat a" "unat a" "unat a", OF byte_split byte_split byte_split] b64_char_plain
    by (auto simp: Let_def split: if_splits)
next
  case (3 pad a b)
  then show ?case
    using b64_indices [of "unat a" "unat b" "unat b", OF byte_split byte_split byte_split] b64_char_plain
    by (auto simp: Let_def split: if_splits)
next
  case (4 pad a b c rest)
  then show ?case
    using b64_indices [of "unat a" "unat b" "unat c", OF byte_split byte_split byte_split] b64_char_plain
    by (auto simp: Let_def split: if_splits)
qed simp

lemma b64_byte1: "(of_nat (unat (a :: byte) div 4 * 4 + (unat a mod 4 * 16 + m div 16) div 16) :: byte) = a"
  if "m < 256"
proof -
  have "unat a div 4 * 4 + (unat a mod 4 * 16 + m div 16) div 16 = unat a"
    using that by (simp add: div_mult2_eq [symmetric])
  then show ?thesis by simp
qed

lemma b64_byte2:
  "(of_nat ((n mod 4 * 16 + unat (b :: byte) div 16) mod 16 * 16 + (unat b mod 16 * 4 + k div 64) div 4) :: byte) = b"
  if "k < 256" for n
proof -
  have "(n mod 4 * 16 + unat b div 16) mod 16 * 16 + (unat b mod 16 * 4 + k div 64) div 4 = unat b"
    using that byte_split [of b] by (simp add: div_mult2_eq [symmetric] less_mult_imp_div_less)
  then show ?thesis by simp
qed

lemma b64_byte3: "(of_nat ((m mod 16 * 4 + unat (c :: byte) div 64) mod 4 * 64 + unat c mod 64) :: byte) = c"
proof -
  have "(m mod 16 * 4 + unat c div 64) mod 4 * 64 + unat c mod 64 = unat c"
    using byte_split [of c] by (simp add: mod_add_left_eq [symmetric] less_mult_imp_div_less)
  then show ?thesis by simp
qed

lemma b64_decode_encode: "b64_decode_groups (b64_encode True bs) = Some bs"
proof (induction "True" bs rule: b64_encode.induct)
  case (2 a)
  then show ?case
    using b64_indices [of "unat a" "unat a" "unat a", OF byte_split byte_split byte_split] b64_byte1 [of 0 a]
    by (simp add: Let_def)
next
  case (3 a b)
  then show ?case
    using b64_indices [of "unat a" "unat b" "unat b", OF byte_split byte_split byte_split] b64_char_plain
      b64_byte1 [of "unat b" a, OF byte_split] b64_byte2 [of 0 "unat a" b]
    by (auto simp: Let_def)
next
  case (4 a b c rest)
  then show ?case
    using b64_indices [of "unat a" "unat b" "unat c", OF byte_split byte_split byte_split] b64_char_plain
      b64_byte1 [of "unat b" a, OF byte_split] b64_byte2 [of "unat c" "unat a" b, OF byte_split] b64_byte3 [of "unat b" c]
    by (auto simp: Let_def)
qed simp

theorem DecodeString_EncodeToString: "DecodeString (EncodeToString bs) = Some bs"
proof -
  have "filter (\<lambda>c. c \<noteq> CHR 0x0A \<and> c \<noteq> CHR 0x0D) (EncodeToString bs) = EncodeToString bs"
    using b64_encode_plain by (intro filter_True) blast
  then show ?thesis by (simp add: DecodeString_def b64_decode_encode)
qed

lemma EncodeToString_no_comma: "CHR '','' \<notin> set (b64_encode pad bs)"
  using b64_encode_plain by blast


subsection \<open>Decimal numbers\<close>

fun Itoa_nat :: "nat \<Rightarrow> string" where
  "Itoa_nat n = (if n < 10 then [char_of (48 + n)] else Itoa_nat (n div 10) @ [char_of (48 + n mod 10)])"

declare Itoa_nat.simps [simp del]

definition Itoa :: "int \<Rightarrow> string" where
  "Itoa i = (if i < 0 then CHR ''-'' # Itoa_nat (nat (- i)) else Itoa_nat (nat i))"

fun parse_dec :: "nat \<Rightarrow> string \<Rightarrow> nat option" where
  "parse_dec n [] = Some n"
| "parse_dec n (c # cs) =
     (if 48 \<le> (of_char c :: nat) \<and> (of_char c :: nat) \<le> 57
      then parse_dec (n * 10 + (of_char c - 48)) cs else None)"

text \<open>\<^verbatim>\<open>strconv.Atoi\<close>: a sign, at least one digit, and the range of a 64-bit int.\<close>

definition Atoi :: "string \<Rightarrow> int option" where
  "Atoi s =
     (let neg = (take 1 s = ''-''); t = (if take 1 s = ''-'' \<or> take 1 s = ''+'' then drop 1 s else s)
      in if t = [] then None
         else case parse_dec 0 t of
                None \<Rightarrow> None
              | Some n \<Rightarrow> let i = (if neg then - int n else int n)
                          in if - (2 ^ 63) \<le> i \<and> i < 2 ^ 63 then Some i else None)"

lemma parse_dec_append:
  "parse_dec n (xs @ ys) = (case parse_dec n xs of None \<Rightarrow> None | Some m \<Rightarrow> parse_dec m ys)"
  by (induction xs arbitrary: n) auto

lemma of_char_digit: "d < 10 \<Longrightarrow> (of_char (char_of (48 + d) :: char) :: nat) = 48 + d"
  by simp

lemma parse_Itoa_nat: "parse_dec 0 (Itoa_nat n) = Some n"
proof (induction n rule: Itoa_nat.induct)
  case (1 n)
  show ?case
  proof (cases "n < 10")
    case True
    then show ?thesis using of_char_digit [of n] by (simp add: Itoa_nat.simps [of n])
  next
    case False
    with 1 of_char_digit [of "n mod 10"] show ?thesis
      by (simp add: Itoa_nat.simps [of n] parse_dec_append)
  qed
qed

lemma Itoa_nat_digits: "c \<in> set (Itoa_nat n) \<Longrightarrow> 48 \<le> (of_char c :: nat) \<and> (of_char c :: nat) \<le> 57"
proof (induction n rule: Itoa_nat.induct)
  case (1 n)
  then show ?case
    using of_char_digit [of n] of_char_digit [of "n mod 10"]
    by (subst (asm) (2) Itoa_nat.simps) (auto split: if_splits)
qed

lemma Itoa_nat_not_Nil: "Itoa_nat n \<noteq> []"
  by (subst Itoa_nat.simps) simp

lemma Atoi_Itoa: "0 \<le> i \<Longrightarrow> i < 2 ^ 63 \<Longrightarrow> Atoi (Itoa i) = Some i"
proof -
  assume i: "0 \<le> i" "i < 2 ^ 63"
  obtain c cs where cs: "Itoa_nat (nat i) = c # cs" using Itoa_nat_not_Nil by (meson neq_Nil_conv)
  have "c \<noteq> CHR ''-''" "c \<noteq> CHR ''+''" using Itoa_nat_digits [of c "nat i"] cs by auto
  then show ?thesis
    using parse_Itoa_nat [of "nat i"] i by (simp add: Atoi_def Itoa_def cs Let_def)
qed

lemma Itoa_no_comma: "0 \<le> i \<Longrightarrow> CHR '','' \<notin> set (Itoa i)"
  using Itoa_nat_digits [of "CHR '',''" "nat i"] by (auto simp: Itoa_def)

end
