(* ===== verification/GoDuration.thy ===== *)
theory GoDuration
  imports Floats Crypto
begin

text \<open>
  \<^verbatim>\<open>time.Duration\<close> of Go's standard library, as far as \<^verbatim>\<open>internal/config\<close> and the benchmark report use it: \<^verbatim>\<open>Duration.String\<close>,
  \<^verbatim>\<open>Duration.Round\<close> and \<^verbatim>\<open>time.ParseDuration\<close>. A duration is an \<open>int\<close> of nanoseconds, the \<^verbatim>\<open>uint64\<close> values of the two functions are
  \<open>nat\<close> with the bounds and the wrap-around written out. The theory shows that every 64-bit duration is read
  back from what it is printed as, which for a fraction of a second goes through \<^verbatim>\<open>float64\<close>.
\<close>


subsection \<open>Printing\<close>

text \<open>\<^verbatim>\<open>fmtFrac\<close>: the digits from the right, without trailing zeros; the rest of the value is returned.\<close>

fun fmtFrac :: "nat \<Rightarrow> nat \<Rightarrow> bool \<Rightarrow> string \<Rightarrow> string \<times> nat" where
  "fmtFrac 0 v pr buf = (if pr then CHR ''.'' # buf else buf, v)"
| "fmtFrac (Suc i) v pr buf =
     (let digit = v mod 10; pr' = (pr \<or> digit \<noteq> 0)
      in fmtFrac i (v div 10) pr' (if pr' then char_of (48 + digit) # buf else buf))"

definition micro :: string where
  "micro = [CHR 0xC2, CHR 0xB5]"

definition fmtDuration :: "nat \<Rightarrow> string" where
  "fmtDuration u =
     (if u < 10 ^ 9 then
        if u = 0 then ''0s''
        else let (prec, unit) = (if u < 10 ^ 3 then (0, ''ns'') else if u < 10 ^ 6 then (3, micro @ ''s'') else (6, ''ms''));
                 (frac, v) = fmtFrac prec u False []
             in Itoa_nat v @ frac @ unit
      else let (frac, secs) = fmtFrac 9 u False [];
               mins = secs div 60; hours = mins div 60
           in (if 0 < mins then (if 0 < hours then Itoa_nat hours @ ''h'' else []) @ Itoa_nat (mins mod 60) @ ''m'' else []) @
              Itoa_nat (secs mod 60) @ frac @ ''s'')"

definition Duration_String :: "int \<Rightarrow> string" where
  "Duration_String d = (if d < 0 then CHR ''-'' # fmtDuration (nat (- d)) else fmtDuration (nat d))"

text \<open>\<^verbatim>\<open>Duration.Round\<close>: to the nearest multiple of \<open>m\<close>, halves away from zero, with the ends of the range on overflow.\<close>

definition Duration_Round :: "int \<Rightarrow> int \<Rightarrow> int" where
  "Duration_Round d m =
     (if m \<le> 0 then d
      else let r = \<bar>d\<bar> mod m
           in if d < 0
              then (if r + r < m then d + r
                    else let d1 = signed_take_bit 63 (d - m + r) in if d1 < d then d1 else - (2 ^ 63))
              else (if r + r < m then d - r
                    else let d1 = signed_take_bit 63 (d + m - r) in if d < d1 then d1 else 2 ^ 63 - 1))"


subsection \<open>Parsing\<close>

definition digit_nat :: "char \<Rightarrow> nat" where
  "digit_nat c = of_char c - 48"

fun leadingInt :: "nat \<Rightarrow> string \<Rightarrow> (nat \<times> string) option" where
  "leadingInt x [] = Some (x, [])"
| "leadingInt x (c # cs) =
     (if \<not> is_digit c then Some (x, c # cs)
      else if 2 ^ 63 div 10 < x then None
      else let y = x * 10 + digit_nat c
           in if 2 ^ 63 < y then None else leadingInt y cs)"

fun leadingFraction :: "nat \<Rightarrow> f64 \<Rightarrow> bool \<Rightarrow> string \<Rightarrow> nat \<times> f64 \<times> string" where
  "leadingFraction x scale ovf [] = (x, scale, [])"
| "leadingFraction x scale ovf (c # cs) =
     (if \<not> is_digit c then (x, scale, c # cs)
      else if ovf \<or> (2 ^ 63 - 1) div 10 < x then leadingFraction x scale True cs
      else let y = x * 10 + digit_nat c
           in if 2 ^ 63 < y then leadingFraction x scale True cs
              else leadingFraction y (f64_mul scale (Fin 10)) ovf cs)"

definition unitMap :: "string \<Rightarrow> nat option" where
  "unitMap = map_of
     [(''ns'', 1), (''us'', 10 ^ 3), (micro @ ''s'', 10 ^ 3), ([CHR 0xCE, CHR 0xBC] @ ''s'', 10 ^ 3), (''ms'', 10 ^ 6),
      (''s'', 10 ^ 9), (''m'', 60 * 10 ^ 9), (''h'', 3600 * 10 ^ 9)]"

definition unit_char :: "char \<Rightarrow> bool" where
  "unit_char c \<longleftrightarrow> c \<noteq> CHR ''.'' \<and> \<not> is_digit c"

text \<open>
  One turn of the loop, in its parts: the optional fraction (and whether it had digits), then the unit and
  the value in nanoseconds, with the rest of the string.
\<close>

definition parse_fraction :: "string \<Rightarrow> nat \<times> f64 \<times> string \<times> bool" where
  "parse_fraction s =
     (if s \<noteq> [] \<and> hd s = CHR ''.''
      then (case leadingFraction 0 (Fin 1) False (tl s) of (f, scale, s1) \<Rightarrow> (f, scale, s1, length (tl s) \<noteq> length s1))
      else (0, Fin 1, s, False))"

definition parse_unit :: "nat \<Rightarrow> nat \<Rightarrow> f64 \<Rightarrow> string \<Rightarrow> (nat \<times> string) option" where
  "parse_unit v f scale s =
     (let u = takeWhile unit_char s
      in if u = [] then None
         else case unitMap u of
                None \<Rightarrow> None
              | Some unit \<Rightarrow>
                  if 2 ^ 63 div unit < v then None
                  else if f = 0 then Some (v * unit, dropWhile unit_char s)
                  else let v1 = v * unit + nat (go_int (f64_mul (f64_of_int (int f)) (f64_div (f64_of_int (int unit)) scale)))
                       in if 2 ^ 63 < v1 then None else Some (v1, dropWhile unit_char s))"

definition parse_part :: "string \<Rightarrow> (nat \<times> string) option" where
  "parse_part s =
     (if \<not> (hd s = CHR ''.'' \<or> is_digit (hd s)) then None
      else case leadingInt 0 s of
             None \<Rightarrow> None
           | Some (v, s1) \<Rightarrow>
               (case parse_fraction s1 of
                  (f, scale, s2, post) \<Rightarrow> if length s = length s1 \<and> \<not> post then None else parse_unit v f scale s2))"

lemma leadingInt_length: "leadingInt x s = Some (v, s') \<Longrightarrow> length s' \<le> length s"
  by (induction x s rule: leadingInt.induct) (auto simp: Let_def split: if_splits)

lemma leadingFraction_length: "leadingFraction x scale ovf s = (f, sc, s') \<Longrightarrow> length s' \<le> length s"
  by (induction x scale ovf s rule: leadingFraction.induct) (auto simp: Let_def split: if_splits)

lemma parse_fraction_length: "parse_fraction s = (f, sc, s', post) \<Longrightarrow> length s' \<le> length s"
  by (auto simp: parse_fraction_def split: if_splits prod.splits dest!: leadingFraction_length)

lemma parse_unit_length:
  assumes "parse_unit v f scale s = Some (v', s')"
  shows "length s' < length s"
proof -
  have s': "takeWhile unit_char s \<noteq> []" "s' = dropWhile unit_char s"
    using assms by (auto simp: parse_unit_def Let_def split: if_splits option.splits)
  have "length s = length (takeWhile unit_char s) + length s'"
    by (metis s'(2) length_append takeWhile_dropWhile_id)
  with s'(1) show ?thesis by (cases "takeWhile unit_char s") auto
qed

lemma parse_part_length: "parse_part s = Some (v, s') \<Longrightarrow> length s' < length s"
  by (auto simp: parse_part_def split: if_splits option.splits prod.splits
      dest!: leadingInt_length parse_fraction_length parse_unit_length)

function parse_parts :: "string \<Rightarrow> nat \<Rightarrow> nat option" where
  "parse_parts s d =
     (if s = [] then Some d
      else case parse_part s of
             None \<Rightarrow> None
           | Some (v, s1) \<Rightarrow>
               let d1 = (d + v) mod 2 ^ 64
               in if 2 ^ 63 < d1 then None else parse_parts s1 d1)"
  by pat_completeness auto
termination
  by (relation "measure (\<lambda>(s, d). length s)") (auto dest: parse_part_length)

declare parse_parts.simps [simp del]

definition ParseDuration :: "string \<Rightarrow> int option" where
  "ParseDuration s =
     (let neg = (take 1 s = ''-'');
          t = (if take 1 s = ''-'' \<or> take 1 s = ''+'' then tl s else s)
      in if t = ''0'' then Some 0
         else if t = [] then None
         else case parse_parts t 0 of
                None \<Rightarrow> None
              | Some d \<Rightarrow>
                  if neg then Some (signed_take_bit 63 (- int d))
                  else if 2 ^ 63 - 1 < d then None else Some (int d))"


subsection \<open>What is printed is read\<close>

text \<open>The value of a string of digits, read after a value \<open>x\<close>.\<close>

definition dec_val :: "nat \<Rightarrow> string \<Rightarrow> nat" where
  "dec_val x ds = foldl (\<lambda>x c. x * 10 + digit_nat c) x ds"

lemma dec_simps [simp]: "dec_val x [] = x" "dec_val x (c # ds) = dec_val (x * 10 + digit_nat c) ds"
  by (simp_all add: dec_val_def)

lemma dec_append [simp]: "dec_val x (ds @ es) = dec_val (dec_val x ds) es"
  by (simp add: dec_val_def)

lemma dec_ge: "x * 10 ^ length ds \<le> dec_val x ds"
proof (induction ds arbitrary: x)
  case (Cons c ds)
  have "x * 10 ^ length (c # ds) \<le> (x * 10 + digit_nat c) * 10 ^ length ds" by (simp add: algebra_simps)
  also have "\<dots> \<le> dec_val x (c # ds)" using Cons.IH by simp
  finally show ?case .
qed simp

lemma dec_mono: "x \<le> dec_val x ds"
proof -
  have "x * 1 \<le> x * 10 ^ length ds" by (intro mult_left_mono) simp_all
  with dec_ge [of x ds] show ?thesis by linarith
qed

lemma digit_char: "d < 10 \<Longrightarrow> is_digit (char_of (48 + d)) \<and> digit_nat (char_of (48 + d)) = d"
  by (simp add: is_digit_def digit_nat_def)

lemma digit_nat_le: "is_digit c \<Longrightarrow> digit_nat c \<le> 9"
  by (auto simp: is_digit_def digit_nat_def)

lemma parse_dec_dec: "parse_dec x ds = Some n \<Longrightarrow> list_all is_digit ds \<and> dec_val x ds = n"
  by (induction ds arbitrary: x) (auto simp: is_digit_def digit_nat_def split: if_splits)

lemma Itoa_nat_dec: "list_all is_digit (Itoa_nat n)" "dec_val 0 (Itoa_nat n) = n"
  using parse_dec_dec [OF parse_Itoa_nat] by simp_all

lemma leadingInt_digits:
  assumes "list_all is_digit ds" "rest = [] \<or> \<not> is_digit (hd rest)" "dec_val x ds \<le> 2 ^ 63"
  shows "leadingInt x (ds @ rest) = Some (dec_val x ds, rest)"
  using assms
proof (induction ds arbitrary: x)
  case Nil
  then show ?case by (cases rest) auto
next
  case (Cons c ds)
  have y: "x * 10 + digit_nat c \<le> 2 ^ 63" using dec_mono [of "x * 10 + digit_nat c" ds] Cons.prems(3) by simp
  with Cons show ?case by (simp add: Let_def)
qed

lemma f64_power10:
  assumes "k \<le> 15"
  shows "f64_of_int (10 ^ k) = Fin (10 ^ k)"
proof -
  have "(10 :: int) ^ k \<le> 10 ^ 15" using assms by (rule power_increasing) simp
  then show ?thesis by (subst f64_of_int_exact) simp_all
qed

lemma leadingFraction_digits:
  assumes "list_all is_digit ds" "rest = [] \<or> \<not> is_digit (hd rest)" "x < 10 ^ k" "k + length ds \<le> 15"
  shows "leadingFraction x (Fin (10 ^ k)) False (ds @ rest) = (dec_val x ds, Fin (10 ^ (k + length ds)), rest)"
  using assms
proof (induction ds arbitrary: x k)
  case Nil
  then show ?case by (cases rest) auto
next
  case (Cons c ds)
  have k: "(10 :: nat) ^ k \<le> 10 ^ 14" using Cons.prems(4) by (intro power_increasing) simp_all
  have y: "x * 10 + digit_nat c < 10 ^ Suc k" using Cons.prems(1,3) digit_nat_le [of c] by simp
  have "f64_mul (Fin (10 ^ k)) (Fin 10) = f64_of_int (10 ^ Suc k)" by (simp add: f64_of_int_def mult.commute)
  also have "\<dots> = Fin (10 ^ Suc k)" using Cons.prems(4) by (intro f64_power10) simp
  finally have m: "f64_mul (Fin (10 ^ k)) (Fin 10) = Fin (10 ^ Suc k)" .
  have "leadingFraction x (Fin (10 ^ k)) False ((c # ds) @ rest) =
      leadingFraction (x * 10 + digit_nat c) (Fin (10 ^ Suc k)) False (ds @ rest)"
    using Cons.prems(1,3) k y m by (simp add: Let_def del: f64_mul.simps)
  then show ?case using Cons.IH [OF _ Cons.prems(2) y] Cons.prems(1,4) by simp
qed

text \<open>What \<open>fmtFrac\<close> prints of a fraction \<open>r\<close> of \<open>10 ^ prec\<close>.\<close>

definition frac_text :: "nat \<Rightarrow> nat \<Rightarrow> string \<Rightarrow> bool" where
  "frac_text prec r fs \<longleftrightarrow>
     (fs = [] \<and> r = 0) \<or>
     (\<exists>ds. fs = CHR ''.'' # ds \<and> list_all is_digit ds \<and> 0 < length ds \<and> length ds \<le> prec \<and> 0 < dec_val 0 ds \<and>
           dec_val 0 ds * 10 ^ (prec - length ds) = r)"

lemma mod_Suc10: "v mod 10 ^ Suc i = 10 * (v div 10 mod 10 ^ i) + v mod (10 :: nat)" "v div 10 div 10 ^ i = v div 10 ^ Suc (i :: nat)"
  by (simp_all add: mod_mult2_eq div_mult2_eq)

lemma fmtFrac_printing:
  "\<exists>ds. fmtFrac i v True buf = (CHR ''.'' # ds @ buf, v div 10 ^ i) \<and> list_all is_digit ds \<and> length ds = i \<and>
        dec_val 0 ds = v mod 10 ^ i"
proof (induction i arbitrary: v buf)
  case (Suc i)
  have c: "is_digit (char_of (48 + v mod 10))" "digit_nat (char_of (48 + v mod 10)) = v mod 10"
    using digit_char [of "v mod 10"] by simp_all
  from Suc [of "v div 10" "char_of (48 + v mod 10) # buf"] obtain ds where
    "fmtFrac i (v div 10) True (char_of (48 + v mod 10) # buf) = (CHR ''.'' # ds @ char_of (48 + v mod 10) # buf, v div 10 div 10 ^ i)"
    "list_all is_digit ds" "length ds = i" "dec_val 0 ds = v div 10 mod 10 ^ i" by blast
  with c show ?case
    by (intro exI [of _ "ds @ [char_of (48 + v mod 10)]"]) (simp add: Let_def mod_Suc10 del: power_Suc)
qed simp

lemma fmtFrac_text: "\<exists>fs. fmtFrac i v False [] = (fs, v div 10 ^ i) \<and> frac_text i (v mod 10 ^ i) fs"
proof (induction i arbitrary: v)
  case 0
  then show ?case by (simp add: frac_text_def)
next
  case (Suc i)
  show ?case
  proof (cases "v mod 10 = 0")
    case True
    from Suc [of "v div 10"] obtain fs where
      fs: "fmtFrac i (v div 10) False [] = (fs, v div 10 div 10 ^ i)" "frac_text i (v div 10 mod 10 ^ i) fs" by blast
    have "frac_text (Suc i) (v mod 10 ^ Suc i) fs"
      using fs(2) True by (auto simp: frac_text_def mod_Suc10 Suc_diff_le simp del: power_Suc)
        (simp_all add: mult.left_commute)
    with fs True show ?thesis by (simp add: Let_def mod_Suc10 del: power_Suc)
  next
    case False
    from fmtFrac_printing [of i "v div 10" "[char_of (48 + v mod 10)]"] obtain ds where
      ds: "fmtFrac i (v div 10) True [char_of (48 + v mod 10)] = (CHR ''.'' # ds @ [char_of (48 + v mod 10)], v div 10 div 10 ^ i)"
      "list_all is_digit ds" "length ds = i" "dec_val 0 ds = v div 10 mod 10 ^ i" by blast
    with False digit_char [of "v mod 10"] have "frac_text (Suc i) (v mod 10 ^ Suc i) (CHR ''.'' # ds @ [char_of (48 + v mod 10)])"
      by (auto simp: frac_text_def mod_Suc10 simp del: power_Suc)
    with ds False show ?thesis by (simp add: Let_def mod_Suc10 del: power_Suc)
  qed
qed

text \<open>The fraction survives the multiplication in floats.\<close>

lemma fraction_value:
  assumes "length ds \<le> prec" "prec \<le> 9" "dec_val 0 ds * 10 ^ (prec - length ds) < 10 ^ 9"
  shows "go_int (f64_mul (f64_of_int (int (dec_val 0 ds))) (f64_div (f64_of_int (10 ^ prec)) (Fin (10 ^ length ds)))) =
         int (dec_val 0 ds * 10 ^ (prec - length ds))"
proof -
  let ?e = "prec - length ds" and ?f = "dec_val 0 ds"
  have "?f < 10 ^ 9" using assms(3) by (metis le_less_trans mult.right_neutral mult_le_mono2 one_le_numeral one_le_power)
  then have f: "f64_of_int (int ?f) = Fin (of_int (int ?f))" by (intro f64_of_int_exact) simp_all
  have "(10 :: rat) ^ prec / 10 ^ length ds = 10 ^ ?e" using assms(1) by (simp add: power_diff)
  then have "f64_div (Fin (10 ^ prec)) (Fin (10 ^ length ds)) = f64_of_int (10 ^ ?e)"
    by (simp add: f64_of_int_def)
  also have "\<dots> = Fin (10 ^ ?e)" using assms(2) by (intro f64_power10) simp
  finally have d: "f64_div (Fin (10 ^ prec)) (Fin (10 ^ length ds)) = Fin (10 ^ ?e)" .
  have "int (?f * 10 ^ ?e) < 10 ^ 9" using assms(3) by (metis of_nat_less_iff of_nat_numeral of_nat_power)
  then have r: "0 \<le> int (?f * 10 ^ ?e)" "int (?f * 10 ^ ?e) < 2 ^ 53" by simp_all
  have "f64_mul (Fin (of_int (int ?f))) (Fin (10 ^ ?e)) = f64_of_int (int (?f * 10 ^ ?e))" by (simp add: f64_of_int_def)
  also have "\<dots> = Fin (of_int (int (?f * 10 ^ ?e)))" using r by (rule f64_of_int_exact)
  finally have m: "f64_mul (Fin (of_int (int ?f))) (Fin (10 ^ ?e)) = Fin (of_int (int (?f * 10 ^ ?e)))" .
  have "go_int (Fin (of_int n)) = n" if "0 \<le> n" "n < 2 ^ 53" for n using that by (simp add: go_int_def rat_trunc_def)
  from this [OF r] show ?thesis using assms(2) by (simp only: f f64_power10 [of prec] d m)
qed

definition ends_part :: "string \<Rightarrow> bool" where
  "ends_part rest \<longleftrightarrow> rest = [] \<or> is_digit (hd rest)"

lemma take_unit:
  assumes "list_all unit_char un" "ends_part rest"
  shows "takeWhile unit_char (un @ rest) = un" "dropWhile unit_char (un @ rest) = rest"
proof -
  have "rest = [] \<or> \<not> unit_char (hd rest)" using assms(2) by (auto simp: ends_part_def unit_char_def)
  with assms(1) show "takeWhile unit_char (un @ rest) = un" "dropWhile unit_char (un @ rest) = rest"
    by (cases rest; simp add: takeWhile_append dropWhile_append list_all_iff)+
qed

lemma parse_unit_text:
  assumes "list_all unit_char un" "un \<noteq> []" "unitMap un = Some unit" "0 < unit" "ends_part rest" "v * unit + r \<le> 2 ^ 63"
    and "f = 0 \<and> r = 0 \<or> 0 < f \<and> go_int (f64_mul (f64_of_int (int f)) (f64_div (f64_of_int (int unit)) scale)) = int r"
  shows "parse_unit v f scale (un @ rest) = Some (v * unit + r, rest)"
proof -
  have "v \<le> 2 ^ 63 div unit" using assms(4,6) by (simp add: less_eq_div_iff_mult_less_eq)
  with assms show ?thesis by (auto simp: parse_unit_def take_unit Let_def)
qed

lemma hd_unit: "list_all unit_char un \<Longrightarrow> un \<noteq> [] \<Longrightarrow> un @ rest \<noteq> [] \<and> \<not> is_digit (hd (un @ rest)) \<and> hd (un @ rest) \<noteq> CHR ''.''"
  by (cases un) (auto simp: unit_char_def)

text \<open>A printed number with its fraction and its unit is one part.\<close>

lemma parse_part_text:
  assumes un: "list_all unit_char un" "un \<noteq> []" "unitMap un = Some unit" "0 < unit" and rest: "ends_part rest"
    and le: "v * unit + r \<le> 2 ^ 63" and fs: "fs = [] \<and> r = 0 \<or> unit = 10 ^ prec \<and> prec \<le> 9 \<and> r < 10 ^ 9 \<and> frac_text prec r fs"
  shows "parse_part (Itoa_nat v @ fs @ un @ rest) = Some (v * unit + r, rest)"
proof -
  note hu = hd_unit [OF un(1,2), of rest]
  have "v * 1 \<le> v * unit" using un(4) by (intro mult_left_mono) simp_all
  then have v: "v \<le> 2 ^ 63" using le by linarith
  have "fs @ un @ rest = [] \<or> \<not> is_digit (hd (fs @ un @ rest))"
    using fs hu by (auto simp: frac_text_def is_digit_def)
  then have int: "leadingInt 0 (Itoa_nat v @ fs @ un @ rest) = Some (v, fs @ un @ rest)"
    using leadingInt_digits [OF Itoa_nat_dec(1) [of v], of "fs @ un @ rest" 0] v by (simp add: Itoa_nat_dec)
  have hd: "is_digit (hd (Itoa_nat v @ fs @ un @ rest))"
    using Itoa_nat_dec(1) [of v] Itoa_nat_not_Nil [of v] by (cases "Itoa_nat v") auto
  have "\<exists>f scale post. parse_fraction (fs @ un @ rest) = (f, scale, un @ rest, post) \<and>
      (f = 0 \<and> r = 0 \<or> 0 < f \<and> go_int (f64_mul (f64_of_int (int f)) (f64_div (f64_of_int (int unit)) scale)) = int r)"
  proof (cases "fs = []")
    case True
    with fs hu show ?thesis by (auto simp: parse_fraction_def frac_text_def)
  next
    case False
    with fs obtain ds where ds: "fs = CHR ''.'' # ds" "list_all is_digit ds" "length ds \<le> prec" "0 < dec_val 0 ds"
      "dec_val 0 ds * 10 ^ (prec - length ds) = r" and u: "unit = 10 ^ prec" "prec \<le> 9" "r < 10 ^ 9"
      by (auto simp: frac_text_def)
    have "leadingFraction 0 (Fin 1) False (ds @ un @ rest) = (dec_val 0 ds, Fin (10 ^ length ds), un @ rest)"
      using leadingFraction_digits [OF ds(2), of "un @ rest" 0 0] hu ds(3) u(2) by simp
    then have "parse_fraction (fs @ un @ rest) = (dec_val 0 ds, Fin (10 ^ length ds), un @ rest, length (ds @ un @ rest) \<noteq> length (un @ rest))"
      by (simp add: parse_fraction_def ds(1))
    moreover have "go_int (f64_mul (f64_of_int (int (dec_val 0 ds))) (f64_div (f64_of_int (int unit)) (Fin (10 ^ length ds)))) = int r"
      using fraction_value [OF ds(3) u(2)] ds(5) u(1,3) by simp
    ultimately show ?thesis using ds(4) by blast
  qed
  then obtain f scale post where f: "parse_fraction (fs @ un @ rest) = (f, scale, un @ rest, post)"
    "f = 0 \<and> r = 0 \<or> 0 < f \<and> go_int (f64_mul (f64_of_int (int f)) (f64_div (f64_of_int (int unit)) scale)) = int r"
    by blast
  from parse_unit_text [OF un rest le f(2)] int hd f(1) Itoa_nat_not_Nil [of v] show ?thesis
    by (simp add: parse_part_def)
qed

lemma parse_parts_step:
  assumes "parse_part s = Some (v, s1)" "d + v \<le> 2 ^ 63" "s \<noteq> []"
  shows "parse_parts s d = parse_parts s1 (d + v)"
  using assms by (subst parse_parts.simps) (simp add: Let_def)

text \<open>One part is printed, and the rest is read from there.\<close>

lemma parse_parts_text:
  assumes "list_all unit_char un" "un \<noteq> []" "unitMap un = Some unit" "0 < unit" "ends_part rest"
    and "d + (v * unit + r) \<le> 2 ^ 63"
    and "fs = [] \<and> r = 0 \<or> unit = 10 ^ prec \<and> prec \<le> 9 \<and> r < 10 ^ 9 \<and> frac_text prec r fs"
  shows "parse_parts (Itoa_nat v @ fs @ un @ rest) d = parse_parts rest (d + (v * unit + r))"
  using parse_parts_step [OF parse_part_text [OF assms(1-5) _ assms(7), of v]] assms(6) Itoa_nat_not_Nil [of v] by simp

lemma units:
  "unitMap ''ns'' = Some 1" "unitMap (micro @ ''s'') = Some (10 ^ 3)" "unitMap ''ms'' = Some (10 ^ 6)"
  "unitMap ''s'' = Some (10 ^ 9)" "unitMap ''m'' = Some (60 * 10 ^ 9)" "unitMap ''h'' = Some (3600 * 10 ^ 9)"
  by (simp_all add: unitMap_def micro_def)

lemma unit_chars:
  "list_all unit_char ''ns''" "list_all unit_char (micro @ ''s'')" "list_all unit_char ''ms''"
  "list_all unit_char ''s''" "list_all unit_char ''m''" "list_all unit_char ''h''"
  by (simp_all add: unit_char_def micro_def is_digit_def)

lemma ends_part_Itoa: "ends_part (Itoa_nat v @ s)"
  using Itoa_nat_dec(1) [of v] Itoa_nat_not_Nil [of v] by (cases "Itoa_nat v") (auto simp: ends_part_def)

lemma parse_parts_Nil [simp]: "parse_parts [] d = Some d"
  by (simp add: parse_parts.simps)

text \<open>Below a second there is one part, in the unit that keeps the number above one.\<close>

lemma parse_small:
  assumes "0 < u" "u < 10 ^ 9"
  shows "parse_parts (fmtDuration u) 0 = Some u"
proof -
  have part: "parse_parts (Itoa_nat v @ fs @ un) 0 = Some u"
    if "fmtFrac prec u False [] = (fs, v)" "prec \<le> 9" "list_all unit_char un" "un \<noteq> []" "unitMap un = Some (10 ^ prec)"
    for prec fs v un
  proof -
    from fmtFrac_text [of prec u] that(1) have t: "frac_text prec (u mod 10 ^ prec) fs" "v = u div 10 ^ prec" by auto
    have u: "v * 10 ^ prec + u mod 10 ^ prec = u" unfolding t(2) by (rule div_mult_mod_eq)
    have "u mod 10 ^ prec \<le> u" by simp
    then have "u mod 10 ^ prec < 10 ^ 9" using assms(2) by linarith
    with parse_parts_text [OF that(3-5) _ _ , of "[]" 0 v "u mod 10 ^ prec" fs prec] t(1) that(2) u assms(2)
    show ?thesis by (simp add: ends_part_def)
  qed
  show ?thesis
    using assms unit_chars units part [of 0] part [of 3] part [of 6]
    by (auto simp: fmtDuration_def Let_def micro_def split: prod.splits)
qed

lemma parse_large:
  assumes "10 ^ 9 \<le> u" "u \<le> 2 ^ 63"
  shows "parse_parts (fmtDuration u) 0 = Some u"
proof -
  define secs where "secs = u div 10 ^ 9"
  define mins where "mins = secs div 60"
  define hours where "hours = mins div 60"
  define r where "r = u mod 10 ^ 9"
  obtain fs where fs: "fmtFrac 9 u False [] = (fs, secs)" "frac_text 9 r fs"
    using fmtFrac_text [of 9 u] by (auto simp: secs_def r_def)
  have r: "r < 10 ^ 9" by (simp add: r_def)
  have s60: "secs = 60 * mins + secs mod 60" "mins = 60 * hours + mins mod 60" by (simp_all add: mins_def hours_def)
  have u: "u = 10 ^ 9 * secs + r" by (simp add: secs_def r_def)
  have S: "parse_parts (Itoa_nat (secs mod 60) @ fs @ ''s'') d = Some u" if "d + ((secs mod 60) * 10 ^ 9 + r) = u" for d
    using parse_parts_text [OF unit_chars(4) _ units(4), of "[]" d "secs mod 60" r fs 9] fs(2) r that assms(2)
    by (simp add: ends_part_def)
  have M: "parse_parts (Itoa_nat (mins mod 60) @ ''m'' @ Itoa_nat (secs mod 60) @ fs @ ''s'') d = Some u"
    if d: "d + (mins mod 60) * (60 * 10 ^ 9) + ((secs mod 60) * 10 ^ 9 + r) = u" for d
  proof -
    have "parse_parts (Itoa_nat (mins mod 60) @ [] @ ''m'' @ Itoa_nat (secs mod 60) @ fs @ ''s'') d =
        parse_parts (Itoa_nat (secs mod 60) @ fs @ ''s'') (d + ((mins mod 60) * (60 * 10 ^ 9) + 0))"
      using d assms(2) by (intro parse_parts_text [OF unit_chars(5) _ units(5) _ ends_part_Itoa]) auto
    then show ?thesis using S d by simp
  qed
  have d: "hours * (3600 * 10 ^ 9) + (mins mod 60) * (60 * 10 ^ 9) + ((secs mod 60) * 10 ^ 9 + r) = u"
    using u s60 by simp
  have H: "parse_parts (Itoa_nat hours @ ''h'' @ Itoa_nat (mins mod 60) @ ''m'' @ Itoa_nat (secs mod 60) @ fs @ ''s'') 0 = Some u"
  proof -
    have "parse_parts (Itoa_nat hours @ [] @ ''h'' @ Itoa_nat (mins mod 60) @ ''m'' @ Itoa_nat (secs mod 60) @ fs @ ''s'') 0 =
        parse_parts (Itoa_nat (mins mod 60) @ ''m'' @ Itoa_nat (secs mod 60) @ fs @ ''s'') (0 + (hours * (3600 * 10 ^ 9) + 0))"
      using d assms(2) by (intro parse_parts_text [OF unit_chars(6) _ units(6) _ ends_part_Itoa]) auto
    then show ?thesis using M d by simp
  qed
  have fmt: "fmtDuration u = (if 0 < mins then (if 0 < hours then Itoa_nat hours @ ''h'' else []) @ Itoa_nat (mins mod 60) @ ''m'' else []) @
      Itoa_nat (secs mod 60) @ fs @ ''s''"
    using assms(1) fs(1) by (simp add: fmtDuration_def mins_def hours_def Let_def)
  show ?thesis
  proof (cases "0 < mins \<and> 0 < hours")
    case True
    then show ?thesis using H by (simp add: fmt)
  next
    case False
    then have h: "hours = 0" by (auto simp: hours_def)
    with d have "0 + (mins mod 60) * (60 * 10 ^ 9) + ((secs mod 60) * 10 ^ 9 + r) = u" by simp
    with M [of 0] S [of 0] h show ?thesis by (cases "mins = 0") (simp_all add: fmt)
  qed
qed

lemma fmtDuration_ends: "\<exists>s. fmtDuration u = s @ ''s''" "is_digit (hd (fmtDuration u))" "fmtDuration u \<noteq> []"
proof -
  have I: "is_digit (hd (Itoa_nat v @ s))" "Itoa_nat v @ s \<noteq> []" for v s
    using ends_part_Itoa [of v s] Itoa_nat_not_Nil [of v] by (auto simp: ends_part_def)
  show "\<exists>s. fmtDuration u = s @ ''s''"
    by (auto simp: fmtDuration_def Let_def micro_def split: prod.splits)
  show "is_digit (hd (fmtDuration u))" "fmtDuration u \<noteq> []"
    using I by (auto simp: fmtDuration_def Let_def is_digit_def split: prod.splits)
qed

theorem ParseDuration_String:
  assumes "- (2 ^ 63) \<le> d" "d < 2 ^ 63"
  shows "ParseDuration (Duration_String d) = Some d"
proof -
  let ?u = "nat \<bar>d\<bar>"
  have u: "?u \<le> 2 ^ 63" using assms by auto
  have p: "parse_parts (fmtDuration ?u) 0 = Some ?u"
  proof (cases "?u = 0")
    case True
    have "Itoa_nat 0 = ''0''" by (simp add: Itoa_nat.simps char_of_def bit_0)
    then have "parse_parts ''0s'' 0 = Some 0"
      using parse_parts_text [OF unit_chars(4) _ units(4), of "[]" 0 0 0 "[]"] by (simp add: ends_part_def)
    with True show ?thesis by (simp add: fmtDuration_def)
  next
    case False
    with u parse_small [of ?u] parse_large [of ?u] show ?thesis by (cases "?u < 10 ^ 9") auto
  qed
  note e = fmtDuration_ends [of ?u]
  obtain c cs where c: "fmtDuration ?u = c # cs" using e(3) by (cases "fmtDuration ?u") auto
  have n0: "fmtDuration ?u \<noteq> ''0''" using e(1) by auto
  have sign: "c \<noteq> CHR ''-''" "c \<noteq> CHR ''+''" using e(2) c by (auto simp: is_digit_def)
  show ?thesis
  proof (cases "d < 0")
    case True
    then have "Duration_String d = CHR ''-'' # fmtDuration ?u" by (simp add: Duration_String_def)
    moreover have "signed_take_bit 63 d = d" using assms by (simp add: signed_take_bit_int_eq_self)
    ultimately show ?thesis using p n0 e(3) True by (simp add: ParseDuration_def)
  next
    case False
    then have "Duration_String d = fmtDuration ?u" by (simp add: Duration_String_def)
    moreover have "nat d \<le> 9223372036854775807" using assms by simp
    ultimately show ?thesis using p n0 c sign False by (auto simp: ParseDuration_def Let_def)
  qed
qed

end
