(* ===== verification/Config.thy ===== *)
theory Config
  imports Router Registry Pool GoDuration
begin

text \<open>
  \<^verbatim>\<open>internal/config/config.go\<close>: the configuration, its defaults and its validation, and how a duration is
  read from JSON and written to it. \<open>Load\<close> takes what reading and decoding the file give, an error or the
  decoded record with its zero values; \<^verbatim>\<open>ConfigFile\<close> decodes the text of the file.
\<close>


subsection \<open>Data\<close>

record User =
  u_Name :: string
  u_Password :: string

record PoolSection =
  po_Mode :: string
  po_MaxSize :: int
  po_MaxWaiters :: int
  po_AcquireTimeout :: int
  po_IdleTimeout :: int

record Health =
  h_Interval :: int
  h_FailureThreshold :: int
  h_BaseBackoff :: int
  h_MaxBackoff :: int

record Fencing =
  f_Mode :: string
  f_BoundedMs :: int

record Observability =
  o_MetricsAddr :: string
  o_Pprof :: bool

record Config =
  c_Listen :: string
  c_Primary :: address
  c_Replicas :: "address list"
  c_Users :: "User list"
  c_Pool :: PoolSection
  c_Health :: Health
  c_Fencing :: Fencing
  c_Policy :: string
  c_Observability :: Observability

definition FenceStrict :: string where "FenceStrict = ''strict''"
definition FenceBounded :: string where "FenceBounded = ''bounded''"
definition FenceRelaxed :: string where "FenceRelaxed = ''relaxed''"
definition ModeSession :: string where "ModeSession = ''session''"
definition ModeTransaction :: string where "ModeTransaction = ''transaction''"


subsection \<open>Operations\<close>

text \<open>
  \<^verbatim>\<open>Duration\<close> in JSON, in whatever form a JSON value has. \<open>unquote\<close> is \<^verbatim>\<open>json.Unmarshal\<close> into a string (\<open>None\<close> when
  the value is no string), \<open>quote\<close> \<^verbatim>\<open>json.Marshal\<close> of a string.
\<close>

datatype duration_err = DurNotString | DurInvalid string

definition Duration_UnmarshalJSON :: "('raw \<Rightarrow> string option) \<Rightarrow> 'raw \<Rightarrow> duration_err + int" where
  "Duration_UnmarshalJSON unquote b =
     (case unquote b of
        None \<Rightarrow> Inl DurNotString
      | Some s \<Rightarrow> (case ParseDuration s of None \<Rightarrow> Inl (DurInvalid s) | Some d \<Rightarrow> Inr d))"

definition Duration_MarshalJSON :: "(string \<Rightarrow> 'raw) \<Rightarrow> int \<Rightarrow> 'raw" where
  "Duration_MarshalJSON quote d = quote (Duration_String d)"

definition applyDefaults :: "Config \<Rightarrow> Config" where
  "applyDefaults c =
     (let p = c_Pool c; h = c_Health c; f = c_Fencing c;
          p = (if po_Mode p = [] then p\<lparr>po_Mode := ModeSession\<rparr> else p);
          p = (if po_MaxSize p = 0 then p\<lparr>po_MaxSize := 10\<rparr> else p);
          p = (if po_AcquireTimeout p = 0 then p\<lparr>po_AcquireTimeout := 5 * second\<rparr> else p);
          p = (if po_IdleTimeout p = 0 then p\<lparr>po_IdleTimeout := 5 * 60 * second\<rparr> else p);
          h = (if h_Interval h = 0 then h\<lparr>h_Interval := second\<rparr> else h);
          h = (if h_FailureThreshold h = 0 then h\<lparr>h_FailureThreshold := 3\<rparr> else h);
          h = (if h_BaseBackoff h = 0 then h\<lparr>h_BaseBackoff := second\<rparr> else h);
          h = (if h_MaxBackoff h = 0 then h\<lparr>h_MaxBackoff := 30 * second\<rparr> else h);
          f = (if f_Mode f = [] then f\<lparr>f_Mode := FenceStrict\<rparr> else f);
          f = (if f_BoundedMs f = 0 then f\<lparr>f_BoundedMs := 100\<rparr> else f)
      in c\<lparr>c_Pool := p, c_Health := h, c_Fencing := f,
           c_Policy := (if c_Policy c = [] then PolicyLeastInFlight else c_Policy c)\<rparr>)"

datatype config_err =
  ListenRequired | PrimaryRequired | UserRequired | UserWithoutName | DuplicateUser string
| BadMaxSize | BadPoolMode string | BadFencingMode string | BadPolicy string | ReadErr string

fun check_users :: "string list \<Rightarrow> User list \<Rightarrow> config_err option" where
  "check_users seen [] = None"
| "check_users seen (u # us) =
     (if u_Name u = [] then Some UserWithoutName
      else if u_Name u \<in> set seen then Some (DuplicateUser (u_Name u))
      else check_users (u_Name u # seen) us)"

definition validate :: "Config \<Rightarrow> config_err option" where
  "validate c =
     (if c_Listen c = [] then Some ListenRequired
      else if c_Primary c = [] then Some PrimaryRequired
      else if c_Users c = [] then Some UserRequired
      else case check_users [] (c_Users c) of
        Some e \<Rightarrow> Some e
      | None \<Rightarrow>
          if po_MaxSize (c_Pool c) < 1 then Some BadMaxSize
          else if po_Mode (c_Pool c) \<noteq> ModeSession \<and> po_Mode (c_Pool c) \<noteq> ModeTransaction
            then Some (BadPoolMode (po_Mode (c_Pool c)))
          else if f_Mode (c_Fencing c) \<notin> {FenceStrict, FenceBounded, FenceRelaxed}
            then Some (BadFencingMode (f_Mode (c_Fencing c)))
          else if c_Policy c \<notin> {PolicyRoundRobin, PolicyLeastInFlight, PolicyScored}
            then Some (BadPolicy (c_Policy c))
          else None)"

definition Load :: "string + Config \<Rightarrow> config_err + Config" where
  "Load decoded =
     (case decoded of
        Inl e \<Rightarrow> Inl (ReadErr e)
      | Inr c0 \<Rightarrow>
          let c = applyDefaults c0
          in case validate c of Some e \<Rightarrow> Inl e | None \<Rightarrow> Inr c)"

fun find_user :: "User list \<Rightarrow> string \<Rightarrow> User option" where
  "find_user [] name = None"
| "find_user (u # us) name = (if u_Name u = name then Some u else find_user us name)"

definition Config_User :: "Config \<Rightarrow> string \<Rightarrow> User option" where
  "Config_User c name = find_user (c_Users c) name"


subsection \<open>Lemmas\<close>

lemma check_users_distinct:
  "check_users seen us = None \<Longrightarrow>
   distinct (map u_Name us) \<and> [] \<notin> u_Name ` set us \<and> u_Name ` set us \<inter> set seen = {}"
  by (induction seen us rule: check_users.induct) (auto split: if_splits)

lemma find_user_distinct:
  "distinct (map u_Name us) \<Longrightarrow> u \<in> set us \<Longrightarrow> find_user us (u_Name u) = Some u"
  by (induction us) (auto simp: rev_image_eqI)

lemma find_user_Some: "find_user us n = Some u \<Longrightarrow> u \<in> set us \<and> u_Name u = n"
  by (induction us) (auto split: if_splits)

lemma applyDefaults_keeps:
  "c_Listen (applyDefaults c) = c_Listen c" "c_Primary (applyDefaults c) = c_Primary c"
  "c_Users (applyDefaults c) = c_Users c" "c_Replicas (applyDefaults c) = c_Replicas c"
  by (simp_all add: applyDefaults_def Let_def)

lemma applyDefaults_MaxSize:
  "po_MaxSize (c_Pool (applyDefaults c)) = (if po_MaxSize (c_Pool c) = 0 then 10 else po_MaxSize (c_Pool c))"
  by (simp add: applyDefaults_def Let_def)


subsection \<open>Properties\<close>

text \<open>
  A configuration that loads is one the program can run with: the routing policy it names exists,
  a pool of its size can be made, no user is without a name or listed twice, so every listed user is
  found by name and nobody else is; the fencing and pool modes are known ones. Values that were given
  are kept: a non-zero pool size, and the addresses and users always.
\<close>

theorem Load_usable:
  assumes "Load decoded = Inr c"
  shows "(\<exists>c0. decoded = Inr c0 \<and> c_Users c = c_Users c0 \<and> c_Primary c = c_Primary c0 \<and> c_Replicas c = c_Replicas c0 \<and>
               po_MaxSize (c_Pool c) = (if po_MaxSize (c_Pool c0) = 0 then 10 else po_MaxSize (c_Pool c0))) \<and>
         router_New (c_Policy c) \<noteq> None \<and>
         (\<exists>p. pool_New \<lparr>pc_MaxSize = po_MaxSize (c_Pool c), pc_MaxWaiters = po_MaxWaiters (c_Pool c),
                        pc_AcquireTimeout = po_AcquireTimeout (c_Pool c), pc_IdleTimeout = po_IdleTimeout (c_Pool c),
                        pc_New = True, pc_Ping = True\<rparr> = Inr p) \<and>
         (\<forall>name u. Config_User c name = Some u \<longleftrightarrow> u \<in> set (c_Users c) \<and> u_Name u = name) \<and>
         f_Mode (c_Fencing c) \<in> {FenceStrict, FenceBounded, FenceRelaxed} \<and>
         po_Mode (c_Pool c) \<in> {ModeSession, ModeTransaction}"
proof -
  obtain c0 where c0: "decoded = Inr c0" "c = applyDefaults c0" "validate c = None"
    using assms by (auto simp: Load_def Let_def split: sum.splits option.splits)
  from c0(3) have v: "check_users [] (c_Users c) = None" "1 \<le> po_MaxSize (c_Pool c)"
    "c_Policy c \<in> {PolicyRoundRobin, PolicyLeastInFlight, PolicyScored}"
    "f_Mode (c_Fencing c) \<in> {FenceStrict, FenceBounded, FenceRelaxed}"
    "po_Mode (c_Pool c) \<in> {ModeSession, ModeTransaction}"
    by (auto simp: validate_def split: if_splits option.splits)
  from check_users_distinct [OF v(1)] have "distinct (map u_Name (c_Users c))" by simp
  then have "Config_User c name = Some u \<longleftrightarrow> u \<in> set (c_Users c) \<and> u_Name u = name" for name u
    using find_user_distinct find_user_Some by (auto simp: Config_User_def)
  moreover have "router_New (c_Policy c) \<noteq> None"
    using v(3) by (auto simp: router_New_def)
  ultimately show ?thesis
    using c0(1,2) v(2,4,5) applyDefaults_keeps [of c0] applyDefaults_MaxSize [of c0] by (simp add: pool_New_def)
qed

definition wit_config :: Config where
  "wit_config = \<lparr>c_Listen = '':6432'', c_Primary = ''p:5432'', c_Replicas = [''r1:5432''],
     c_Users = [\<lparr>u_Name = ''app'', u_Password = ''pw''\<rparr>],
     c_Pool = \<lparr>po_Mode = [], po_MaxSize = 0, po_MaxWaiters = 0, po_AcquireTimeout = 0, po_IdleTimeout = 0\<rparr>,
     c_Health = \<lparr>h_Interval = 0, h_FailureThreshold = 0, h_BaseBackoff = 0, h_MaxBackoff = 0\<rparr>,
     c_Fencing = \<lparr>f_Mode = [], f_BoundedMs = 0\<rparr>, c_Policy = [],
     c_Observability = \<lparr>o_MetricsAddr = [], o_Pprof = False\<rparr>\<rparr>"

lemma Load_usable_witness:
  "Load (Inr wit_config) = Inr (applyDefaults wit_config) \<and> router_New (c_Policy (applyDefaults wit_config)) \<noteq> None"
proof -
  have "Load (Inr wit_config) = Inr (applyDefaults wit_config)"
    by (simp add: Load_def wit_config_def applyDefaults_def validate_def ModeSession_def FenceStrict_def Let_def)
  with Load_usable [OF this] show ?thesis by simp
qed

text \<open>A duration that is written to JSON and read again is the same, if strings are.\<close>

lemma Duration_JSON_roundtrip:
  assumes "\<And>s. unquote (quote (Duration_String s)) = Some (Duration_String s)" "- (2 ^ 63) \<le> d" "d < 2 ^ 63"
  shows "Duration_UnmarshalJSON unquote (Duration_MarshalJSON quote d) = Inr d"
  using assms by (simp add: Duration_UnmarshalJSON_def Duration_MarshalJSON_def ParseDuration_String)

end
