(* ===== verification/Scram.thy ===== *)
theory Scram
  imports Crypto
begin

text \<open>
  \<^verbatim>\<open>internal/scram/scram.go\<close>: SCRAM-SHA-256 in both roles. The key derivation is
  \<^verbatim>\<open>golang.org/x/crypto/pbkdf2\<close>, a library: it is the parameter \<open>kdf\<close> (password, salt, iterations).
  Random bytes are arguments, \<open>None\<close> where \<^verbatim>\<open>rand.Read\<close> fails. A handler returns its result and the
  object it changed.
\<close>


subsection \<open>Data\<close>

datatype scram_err =
  ScramRand | ScramNonceNotExtended | ScramServerError string | ScramMalformedServerFinal
| ScramBadSignatureEncoding | ScramSignatureMismatch | ScramChannelBinding | ScramMalformedClientFirst
| ScramClientFirstNonce | ScramUnexpectedBinding | ScramNonceMismatch | ScramMissingProof
| ScramBadProofEncoding | ScramBadProofLength | ScramMalformedClientFinal | ScramAuthFailed
| ScramServerFirstNonce | ScramServerFirstSalt | ScramServerFirstIterations | ScramBadSalt
| ScramBadIterations string | ScramPanic

definition defaultIterations :: int where "defaultIterations = 4096"
definition saltLen :: nat where "saltLen = 16"
definition nonceLen :: nat where "nonceLen = 18"
definition gs2Header :: string where "gs2Header = ''n,,''"
definition channelBinding :: string where "channelBinding = ''biws''"

type_synonym kdf = "byte list \<Rightarrow> byte list \<Rightarrow> int \<Rightarrow> byte list"

record Client =
  cl_password :: string
  cl_clientNonce :: string
  cl_clientFirstBare :: string
  cl_serverSignature :: "byte list"

record Server =
  sv_password :: string
  sv_clientNonce :: string
  sv_serverNonce :: string
  sv_salt :: "byte list"
  sv_iterations :: int
  sv_clientFirstBare :: string
  sv_serverFirst :: string
  sv_storedKey :: "byte list"
  sv_serverKey :: "byte list"


subsection \<open>Helpers\<close>

fun find_field :: "string list \<Rightarrow> string \<Rightarrow> string option" where
  "find_field [] prefix = None"
| "find_field (part # parts) prefix =
     (if has_prefix part prefix then Some (drop (length prefix) part) else find_field parts prefix)"

definition scram_field :: "string \<Rightarrow> string \<Rightarrow> string option" where
  "scram_field msg prefix = find_field (str_split msg (CHR '','')) prefix"

definition newNonce :: "byte list option \<Rightarrow> string option" where
  "newNonce rand = map_option RawEncodeToString rand"

definition saltedPassword :: "kdf \<Rightarrow> string \<Rightarrow> byte list \<Rightarrow> int \<Rightarrow> byte list" where
  "saltedPassword kdf password salt iterations = kdf (bytes_of password) salt iterations"

definition hmacSum :: "byte list \<Rightarrow> byte list \<Rightarrow> byte list" where
  "hmacSum key msg = hmac_sha256 key msg"

definition sha256Sum :: "byte list \<Rightarrow> byte list" where
  "sha256Sum b = sha256 b"

text \<open>\<^verbatim>\<open>xorBytes\<close>: an index past the end of the second slice panics.\<close>

definition xorBytes :: "byte list \<Rightarrow> byte list \<Rightarrow> byte list option" where
  "xorBytes a b = (if length a \<le> length b then Some (map2 (XOR) a (take (length a) b)) else None)"

definition parseServerFirst :: "string \<Rightarrow> scram_err + string \<times> byte list \<times> int" where
  "parseServerFirst s =
     (case scram_field s ''r='' of
        None \<Rightarrow> Inl ScramServerFirstNonce
      | Some nonce \<Rightarrow>
     (case scram_field s ''s='' of
        None \<Rightarrow> Inl ScramServerFirstSalt
      | Some saltEnc \<Rightarrow>
     (case scram_field s ''i='' of
        None \<Rightarrow> Inl ScramServerFirstIterations
      | Some iterStr \<Rightarrow>
     (case DecodeString saltEnc of
        None \<Rightarrow> Inl ScramBadSalt
      | Some salt \<Rightarrow>
     (case Atoi iterStr of
        None \<Rightarrow> Inl (ScramBadIterations iterStr)
      | Some iterations \<Rightarrow>
          if iterations < 1 then Inl (ScramBadIterations iterStr) else Inr (nonce, salt, iterations))))))"


subsection \<open>The client\<close>

definition NewClient :: "string \<Rightarrow> byte list option \<Rightarrow> scram_err + Client" where
  "NewClient password rand =
     (case newNonce rand of
        None \<Rightarrow> Inl ScramRand
      | Some nonce \<Rightarrow> Inr \<lparr>cl_password = password, cl_clientNonce = nonce, cl_clientFirstBare = [],
                          cl_serverSignature = []\<rparr>)"

definition FirstMessage :: "Client \<Rightarrow> string \<times> Client" where
  "FirstMessage c =
     (let bare = ''n=,r='' @ cl_clientNonce c
      in (gs2Header @ bare, c\<lparr>cl_clientFirstBare := bare\<rparr>))"

definition HandleServerFirst :: "kdf \<Rightarrow> Client \<Rightarrow> string \<Rightarrow> (scram_err + string) \<times> Client" where
  "HandleServerFirst kdf c serverFirst =
     (case parseServerFirst serverFirst of
        Inl e \<Rightarrow> (Inl e, c)
      | Inr (combinedNonce, salt, iterations) \<Rightarrow>
          if \<not> has_prefix combinedNonce (cl_clientNonce c) then (Inl ScramNonceNotExtended, c)
          else
            let salted = saltedPassword kdf (cl_password c) salt iterations;
                clientKey = hmacSum salted (bytes_of ''Client Key'');
                storedKey = sha256Sum clientKey;
                withoutProof = ''c='' @ channelBinding @ '',r='' @ combinedNonce;
                authMessage = cl_clientFirstBare c @ '','' @ serverFirst @ '','' @ withoutProof;
                clientSignature = hmacSum storedKey (bytes_of authMessage)
            in case xorBytes clientKey clientSignature of
                 None \<Rightarrow> (Inl ScramPanic, c)
               | Some clientProof \<Rightarrow>
                   let serverKey = hmacSum salted (bytes_of ''Server Key'')
                   in (Inr (withoutProof @ '',p='' @ EncodeToString clientProof),
                       c\<lparr>cl_serverSignature := hmacSum serverKey (bytes_of authMessage)\<rparr>))"

definition HandleServerFinal :: "Client \<Rightarrow> string \<Rightarrow> scram_err option" where
  "HandleServerFinal c serverFinal =
     (case scram_field serverFinal ''e='' of
        Some e \<Rightarrow> Some (ScramServerError e)
      | None \<Rightarrow>
          (case scram_field serverFinal ''v='' of
             None \<Rightarrow> Some ScramMalformedServerFinal
           | Some v \<Rightarrow>
               (case DecodeString v of
                  None \<Rightarrow> Some ScramBadSignatureEncoding
                | Some sig \<Rightarrow>
                    if sig \<noteq> cl_serverSignature c then Some ScramSignatureMismatch else None)))"


subsection \<open>The server\<close>

definition NewServer :: "string \<Rightarrow> byte list option \<Rightarrow> byte list option \<Rightarrow> scram_err + Server" where
  "NewServer password rand1 rand2 =
     (case newNonce rand1 of
        None \<Rightarrow> Inl ScramRand
      | Some nonce \<Rightarrow>
          (case rand2 of
             None \<Rightarrow> Inl ScramRand
           | Some salt \<Rightarrow>
               Inr \<lparr>sv_password = password, sv_clientNonce = [], sv_serverNonce = nonce, sv_salt = salt,
                    sv_iterations = defaultIterations, sv_clientFirstBare = [], sv_serverFirst = [],
                    sv_storedKey = [], sv_serverKey = []\<rparr>))"

definition HandleClientFirst :: "kdf \<Rightarrow> Server \<Rightarrow> string \<Rightarrow> (scram_err + string) \<times> Server" where
  "HandleClientFirst kdf s clientFirst =
     (if has_prefix clientFirst ''p='' then (Inl ScramChannelBinding, s)
      else case index_byte clientFirst (CHR '','') of
        None \<Rightarrow> (Inl ScramMalformedClientFirst, s)
      | Some c1 \<Rightarrow>
     (case index_byte (drop (c1 + 1) clientFirst) (CHR '','') of
        None \<Rightarrow> (Inl ScramMalformedClientFirst, s)
      | Some c2 \<Rightarrow>
          let s1 = s\<lparr>sv_clientFirstBare := drop (c1 + 1 + c2 + 1) clientFirst\<rparr>
          in case scram_field (sv_clientFirstBare s1) ''r='' of
               None \<Rightarrow> (Inl ScramClientFirstNonce, s1)
             | Some nonce \<Rightarrow>
                 let combined = nonce @ sv_serverNonce s1;
                     serverFirst = ''r='' @ combined @ '',s='' @ EncodeToString (sv_salt s1)
                                   @ '',i='' @ Itoa (sv_iterations s1);
                     salted = saltedPassword kdf (sv_password s1) (sv_salt s1) (sv_iterations s1)
                 in (Inr serverFirst,
                     s1\<lparr>sv_clientNonce := nonce, sv_serverFirst := serverFirst,
                        sv_storedKey := sha256Sum (hmacSum salted (bytes_of ''Client Key'')),
                        sv_serverKey := hmacSum salted (bytes_of ''Server Key'')\<rparr>)))"

definition HandleClientFinal :: "Server \<Rightarrow> string \<Rightarrow> scram_err + string" where
  "HandleClientFinal s clientFinal =
     (if scram_field clientFinal ''c='' \<noteq> Some channelBinding then Inl ScramUnexpectedBinding
      else if scram_field clientFinal ''r='' \<noteq> Some (sv_clientNonce s @ sv_serverNonce s)
        then Inl ScramNonceMismatch
      else case scram_field clientFinal ''p='' of
        None \<Rightarrow> Inl ScramMissingProof
      | Some pEnc \<Rightarrow>
     (case DecodeString pEnc of
        None \<Rightarrow> Inl ScramBadProofEncoding
      | Some clientProof \<Rightarrow>
          if length clientProof \<noteq> 32 then Inl ScramBadProofLength
          else case str_index clientFinal '',p='' of
            None \<Rightarrow> Inl ScramMalformedClientFinal
          | Some idx \<Rightarrow>
              let withoutProof = take idx clientFinal;
                  authMessage = sv_clientFirstBare s @ '','' @ sv_serverFirst s @ '','' @ withoutProof;
                  clientSignature = hmacSum (sv_storedKey s) (bytes_of authMessage)
              in case xorBytes clientProof clientSignature of
                   None \<Rightarrow> Inl ScramPanic
                 | Some clientKey \<Rightarrow>
                     if sha256Sum clientKey \<noteq> sv_storedKey s then Inl ScramAuthFailed
                     else Inr (''v='' @ EncodeToString (hmacSum (sv_serverKey s) (bytes_of authMessage)))))"



subsection \<open>Lemmas\<close>

lemma length_hmacSum [simp]: "length (hmacSum k m) = 32"
  by (simp add: hmacSum_def)

lemma map2_xor_cancel:
  "length a = length b \<Longrightarrow> map2 (XOR) (map2 (XOR) a b) b = (a :: byte list)"
  by (induction a b rule: list_induct2) (simp_all add: xor.assoc)

lemma xorBytes_twice: "length a = length b \<Longrightarrow> xorBytes a b = Some p \<Longrightarrow> xorBytes p b = Some a"
  by (auto simp: xorBytes_def map2_xor_cancel)

lemma xorBytes_length: "xorBytes a b = Some p \<Longrightarrow> length p = length a"
  by (auto simp: xorBytes_def split: if_splits)

lemma xorBytes_32: "length a = 32 \<Longrightarrow> \<exists>p. xorBytes a (hmacSum k m) = Some p \<and> length p = 32 \<and> xorBytes p (hmacSum k m) = Some a"
proof -
  assume a: "length a = 32"
  then obtain p where p: "xorBytes a (hmacSum k m) = Some p" by (simp add: xorBytes_def)
  with a xorBytes_length [OF p] xorBytes_twice [OF _ p] show ?thesis by simp
qed

lemma has_prefix_append [simp]: "has_prefix (p @ s) p"
  by (simp add: has_prefix_def)

lemma index_byte_notin: "c \<notin> set xs \<Longrightarrow> index_byte (xs @ c # ys) c = Some (length xs)"
  by (simp add: index_byte_def str_index_notin)

lemma str_index_skip:
  "c \<notin> set xs \<Longrightarrow> str_index (xs @ ys) (c # sub) = map_option (\<lambda>n. length xs + n) (str_index ys (c # sub))"
proof (induction xs)
  case (Cons x xs)
  then have "\<not> has_prefix (x # xs @ ys) (c # sub)" by (auto simp: has_prefix_def)
  with Cons show ?case
    by (simp add: str_index.simps [of "x # xs @ ys"] option.map_comp comp_def)
qed (cases "str_index ys (c # sub)"; simp)

text \<open>The messages of an exchange split into their attributes.\<close>

lemma field_server_first:
  assumes "CHR '','' \<notin> set n" "CHR '','' \<notin> set s" "CHR '','' \<notin> set i" "m = ''r='' @ n @ '',s='' @ s @ '',i='' @ i"
  shows "scram_field m ''r='' = Some n \<and> scram_field m ''s='' = Some s \<and> scram_field m ''i='' = Some i"
proof -
  have "str_split m (CHR '','') = [''r='' @ n, ''s='' @ s, ''i='' @ i]"
    using str_split_append [of "CHR '',''" "''r='' @ n" "''s='' @ s @ '',i='' @ i"]
      str_split_append [of "CHR '',''" "''s='' @ s" "''i='' @ i"] str_split_notin [of "CHR '',''" "''i='' @ i"] assms
    by simp
  then show ?thesis by (simp add: scram_field_def has_prefix_def)
qed

lemma field_client_final:
  assumes "CHR '','' \<notin> set n" "CHR '','' \<notin> set p" "m = ''c='' @ b @ '',r='' @ n @ '',p='' @ p" "CHR '','' \<notin> set b"
  shows "scram_field m ''c='' = Some b \<and> scram_field m ''r='' = Some n \<and> scram_field m ''p='' = Some p"
proof -
  have "str_split m (CHR '','') = [''c='' @ b, ''r='' @ n, ''p='' @ p]"
    using str_split_append [of "CHR '',''" "''c='' @ b" "''r='' @ n @ '',p='' @ p"]
      str_split_append [of "CHR '',''" "''r='' @ n" "''p='' @ p"] str_split_notin [of "CHR '',''" "''p='' @ p"] assms
    by simp
  then show ?thesis by (simp add: scram_field_def has_prefix_def)
qed

lemma index_client_final:
  assumes "CHR '','' \<notin> set n" "CHR '','' \<notin> set b"
  shows "str_index ((''c='' @ b @ '',r='' @ n) @ '',p='' @ p) '',p='' = Some (length (''c='' @ b @ '',r='' @ n))"
proof -
  have 1: "str_index ('',p='' @ p) '',p='' = Some 0"
    by (subst str_index.simps) (simp add: has_prefix_def)
  have 2: "str_index (''r='' @ n @ '',p='' @ p) '',p='' = Some (length (''r='' @ n))"
    using str_index_skip [of "CHR '',''" "''r='' @ n" "'',p='' @ p" "''p=''"] assms(1) 1 by simp
  have 3: "str_index ('',r='' @ n @ '',p='' @ p) '',p='' = Some (Suc (length (''r='' @ n)))"
    using 2 by (subst str_index.simps) (simp add: has_prefix_def)
  show ?thesis
    using str_index_skip [of "CHR '',''" "''c='' @ b" "'',r='' @ n @ '',p='' @ p" "''p=''"] assms(2) 3 by simp
qed

lemma field_single: "CHR '','' \<notin> set v \<Longrightarrow> scram_field (''v='' @ v) ''v='' = Some v \<and> scram_field (''v='' @ v) ''e='' = None"
  using str_split_notin [of "CHR '',''" "''v='' @ v"] by (simp add: scram_field_def has_prefix_def)

lemma field_bare: "CHR '','' \<notin> set n \<Longrightarrow> scram_field (''n=,r='' @ n) ''r='' = Some n"
  using str_split_append [of "CHR '',''" "''n=''" "''r='' @ n"] str_split_notin [of "CHR '',''" "''r='' @ n"]
  by (simp add: scram_field_def has_prefix_def)



subsection \<open>The exchange\<close>

text \<open>The four messages passed between a client and a server; the first error ends the exchange.\<close>

definition scram_run :: "kdf \<Rightarrow> Client \<Rightarrow> Server \<Rightarrow> scram_err + Client \<times> Server" where
  "scram_run kdf c s =
     (case FirstMessage c of (m1, c1) \<Rightarrow>
     (case HandleClientFirst kdf s m1 of
        (Inl e, s1) \<Rightarrow> Inl e
      | (Inr m2, s1) \<Rightarrow>
     (case HandleServerFirst kdf c1 m2 of
        (Inl e, c2) \<Rightarrow> Inl e
      | (Inr m3, c2) \<Rightarrow>
     (case HandleClientFinal s1 m3 of
        Inl e \<Rightarrow> Inl e
      | Inr m4 \<Rightarrow>
     (case HandleServerFinal c2 m4 of
        Some e \<Rightarrow> Inl e
      | None \<Rightarrow> Inr (c2, s1))))))"

definition clientKey_of :: "kdf \<Rightarrow> string \<Rightarrow> byte list \<Rightarrow> int \<Rightarrow> byte list" where
  "clientKey_of kdf pw salt i = hmacSum (saltedPassword kdf pw salt i) (bytes_of ''Client Key'')"

definition serverKey_of :: "kdf \<Rightarrow> string \<Rightarrow> byte list \<Rightarrow> int \<Rightarrow> byte list" where
  "serverKey_of kdf pw salt i = hmacSum (saltedPassword kdf pw salt i) (bytes_of ''Server Key'')"

definition server_first_msg :: "string \<Rightarrow> byte list \<Rightarrow> int \<Rightarrow> string" where
  "server_first_msg nonces salt i = ''r='' @ nonces @ '',s='' @ EncodeToString salt @ '',i='' @ Itoa i"

lemma HandleClientFirst_first:
  assumes "CHR '','' \<notin> set cn"
  shows "HandleClientFirst kdf s (gs2Header @ ''n=,r='' @ cn) =
    (let sf = server_first_msg (cn @ sv_serverNonce s) (sv_salt s) (sv_iterations s)
     in (Inr sf, s\<lparr>sv_clientFirstBare := ''n=,r='' @ cn, sv_clientNonce := cn, sv_serverFirst := sf,
            sv_storedKey := sha256Sum (clientKey_of kdf (sv_password s) (sv_salt s) (sv_iterations s)),
            sv_serverKey := serverKey_of kdf (sv_password s) (sv_salt s) (sv_iterations s)\<rparr>))"
proof -
  have 1: "index_byte (''n,,n=,r='' @ cn) (CHR '','') = Some 1"
    using index_byte_notin [of "CHR '',''" "''n''" "'',n=,r='' @ cn"] by simp
  have 2: "index_byte ('',n=,r='' @ cn) (CHR '','') = Some 0"
    using index_byte_notin [of "CHR '',''" "[]" "''n=,r='' @ cn"] by simp
  show ?thesis
    using 1 2 field_bare [OF assms]
    by (simp add: HandleClientFirst_def gs2Header_def has_prefix_def Let_def server_first_msg_def
        clientKey_of_def serverKey_of_def)
qed

lemma parseServerFirst_msg:
  assumes "CHR '','' \<notin> set nonces" "1 \<le> i" "i < 2 ^ 63"
  shows "parseServerFirst (server_first_msg nonces salt i) = Inr (nonces, salt, i)"
  using field_server_first [OF assms(1) EncodeToString_no_comma [of True salt] Itoa_no_comma [of i] refl] assms
    DecodeString_EncodeToString [of salt] Atoi_Itoa [of i]
  by (simp add: parseServerFirst_def server_first_msg_def)

text \<open>The proof a client with password \<open>pw\<close> sends, and what a server makes of it.\<close>

lemma HandleServerFirst_proof:
  assumes "CHR '','' \<notin> set (cl_clientNonce c @ sn)" "1 \<le> i" "i < 2 ^ 63"
    and "wp = ''c='' @ channelBinding @ '',r='' @ cl_clientNonce c @ sn"
    and "sf = server_first_msg (cl_clientNonce c @ sn) salt i"
    and "auth = cl_clientFirstBare c @ '','' @ sf @ '','' @ wp"
    and "ck = clientKey_of kdf (cl_password c) salt i"
  shows "\<exists>prv. length prv = 32 \<and>
           xorBytes prv (hmacSum (sha256Sum ck) (bytes_of auth)) = Some ck \<and>
           HandleServerFirst kdf c sf =
             (Inr (wp @ '',p='' @ EncodeToString prv),
              c\<lparr>cl_serverSignature := hmacSum (serverKey_of kdf (cl_password c) salt i) (bytes_of auth)\<rparr>)"
proof -
  have ck: "length ck = 32" by (simp add: assms(7) clientKey_of_def)
  from xorBytes_32 [OF ck] obtain prv where pr:
    "xorBytes ck (hmacSum (sha256Sum ck) (bytes_of auth)) = Some prv" "length prv = 32"
    "xorBytes prv (hmacSum (sha256Sum ck) (bytes_of auth)) = Some ck" by blast
  have "HandleServerFirst kdf c sf =
             (Inr (wp @ '',p='' @ EncodeToString prv),
              c\<lparr>cl_serverSignature := hmacSum (serverKey_of kdf (cl_password c) salt i) (bytes_of auth)\<rparr>)"
    using pr(1) parseServerFirst_msg [OF assms(1-3), of salt]
    by (simp add: HandleServerFirst_def assms(4-7) Let_def clientKey_of_def serverKey_of_def)
  with pr show ?thesis by blast
qed

lemma HandleClientFinal_msg:
  assumes "CHR '','' \<notin> set (sv_clientNonce s @ sv_serverNonce s)"
    and "wp = ''c='' @ channelBinding @ '',r='' @ sv_clientNonce s @ sv_serverNonce s"
    and "auth = sv_clientFirstBare s @ '','' @ sv_serverFirst s @ '','' @ wp"
    and "length prv = 32" "xorBytes prv (hmacSum (sv_storedKey s) (bytes_of auth)) = Some key"
  shows "HandleClientFinal s (wp @ '',p='' @ EncodeToString prv) =
           (if sha256Sum key = sv_storedKey s
            then Inr (''v='' @ EncodeToString (hmacSum (sv_serverKey s) (bytes_of auth))) else Inl ScramAuthFailed)"
proof -
  have b: "CHR '','' \<notin> set channelBinding" by (simp add: channelBinding_def)
  define m where "m = wp @ '',p='' @ EncodeToString prv"
  have f: "scram_field m ''c='' = Some channelBinding \<and>
      scram_field m ''r='' = Some (sv_clientNonce s @ sv_serverNonce s) \<and> scram_field m ''p='' = Some (EncodeToString prv)"
    by (rule field_client_final [OF assms(1) EncodeToString_no_comma [of True prv] _ b])
       (simp add: m_def assms(2))
  have ix: "str_index m '',p='' = Some (length wp)"
    unfolding m_def assms(2) by (rule index_client_final [OF assms(1) b])
  have "take (length wp) m = wp" by (simp add: m_def)
  with f ix assms(3-5) DecodeString_EncodeToString [of prv] show ?thesis
    unfolding m_def [symmetric] by (simp add: HandleClientFinal_def Let_def)
qed

lemma HandleServerFinal_msg:
  "HandleServerFinal c (''v='' @ EncodeToString sig) =
     (if sig = cl_serverSignature c then None else Some ScramSignatureMismatch)"
  using field_single [OF EncodeToString_no_comma [of True sig]] DecodeString_EncodeToString [of sig]
  by (simp add: HandleServerFinal_def)



lemma scram_honest:
  assumes "NewClient pw (Some r1) = Inr c" "NewServer pw (Some r2) (Some salt) = Inr s"
  shows "\<exists>m2 s1 m3 c2 m4.
           HandleClientFirst kdf s (fst (FirstMessage c)) = (Inr m2, s1) \<and>
           HandleServerFirst kdf (snd (FirstMessage c)) m2 = (Inr m3, c2) \<and>
           HandleClientFinal s1 m3 = Inr m4 \<and> HandleServerFinal c2 m4 = None"
proof -
  let ?cn = "RawEncodeToString r1" and ?sn = "RawEncodeToString r2"
  have nc: "CHR '','' \<notin> set ?cn" "CHR '','' \<notin> set (?cn @ ?sn)" by (simp_all add: EncodeToString_no_comma)
  define c1 where "c1 = c\<lparr>cl_clientFirstBare := ''n=,r='' @ ?cn\<rparr>"
  have c: "cl_clientNonce c1 = ?cn" "cl_password c1 = pw" "cl_clientFirstBare c1 = ''n=,r='' @ ?cn"
    "FirstMessage c = (gs2Header @ ''n=,r='' @ ?cn, c1)"
    using assms(1) by (auto simp: NewClient_def newNonce_def FirstMessage_def c1_def Let_def)
  have s: "sv_serverNonce s = ?sn" "sv_salt s = salt" "sv_iterations s = defaultIterations" "sv_password s = pw"
    using assms(2) by (auto simp: NewServer_def newNonce_def)
  define sf where "sf = server_first_msg (?cn @ ?sn) salt defaultIterations"
  define wp where "wp = ''c='' @ channelBinding @ '',r='' @ ?cn @ ?sn"
  define auth where "auth = (''n=,r='' @ ?cn) @ '','' @ sf @ '','' @ wp"
  obtain s1 where s1: "HandleClientFirst kdf s (gs2Header @ ''n=,r='' @ ?cn) = (Inr sf, s1)"
    "sv_clientFirstBare s1 = ''n=,r='' @ ?cn" "sv_clientNonce s1 = ?cn" "sv_serverNonce s1 = ?sn" "sv_serverFirst s1 = sf"
    "sv_storedKey s1 = sha256Sum (clientKey_of kdf pw salt defaultIterations)"
    "sv_serverKey s1 = serverKey_of kdf pw salt defaultIterations"
    using HandleClientFirst_first [OF nc(1), of kdf s] by (simp add: s sf_def Let_def)
  from HandleServerFirst_proof [of c1 ?sn defaultIterations wp sf salt auth _ kdf, OF _ _ _ _ _ _ refl]
  obtain prv where prv: "length prv = 32"
    "xorBytes prv (hmacSum (sv_storedKey s1) (bytes_of auth)) = Some (clientKey_of kdf pw salt defaultIterations)"
    "HandleServerFirst kdf c1 sf = (Inr (wp @ '',p='' @ EncodeToString prv),
       c1\<lparr>cl_serverSignature := hmacSum (serverKey_of kdf pw salt defaultIterations) (bytes_of auth)\<rparr>)"
    using nc(2) by (auto simp: c s1(6) wp_def sf_def auth_def defaultIterations_def)
  have "HandleClientFinal s1 (wp @ '',p='' @ EncodeToString prv) =
      Inr (''v='' @ EncodeToString (hmacSum (serverKey_of kdf pw salt defaultIterations) (bytes_of auth)))"
    using HandleClientFinal_msg [OF _ _ _ prv(1,2), of wp] nc(2) s1 by (simp add: wp_def auth_def)
  moreover have "HandleServerFinal
      (c1\<lparr>cl_serverSignature := hmacSum (serverKey_of kdf pw salt defaultIterations) (bytes_of auth)\<rparr>)
      (''v='' @ EncodeToString (hmacSum (serverKey_of kdf pw salt defaultIterations) (bytes_of auth))) = None"
    by (simp only: HandleServerFinal_msg) simp
  ultimately show ?thesis
    using c(4) s1(1) prv(3) by auto
qed


subsection \<open>Properties\<close>

text \<open>
  C16. Completeness: a client and a server that know the same password always authenticate each
  other, whatever nonces and salt the random source gives, whatever the key derivation computes.
\<close>

theorem scram_complete:
  assumes "NewClient pw (Some r1) = Inr c" "NewServer pw (Some r2) (Some salt) = Inr s"
  shows "\<exists>c' s'. scram_run kdf c s = Inr (c', s')"
proof -
  from scram_honest [OF assms, of kdf] obtain m2 s1 m3 c2 m4 where
    "HandleClientFirst kdf s (fst (FirstMessage c)) = (Inr m2, s1)"
    "HandleServerFirst kdf (snd (FirstMessage c)) m2 = (Inr m3, c2)"
    "HandleClientFinal s1 m3 = Inr m4" "HandleServerFinal c2 m4 = None" by blast
  then show ?thesis by (simp add: scram_run_def split_beta)
qed

lemma scram_complete_witness:
  "\<exists>c s c' s'. NewClient ''secret'' (Some []) = Inr c \<and> NewServer ''secret'' (Some []) (Some []) = Inr s \<and>
     scram_run (\<lambda>p salt i. p) c s = Inr (c', s')"
proof -
  have "\<exists>c. NewClient ''secret'' (Some []) = Inr c" "\<exists>s. NewServer ''secret'' (Some []) (Some []) = Inr s"
    by (simp_all add: NewClient_def NewServer_def newNonce_def)
  then show ?thesis using scram_complete by blast
qed

text \<open>
  A client-final message proves the client key \<open>ck\<close> for the transcript \<open>auth\<close>: its proof is the
  exclusive or of the key with the transcript's signature. The second case is a second preimage.
\<close>

definition proves_key :: "byte list \<Rightarrow> string \<Rightarrow> string \<Rightarrow> bool" where
  "proves_key ck auth m3 \<longleftrightarrow>
     (\<exists>prv key. Option.bind (scram_field m3 ''p='') DecodeString = Some prv \<and>
        xorBytes prv (hmacSum (sha256Sum ck) (bytes_of auth)) = Some key \<and>
        (key = ck \<or> (key \<noteq> ck \<and> sha256 key = sha256 ck)))"

lemma HandleClientFinal_proof:
  assumes "HandleClientFirst kdf s m1 = (Inr m2, s1)" "HandleClientFinal s1 m3 = Inr m4"
    and "ck = clientKey_of kdf (sv_password s) (sv_salt s) (sv_iterations s)"
  shows "scram_field m3 ''r='' = Some (sv_clientNonce s1 @ sv_serverNonce s) \<and>
         scram_field m3 ''c='' = Some channelBinding \<and>
         (\<exists>idx. str_index m3 '',p='' = Some idx \<and>
            proves_key ck (sv_clientFirstBare s1 @ '','' @ m2 @ '','' @ take idx m3) m3)"
proof -
  have s1: "sv_storedKey s1 = sha256Sum ck" "sv_serverFirst s1 = m2" "sv_serverNonce s1 = sv_serverNonce s"
    using assms(1) by (auto simp: HandleClientFirst_def Let_def assms(3) clientKey_of_def
        split: if_splits option.splits)
  show ?thesis
    using assms(2)
    by (auto simp: HandleClientFinal_def Let_def s1 sha256Sum_def proves_key_def split: if_splits option.splits)
qed

text \<open>
  C17. Soundness: when the server accepts a client-final message, the message carries this exchange's
  nonce (so the server's own fresh nonce) and the agreed channel binding, and its proof is the
  exclusive or of the client key of the server's password with the signature of this very transcript,
  unless the message exhibits a second preimage of the stored key under SHA-256. No index is ever out
  of range on the way.
\<close>

theorem HandleClientFinal_sound:
  assumes "HandleClientFirst kdf s m1 = (Inr m2, s1)" "HandleClientFinal s1 m3 = Inr m4"
    and "ck = clientKey_of kdf (sv_password s) (sv_salt s) (sv_iterations s)"
  shows "scram_field m3 ''r='' = Some (sv_clientNonce s1 @ sv_serverNonce s) \<and>
         scram_field m3 ''c='' = Some channelBinding \<and>
         (\<exists>idx. str_index m3 '',p='' = Some idx \<and>
            proves_key ck (sv_clientFirstBare s1 @ '','' @ m2 @ '','' @ take idx m3) m3)"
  by (rule HandleClientFinal_proof [OF assms])

lemma HandleClientFinal_sound_witness:
  "\<exists>s s1 m1 m2 m3 m4. HandleClientFirst (\<lambda>p salt i. p) s m1 = (Inr m2, s1) \<and>
     HandleClientFinal s1 m3 = Inr m4 \<and> scram_field m3 ''r='' = Some (sv_clientNonce s1 @ sv_serverNonce s)"
proof -
  obtain c s where "NewClient ''secret'' (Some []) = Inr c" and "NewServer ''secret'' (Some []) (Some []) = Inr s"
    by (simp add: NewClient_def NewServer_def newNonce_def)
  from scram_honest [OF this, of "\<lambda>p salt i. p"] obtain m2 s1 m3 m4 where
    h: "HandleClientFirst (\<lambda>p salt i. p) s (fst (FirstMessage c)) = (Inr m2, s1)" "HandleClientFinal s1 m3 = Inr m4"
    by blast
  from HandleClientFinal_sound [OF h refl] h show ?thesis by blast
qed

end
