(* ===== verification/Backend.thy ===== *)
theory Backend
  imports Scram
begin

text \<open>
  \<^verbatim>\<open>internal/backend/backend.go\<close>: the proxy's own connections to a server. pgproto3, which frames and
  decodes the messages, is a library: a connection is the list of messages that are still to be read from
  the socket (the list's end is a failing \<^verbatim>\<open>Receive\<close>: the connection is lost or its deadline has passed),
  the messages sent, and how many more flushes succeed (\<open>None\<close>: all). Each call makes a \<^verbatim>\<open>Frontend\<close> of its
  own, which buffers: a read of the socket returns all that has arrived, and what the call does not receive
  of it is gone with the \<^verbatim>\<open>Frontend\<close> when the call returns. How many messages a read finds depends on the
  network and is a parameter of the connection; that a read can also end inside a message is left out.
  Deadlines are set on the socket and have no other trace.
\<close>


subsection \<open>Messages and connections\<close>

datatype bmsg =
  AuthenticationSASL "string list"
| AuthenticationSASLContinue string
| AuthenticationSASLFinal string
| AuthenticationOk
| ParameterStatus string string
| BackendKeyData uint32 uint32
| ReadyForQuery byte
| ErrorResponse string string
| NoticeResponse
| DataRow "string option list"
| EmptyQueryResponse
| OtherMsg

datatype fmsg =
  StartupMessage string string
| SASLInitialResponse string string
| SASLResponse string
| QueryMsg string

text \<open>
  \<open>wc_reads\<close>: how many messages beyond the first each read of the socket returns, as far as there are so many;
  none when the list is used up.
\<close>

record wire_conn =
  wc_in :: "bmsg list"
  wc_out :: "fmsg list"
  wc_flushes :: "nat option"
  wc_reads :: "nat list"

record Frontend =
  fe_buf :: "bmsg list"
  fe_raw :: wire_conn

record Conn =
  cn_params :: "string \<rightharpoonup> string"
  cn_pid :: uint32
  cn_key :: uint32

datatype backend_err =
  BeFlush | BeReceive | BeServer string string | BeMechanisms "string list" | BeScram scram_err
| BeUnexpectedContinue | BeUnexpectedFinal | BeUnexpectedMessage bmsg | BeDial

definition scramMechanism :: string where "scramMechanism = ''SCRAM-SHA-256''"

text \<open>\<^verbatim>\<open>Send\<close> and \<^verbatim>\<open>Flush\<close>.\<close>

definition send_flush :: "fmsg \<Rightarrow> wire_conn \<Rightarrow> bool \<times> wire_conn" where
  "send_flush m w =
     (case wc_flushes w of
        None \<Rightarrow> (True, w\<lparr>wc_out := wc_out w @ [m]\<rparr>)
      | Some 0 \<Rightarrow> (False, w)
      | Some (Suc n) \<Rightarrow> (True, w\<lparr>wc_out := wc_out w @ [m], wc_flushes := Some n\<rparr>))"


definition NewFrontend :: "wire_conn \<Rightarrow> Frontend" where
  "NewFrontend w = \<lparr>fe_buf = [], fe_raw = w\<rparr>"

definition fe_send_flush :: "fmsg \<Rightarrow> Frontend \<Rightarrow> bool \<times> Frontend" where
  "fe_send_flush m fe = (case send_flush m (fe_raw fe) of (ok, w) \<Rightarrow> (ok, fe\<lparr>fe_raw := w\<rparr>))"

text \<open>\<^verbatim>\<open>Receive\<close>: from the buffer, or after a read of the socket.\<close>

definition fe_Receive :: "Frontend \<Rightarrow> (bmsg \<times> Frontend) option" where
  "fe_Receive fe =
     (case fe_buf fe of
        m # ms \<Rightarrow> Some (m, fe\<lparr>fe_buf := ms\<rparr>)
      | [] \<Rightarrow>
          (case wc_in (fe_raw fe) of
             [] \<Rightarrow> None
           | m # ms \<Rightarrow>
               let k = (case wc_reads (fe_raw fe) of [] \<Rightarrow> 0 | n # _ \<Rightarrow> n)
               in Some (m, \<lparr>fe_buf = take k ms,
                            fe_raw = (fe_raw fe)\<lparr>wc_in := drop k ms, wc_reads := tl (wc_reads (fe_raw fe))\<rparr>\<rparr>)))"

text \<open>What is still to be received, whether it has been read ahead or not.\<close>

definition fe_pending :: "Frontend \<Rightarrow> bmsg list" where
  "fe_pending fe = fe_buf fe @ wc_in (fe_raw fe)"

lemma fe_Receive_pending:
  "fe_Receive fe = None \<longleftrightarrow> fe_pending fe = []"
  "fe_Receive fe = Some (m, fe') \<Longrightarrow> fe_pending fe = m # fe_pending fe' \<and> wc_out (fe_raw fe') = wc_out (fe_raw fe) \<and>
     wc_flushes (fe_raw fe') = wc_flushes (fe_raw fe)"
  by (auto simp: fe_Receive_def fe_pending_def Let_def split: list.splits)


subsection \<open>Simple queries\<close>

text \<open>\<^verbatim>\<open>frontend\<close>: a new \<^verbatim>\<open>Frontend\<close> for the call; at its end the connection without what was read ahead.\<close>

definition with_frontend :: "(Frontend \<Rightarrow> 'r \<times> Frontend) \<Rightarrow> wire_conn \<Rightarrow> 'r \<times> wire_conn" where
  "with_frontend call w = (case call (NewFrontend w) of (r, fe) \<Rightarrow> (r, fe_raw fe))"

function simple_loop :: "Frontend \<Rightarrow> backend_err option \<times> Frontend" where
  "simple_loop fe =
     (case fe_Receive fe of
        None \<Rightarrow> (Some BeReceive, fe)
      | Some (m, fe1) \<Rightarrow>
          (case m of
             ReadyForQuery _ \<Rightarrow> (None, fe1)
           | ErrorResponse code message \<Rightarrow> (Some (BeServer code message), fe1)
           | _ \<Rightarrow> simple_loop fe1))"
  by pat_completeness auto
termination
  by (relation "measure (\<lambda>fe. length (fe_pending fe))") (auto dest!: fe_Receive_pending(2))

declare simple_loop.simps [simp del]

definition runSimple :: "string \<Rightarrow> Frontend \<Rightarrow> backend_err option \<times> Frontend" where
  "runSimple sql fe =
     (case fe_send_flush (QueryMsg sql) fe of
        (False, fe1) \<Rightarrow> (Some BeFlush, fe1)
      | (True, fe1) \<Rightarrow> simple_loop fe1)"

definition Conn_Reset :: "wire_conn \<Rightarrow> backend_err option \<times> wire_conn" where
  "Conn_Reset w =
     with_frontend (\<lambda>fe. case runSimple ''ROLLBACK'' fe of
                           (Some e, fe1) \<Rightarrow> (Some e, fe1)
                         | (None, fe1) \<Rightarrow> runSimple ''DISCARD ALL'' fe1) w"

definition DiscardAll :: "wire_conn \<Rightarrow> backend_err option \<times> wire_conn" where
  "DiscardAll w = with_frontend (runSimple ''DISCARD ALL'') w"






subsection \<open>Authentication\<close>

text \<open>
  The loop of \<^verbatim>\<open>authenticate\<close>: \<open>rands\<close> is what the random source gives to the clients it makes, \<open>sc\<close> the SCRAM
  client made so far. The result is the error or the connection.
\<close>

lemma fe_send_pending: "fe_send_flush m fe = (ok, fe') \<Longrightarrow> fe_pending fe' = fe_pending fe \<and> fe_buf fe' = fe_buf fe"
  by (auto simp: fe_send_flush_def send_flush_def fe_pending_def split: prod.splits option.splits nat.splits)

function auth_loop ::
  "kdf \<Rightarrow> string \<Rightarrow> byte list option list \<Rightarrow> Client option \<Rightarrow> Conn \<Rightarrow> Frontend \<Rightarrow> (backend_err + Conn) \<times> Frontend"
where
  "auth_loop kdf password rands sc c fe =
     (case fe_Receive fe of
        None \<Rightarrow> (Inl BeReceive, fe)
      | Some (m, fe1) \<Rightarrow>
     (case m of
        AuthenticationSASL mechs \<Rightarrow>
          if scramMechanism \<notin> set mechs then (Inl (BeMechanisms mechs), fe1)
          else (case NewClient password (case rands of [] \<Rightarrow> None | r # _ \<Rightarrow> r) of
                  Inl e \<Rightarrow> (Inl (BeScram e), fe1)
                | Inr cl \<Rightarrow>
                    (case FirstMessage cl of (data, cl1) \<Rightarrow>
                       (case fe_send_flush (SASLInitialResponse scramMechanism data) fe1 of
                          (False, fe2) \<Rightarrow> (Inl BeFlush, fe2)
                        | (True, fe2) \<Rightarrow> auth_loop kdf password (drop 1 rands) (Some cl1) c fe2)))
      | AuthenticationSASLContinue data \<Rightarrow>
          (case sc of
             None \<Rightarrow> (Inl BeUnexpectedContinue, fe1)
           | Some cl \<Rightarrow>
               (case HandleServerFirst kdf cl data of
                  (Inl e, cl1) \<Rightarrow> (Inl (BeScram e), fe1)
                | (Inr final, cl1) \<Rightarrow>
                    (case fe_send_flush (SASLResponse final) fe1 of
                       (False, fe2) \<Rightarrow> (Inl BeFlush, fe2)
                     | (True, fe2) \<Rightarrow> auth_loop kdf password rands (Some cl1) c fe2)))
      | AuthenticationSASLFinal data \<Rightarrow>
          (case sc of
             None \<Rightarrow> (Inl BeUnexpectedFinal, fe1)
           | Some cl \<Rightarrow>
               (case HandleServerFinal cl data of
                  Some e \<Rightarrow> (Inl (BeScram e), fe1)
                | None \<Rightarrow> auth_loop kdf password rands sc c fe1))
      | AuthenticationOk \<Rightarrow> auth_loop kdf password rands sc c fe1
      | ParameterStatus n v \<Rightarrow> auth_loop kdf password rands sc (c\<lparr>cn_params := (cn_params c)(n \<mapsto> v)\<rparr>) fe1
      | BackendKeyData pid key \<Rightarrow> auth_loop kdf password rands sc (c\<lparr>cn_pid := pid, cn_key := key\<rparr>) fe1
      | ReadyForQuery _ \<Rightarrow> (Inr c, fe1)
      | ErrorResponse code message \<Rightarrow> (Inl (BeServer code message), fe1)
      | NoticeResponse \<Rightarrow> auth_loop kdf password rands sc c fe1
      | _ \<Rightarrow> (Inl (BeUnexpectedMessage m), fe1)))"
  by pat_completeness auto
termination
  by (relation "measure (\<lambda>(kdf, password, rands, sc, c, fe). length (fe_pending fe))")
     (auto dest!: fe_Receive_pending(2) fe_send_pending [OF sym])

declare auth_loop.simps [simp del]

definition authenticate ::
  "kdf \<Rightarrow> string \<Rightarrow> string \<Rightarrow> string \<Rightarrow> byte list option list \<Rightarrow> wire_conn \<Rightarrow> (backend_err + Conn) \<times> wire_conn"
where
  "authenticate kdf user password database rands w =
     with_frontend (\<lambda>fe. case fe_send_flush (StartupMessage user database) fe of
                           (False, fe1) \<Rightarrow> (Inl BeFlush, fe1)
                         | (True, fe1) \<Rightarrow> auth_loop kdf password rands None \<lparr>cn_params = Map.empty, cn_pid = 0, cn_key = 0\<rparr> fe1) w"

text \<open>\<^verbatim>\<open>Dial\<close>: \<open>raw\<close> is what the dialer gave; a connection that does not authenticate is closed.\<close>

definition Dial ::
  "kdf \<Rightarrow> wire_conn option \<Rightarrow> string \<Rightarrow> string \<Rightarrow> string \<Rightarrow> byte list option list
   \<Rightarrow> (backend_err + Conn \<times> wire_conn) \<times> bool"
where
  "Dial kdf raw user password database rands =
     (case raw of
        None \<Rightarrow> (Inl BeDial, False)
      | Some w \<Rightarrow>
          (case authenticate kdf user password database rands w of
             (Inl e, _) \<Rightarrow> (Inl e, True)
           | (Inr c, w1) \<Rightarrow> (Inr (c, w1), False)))"


subsection \<open>Lemmas\<close>

text \<open>The messages of a response that neither end it nor report an error.\<close>

definition quiet :: "bmsg \<Rightarrow> bool" where
  "quiet m \<longleftrightarrow> (case m of ReadyForQuery _ \<Rightarrow> False | ErrorResponse _ _ \<Rightarrow> False | _ \<Rightarrow> True)"

text \<open>A receive of a known stream, by what is still to be received.\<close>

lemma fe_Receive_Cons:
  assumes "fe_pending fe = m # ms"
  obtains fe' where "fe_Receive fe = Some (m, fe')" "fe_pending fe' = ms" "wc_out (fe_raw fe') = wc_out (fe_raw fe)"
    "wc_flushes (fe_raw fe') = wc_flushes (fe_raw fe)"
proof (cases "fe_Receive fe")
  case None
  with assms fe_Receive_pending(1) [of fe] show thesis by simp
next
  case (Some p)
  obtain m' fe' where p: "p = (m', fe')" by (cases p)
  from fe_Receive_pending(2) [OF Some [unfolded p]] assms Some p that show thesis by simp
qed

lemma fe_send_ok:
  "wc_flushes (fe_raw fe) = None \<Longrightarrow>
   fe_send_flush m fe = (True, fe\<lparr>fe_raw := (fe_raw fe)\<lparr>wc_out := wc_out (fe_raw fe) @ [m]\<rparr>\<rparr>)"
  by (simp add: fe_send_flush_def send_flush_def)

lemma simple_loop_quiet: "fe_Receive fe = Some (m, fe1) \<Longrightarrow> quiet m \<Longrightarrow> simple_loop fe = simple_loop fe1"
  by (cases m) (simp_all add: simple_loop.simps [of fe] quiet_def)


lemma simple_loop_ok:
  "simple_loop fe = (None, fe') \<Longrightarrow>
   \<exists>pre st. fe_pending fe = pre @ ReadyForQuery st # fe_pending fe' \<and> list_all quiet pre \<and> wc_out (fe_raw fe') = wc_out (fe_raw fe)"
proof (induction "length (fe_pending fe)" arbitrary: fe rule: less_induct)
  case less
  then obtain m fe1 where r: "fe_Receive fe = Some (m, fe1)" by (auto simp: simple_loop.simps [of fe] split: option.splits)
  note p = fe_Receive_pending(2) [OF r]
  show ?case
  proof (cases "quiet m")
    case True
    with less.prems simple_loop_quiet [OF r] have "simple_loop fe1 = (None, fe')" by simp
    from less.hyps [OF _ this] p obtain pre st where "fe_pending fe1 = pre @ ReadyForQuery st # fe_pending fe'" "list_all quiet pre"
        "wc_out (fe_raw fe') = wc_out (fe_raw fe1)" by auto
    with p True show ?thesis by (intro exI [of _ "m # pre"] exI [of _ st]) simp
  next
    case False
    with less.prems r obtain st where "m = ReadyForQuery st" "fe' = fe1"
      by (cases m) (auto simp: simple_loop.simps [of fe] quiet_def)
    with p show ?thesis by (intro exI [of _ "[]"]) simp
  qed
qed

lemma runSimple_ok:
  assumes "runSimple sql fe = (None, fe')"
  obtains pre st where "fe_pending fe = pre @ ReadyForQuery st # fe_pending fe'" "list_all quiet pre"
    "wc_out (fe_raw fe') = wc_out (fe_raw fe) @ [QueryMsg sql]"
proof -
  from assms obtain fe1 where f: "fe_send_flush (QueryMsg sql) fe = (True, fe1)" "simple_loop fe1 = (None, fe')"
    by (auto simp: runSimple_def split: prod.splits bool.splits)
  have "fe_pending fe1 = fe_pending fe" "wc_out (fe_raw fe1) = wc_out (fe_raw fe) @ [QueryMsg sql]"
    using f(1) by (auto simp: fe_send_flush_def send_flush_def fe_pending_def split: prod.splits option.splits nat.splits)
  with simple_loop_ok [OF f(2)] that show thesis by auto
qed





subsection \<open>Properties\<close>

text \<open>
  A connection that was reset is clean and in step: when \<^verbatim>\<open>Reset\<close> succeeds, exactly \<^verbatim>\<open>ROLLBACK\<close> and
  then \<^verbatim>\<open>DISCARD ALL\<close> were sent, each was answered without an error up to its \<^verbatim>\<open>ReadyForQuery\<close>, and what is
  left to be received is what follows the second \<^verbatim>\<open>ReadyForQuery\<close>, less what had arrived of it already:
  nothing of the answers stays behind.
\<close>

theorem Reset_in_step:
  assumes "Conn_Reset w = (None, w')"
  shows "wc_out w' = wc_out w @ [QueryMsg ''ROLLBACK'', QueryMsg ''DISCARD ALL''] \<and>
         (\<exists>pre1 st1 pre2 st2 ahead. wc_in w = pre1 @ [ReadyForQuery st1] @ pre2 @ [ReadyForQuery st2] @ ahead @ wc_in w' \<and>
            list_all quiet pre1 \<and> list_all quiet pre2)"
proof -
  obtain fe1 fe2 where r: "runSimple ''ROLLBACK'' (NewFrontend w) = (None, fe1)" "runSimple ''DISCARD ALL'' fe1 = (None, fe2)" "w' = fe_raw fe2"
    using assms by (auto simp: Conn_Reset_def with_frontend_def split: prod.splits option.splits)
  from runSimple_ok [OF r(1)] obtain pre1 st1 where
    1: "fe_pending (NewFrontend w) = pre1 @ ReadyForQuery st1 # fe_pending fe1" "list_all quiet pre1"
      "wc_out (fe_raw fe1) = wc_out (fe_raw (NewFrontend w)) @ [QueryMsg ''ROLLBACK'']" .
  from runSimple_ok [OF r(2)] obtain pre2 st2 where
    2: "fe_pending fe1 = pre2 @ ReadyForQuery st2 # fe_pending fe2" "list_all quiet pre2"
      "wc_out (fe_raw fe2) = wc_out (fe_raw fe1) @ [QueryMsg ''DISCARD ALL'']" .
  have "wc_in w = pre1 @ [ReadyForQuery st1] @ pre2 @ [ReadyForQuery st2] @ fe_buf fe2 @ wc_in w'"
    using 1(1) 2(1) r(3) by (simp add: fe_pending_def NewFrontend_def)
  moreover have "wc_out w' = wc_out w @ [QueryMsg ''ROLLBACK'', QueryMsg ''DISCARD ALL'']"
    using 1(3) 2(3) r(3) by (simp add: NewFrontend_def)
  ultimately show ?thesis using 1(2) 2(2) by blast
qed

lemma Reset_in_step_witness:
  "\<exists>w'. Conn_Reset \<lparr>wc_in = [NoticeResponse, ReadyForQuery 73, OtherMsg, ReadyForQuery 73], wc_out = [], wc_flushes = None, wc_reads = [1]\<rparr> = (None, w') \<and>
     wc_out w' = [QueryMsg ''ROLLBACK'', QueryMsg ''DISCARD ALL'']"
proof -
  let ?w = "\<lparr>wc_in = [NoticeResponse, ReadyForQuery 73, OtherMsg, ReadyForQuery 73], wc_out = [], wc_flushes = None, wc_reads = [1]\<rparr>"
  obtain w' where "Conn_Reset ?w = (None, w')"
    by (simp add: Conn_Reset_def with_frontend_def NewFrontend_def runSimple_def fe_send_flush_def send_flush_def simple_loop.simps fe_Receive_def Let_def)
  with Reset_in_step [OF this] show ?thesis by simp
qed



text \<open>
  Authentication against an honest server succeeds: whatever nonces and salt are drawn and however the server's
  messages arrive, when the server runs the other side of the exchange with the same password and then reports
  its parameters and its key data, \<^verbatim>\<open>authenticate\<close> returns the connection with exactly these, and with nothing
  left to be read.
\<close>

theorem authenticate_honest_server:
  assumes "NewClient password (Some r1) = Inr cl" "NewServer password (Some r2) (Some salt) = Inr sv"
    and "HandleClientFirst kdf sv (fst (FirstMessage cl)) = (Inr m2, sv1)"
    and "HandleServerFirst kdf (snd (FirstMessage cl)) m2 = (Inr m3, cl2)"
    and "HandleClientFinal sv1 m3 = Inr m4"
    and "wc_in w = [AuthenticationSASL [scramMechanism], AuthenticationSASLContinue m2, AuthenticationSASLFinal m4,
                    AuthenticationOk, ParameterStatus n v, BackendKeyData pid key, ReadyForQuery st]"
    and "wc_flushes w = None"
  shows "\<exists>w'. authenticate kdf user password database (Some r1 # rands) w =
           (Inr \<lparr>cn_params = [n \<mapsto> v], cn_pid = pid, cn_key = key\<rparr>, w') \<and> wc_in w' = [] \<and>
           wc_out w' = wc_out w @ [StartupMessage user database,
                                   SASLInitialResponse scramMechanism (fst (FirstMessage cl)), SASLResponse m3]"
proof -
  obtain m2' s1' m3' c2' m4' where h:
    "HandleClientFirst kdf sv (fst (FirstMessage cl)) = (Inr m2', s1')"
    "HandleServerFirst kdf (snd (FirstMessage cl)) m2' = (Inr m3', c2')"
    "HandleClientFinal s1' m3' = Inr m4'" "HandleServerFinal c2' m4' = None"
    using scram_honest [OF assms(1,2), of kdf] by blast
  with assms(3-5) have fin: "HandleServerFinal cl2 m4 = None" by simp
  let ?send = "\<lambda>m fe. fe\<lparr>fe_raw := (fe_raw fe)\<lparr>wc_out := wc_out (fe_raw fe) @ [m]\<rparr>\<rparr>"
  have send: "fe_pending (?send m fe) = fe_pending fe" for m fe by (simp add: fe_pending_def)
  let ?fe0 = "?send (StartupMessage user database) (NewFrontend w)"
  let ?c0 = "\<lparr>cn_params = Map.empty, cn_pid = 0, cn_key = 0\<rparr>" and ?c1 = "\<lparr>cn_params = [n \<mapsto> v], cn_pid = 0, cn_key = 0\<rparr>"
  have 0: "fe_pending ?fe0 = [AuthenticationSASL [scramMechanism], AuthenticationSASLContinue m2, AuthenticationSASLFinal m4,
      AuthenticationOk, ParameterStatus n v, BackendKeyData pid key, ReadyForQuery st]" "wc_flushes (fe_raw ?fe0) = None"
    "wc_out (fe_raw ?fe0) = wc_out w @ [StartupMessage user database]"
    using assms(6,7) by (simp_all add: fe_pending_def NewFrontend_def)
  obtain fe1 where 1: "fe_Receive ?fe0 = Some (AuthenticationSASL [scramMechanism], fe1)" "fe_pending fe1 = tl (fe_pending ?fe0)"
    "wc_out (fe_raw fe1) = wc_out (fe_raw ?fe0)" "wc_flushes (fe_raw fe1) = None"
    using fe_Receive_Cons [OF 0(1)] 0 by (metis list.sel(3))
  let ?fe1 = "?send (SASLInitialResponse scramMechanism (fst (FirstMessage cl))) fe1"
  have e1: "auth_loop kdf password (Some r1 # rands) None ?c0 ?fe0 = auth_loop kdf password rands (Some (snd (FirstMessage cl))) ?c0 ?fe1"
    by (subst auth_loop.simps) (simp add: 1(1,4) assms(1) fe_send_ok split_beta)
  have p1: "fe_pending ?fe1 = [AuthenticationSASLContinue m2, AuthenticationSASLFinal m4, AuthenticationOk, ParameterStatus n v,
      BackendKeyData pid key, ReadyForQuery st]" using send 1(2) 0(1) by simp
  obtain fe2 where 2: "fe_Receive ?fe1 = Some (AuthenticationSASLContinue m2, fe2)"
    "fe_pending fe2 = [AuthenticationSASLFinal m4, AuthenticationOk, ParameterStatus n v, BackendKeyData pid key, ReadyForQuery st]"
    "wc_out (fe_raw fe2) = wc_out (fe_raw ?fe1)" "wc_flushes (fe_raw fe2) = wc_flushes (fe_raw ?fe1)"
    by (rule fe_Receive_Cons [OF p1])
  have n2: "wc_flushes (fe_raw fe2) = None" using 2(4) 1(4) by simp
  let ?fe2 = "?send (SASLResponse m3) fe2"
  have e2: "auth_loop kdf password rands (Some (snd (FirstMessage cl))) ?c0 ?fe1 = auth_loop kdf password rands (Some cl2) ?c0 ?fe2"
    by (subst auth_loop.simps) (simp add: 2(1) n2 assms(4) fe_send_ok)
  have p2: "fe_pending ?fe2 = [AuthenticationSASLFinal m4, AuthenticationOk, ParameterStatus n v, BackendKeyData pid key, ReadyForQuery st]"
    using send 2(2) by simp
  have rest: "\<exists>fe'. auth_loop kdf password rands (Some cl2) ?c0 ?fe2 = (Inr (?c1\<lparr>cn_pid := pid, cn_key := key\<rparr>), fe') \<and>
      fe_pending fe' = [] \<and> wc_out (fe_raw fe') = wc_out (fe_raw ?fe2)"
  proof -
    obtain f3 where 3: "fe_Receive ?fe2 = Some (AuthenticationSASLFinal m4, f3)"
      "fe_pending f3 = [AuthenticationOk, ParameterStatus n v, BackendKeyData pid key, ReadyForQuery st]" "wc_out (fe_raw f3) = wc_out (fe_raw ?fe2)"
      by (rule fe_Receive_Cons [OF p2])
    obtain f4 where 4: "fe_Receive f3 = Some (AuthenticationOk, f4)"
      "fe_pending f4 = [ParameterStatus n v, BackendKeyData pid key, ReadyForQuery st]" "wc_out (fe_raw f4) = wc_out (fe_raw f3)"
      by (rule fe_Receive_Cons [OF 3(2)])
    obtain f5 where 5: "fe_Receive f4 = Some (ParameterStatus n v, f5)"
      "fe_pending f5 = [BackendKeyData pid key, ReadyForQuery st]" "wc_out (fe_raw f5) = wc_out (fe_raw f4)"
      by (rule fe_Receive_Cons [OF 4(2)])
    obtain f6 where 6: "fe_Receive f5 = Some (BackendKeyData pid key, f6)"
      "fe_pending f6 = [ReadyForQuery st]" "wc_out (fe_raw f6) = wc_out (fe_raw f5)"
      by (rule fe_Receive_Cons [OF 5(2)])
    obtain f7 where 7: "fe_Receive f6 = Some (ReadyForQuery st, f7)" "fe_pending f7 = []" "wc_out (fe_raw f7) = wc_out (fe_raw f6)"
      by (rule fe_Receive_Cons [OF 6(2)])
    note step = auth_loop.simps [of kdf password rands "Some cl2"]
    show ?thesis
      by (simp add: step [of _ ?fe2] step [of _ f3] step [of _ f4] step [of _ f5] step [of _ f6] 3(1) 4(1) 5(1) 6(1) 7(1) fin
          7(2,3) 6(3) 5(3) 4(3) 3(3))
  qed
  then obtain fe' where fe': "auth_loop kdf password rands (Some cl2) ?c0 ?fe2 = (Inr (?c1\<lparr>cn_pid := pid, cn_key := key\<rparr>), fe')"
    "fe_pending fe' = []" "wc_out (fe_raw fe') = wc_out (fe_raw ?fe2)" by blast
  have "wc_out (fe_raw fe') = wc_out w @ [StartupMessage user database, SASLInitialResponse scramMechanism (fst (FirstMessage cl)), SASLResponse m3]"
    using fe'(3) 2(3) 1(3) 0(3) by simp
  moreover have "authenticate kdf user password database (Some r1 # rands) w = (Inr \<lparr>cn_params = [n \<mapsto> v], cn_pid = pid, cn_key = key\<rparr>, fe_raw fe')"
    using e1 e2 fe'(1) assms(7) by (simp add: authenticate_def with_frontend_def fe_send_ok NewFrontend_def)
  ultimately show ?thesis using fe'(2) by (auto simp: fe_pending_def)
qed

lemma authenticate_honest_server_witness:
  "\<exists>w c w' rest. wc_in w = AuthenticationSASL [scramMechanism] # rest \<and>
     authenticate (\<lambda>p salt i. p) ''u'' ''secret'' ''db'' [Some []] w = (Inr c, w') \<and> wc_in w' = []"
proof -
  obtain cl sv where n: "NewClient ''secret'' (Some []) = Inr cl" "NewServer ''secret'' (Some []) (Some []) = Inr sv"
    by (simp add: NewClient_def NewServer_def newNonce_def)
  from scram_honest [OF n, of "\<lambda>p salt i. p"] obtain m2 s1 m3 c2 m4 where h:
    "HandleClientFirst (\<lambda>p salt i. p) sv (fst (FirstMessage cl)) = (Inr m2, s1)"
    "HandleServerFirst (\<lambda>p salt i. p) (snd (FirstMessage cl)) m2 = (Inr m3, c2)"
    "HandleClientFinal s1 m3 = Inr m4" by blast
  let ?w = "\<lparr>wc_in = [AuthenticationSASL [scramMechanism], AuthenticationSASLContinue m2, AuthenticationSASLFinal m4,
                    AuthenticationOk, ParameterStatus [] [], BackendKeyData 0 0, ReadyForQuery 73],
             wc_out = [], wc_flushes = None, wc_reads = [0, 3]\<rparr>"
  from authenticate_honest_server [OF n h, of ?w "[]" "[]" 0 0 73 "''u''" "''db''" "[]"]
  show ?thesis by (intro exI [of _ ?w]) auto
qed

text \<open>
  \<^verbatim>\<open>authenticate\<close> does not insist on SCRAM: a server that sends \<^verbatim>\<open>AuthenticationOk\<close> and \<^verbatim>\<open>ReadyForQuery\<close>
  at once is accepted, without any proof of the server's knowledge of the password.
\<close>

theorem authenticate_without_server_signature:
  assumes "wc_in w = [AuthenticationOk, ReadyForQuery st]" "wc_flushes w = None"
  shows "fst (authenticate kdf user password database rands w) =
           Inr \<lparr>cn_params = Map.empty, cn_pid = 0, cn_key = 0\<rparr>"
  using assms by (cases "wc_reads w") (auto simp: authenticate_def with_frontend_def fe_send_ok NewFrontend_def auth_loop.simps fe_Receive_def Let_def take_Cons drop_Cons split: nat.splits)

lemma authenticate_without_server_signature_witness:
  "fst (authenticate (\<lambda>p s i. p) ''u'' ''secret'' ''db'' []
      \<lparr>wc_in = [AuthenticationOk, ReadyForQuery 73], wc_out = [], wc_flushes = None, wc_reads = []\<rparr>) =
     Inr \<lparr>cn_params = Map.empty, cn_pid = 0, cn_key = 0\<rparr>"
  by (rule authenticate_without_server_signature) simp_all

end
