(* ===== verification/Session.thy ===== *)
theory Session
  imports Config Classify RouterScored Relay TxStatus Backend
begin

text \<open>
  \<^verbatim>\<open>internal/proxy/session.go\<close>, routing mode: which backend serves each query of a session. What the
  session calls on other components is the environment: \<open>e_acquire env t\<close> is what the manager's
  \<^verbatim>\<open>AcquireAt\<close> returns at the session's \<open>t\<close>-th call, \<open>e_snapshot env t\<close> the registry's snapshot, \<open>e_policy env t\<close>
  the state of the routing policy that the sessions share, and so on. Every answer those components
  can give, at any moment and after any interference of other sessions, is one of these functions;
  nothing is assumed of them unless a statement says so. The state is the number of calls so far and
  a log of what the session did, in which the statements read off what was acquired, given back,
  chosen, released and counted. When a session is handed over to \<^verbatim>\<open>relayPooled\<close> (theory Serve), its outcome is the
  answer \<open>e_relayPooled\<close>; what that relay forwards is not in the log.
\<close>


subsection \<open>The environment\<close>

record env =
  e_snapshot :: "nat \<Rightarrow> Status list"
  e_policy :: "nat \<Rightarrow> Policy"
  e_acquire :: "nat \<Rightarrow> address \<Rightarrow> string + conn"
  e_write :: "nat \<Rightarrow> conn \<Rightarrow> bool"
  e_relay :: "nat \<Rightarrow> conn \<Rightarrow> relay_err + byte"
  e_relayPooled :: "nat \<Rightarrow> conn \<Rightarrow> bool"
  e_reset :: "nat \<Rightarrow> conn \<Rightarrow> bool"
  e_discardAll :: "nat \<Rightarrow> conn \<Rightarrow> bool"
  e_queryRow :: "nat \<Rightarrow> conn \<Rightarrow> backend_err + string list"
  e_elapsed :: "nat \<Rightarrow> int"
  e_parse :: parser
  e_fingerprint :: "string \<Rightarrow> string + string"

datatype session_event =
  LAcquire address conn
| LRelease address conn
| LDiscard address conn
| LChoose address string
| LPolicyRelease address string int
| LSend nat address conn "byte list"
| LRelay conn
| LReset conn
| LRouting string string
| LFenceFallback
| LReadFailover
| LLatency string int
| LFence uint64
| LReject string

record session_state =
  ss_t :: nat
  ss_log :: "session_event list"

definition log_ev :: "session_event \<Rightarrow> session_state \<Rightarrow> session_state" where
  "log_ev e s = s\<lparr>ss_log := ss_log s @ [e]\<rparr>"

definition tick :: "session_state \<Rightarrow> session_state" where
  "tick s = s\<lparr>ss_t := ss_t s + 1\<rparr>"

definition TargetPrimary :: string where "TargetPrimary = ''primary''"
definition TargetReplica :: string where "TargetReplica = ''replica''"
definition ReasonRead :: string where "ReasonRead = ''read''"
definition ReasonWrite :: string where "ReasonWrite = ''write''"
definition ReasonPinned :: string where "ReasonPinned = ''pinned''"
definition ReasonExtended :: string where "ReasonExtended = ''extended''"

text \<open>The calls of the manager, the connection and the policy.\<close>

definition call_acquire :: "env \<Rightarrow> address \<Rightarrow> session_state \<Rightarrow> conn option \<times> session_state" where
  "call_acquire env addr s =
     (case e_acquire env (ss_t s) addr of
        Inl _ \<Rightarrow> (None, tick s)
      | Inr c \<Rightarrow> (Some c, log_ev (LAcquire addr c) (tick s)))"

definition call_release :: "address \<Rightarrow> conn \<Rightarrow> session_state \<Rightarrow> session_state" where
  "call_release addr c s = log_ev (LRelease addr c) (tick s)"

definition call_discard :: "address \<Rightarrow> conn \<Rightarrow> session_state \<Rightarrow> session_state" where
  "call_discard addr c s = log_ev (LDiscard addr c) (tick s)"

definition call_write :: "env \<Rightarrow> address \<Rightarrow> conn \<Rightarrow> byte list \<Rightarrow> session_state \<Rightarrow> bool \<times> session_state" where
  "call_write env addr c full s = (e_write env (ss_t s) c, log_ev (LSend (ss_t s) addr c full) (tick s))"

definition call_relay :: "env \<Rightarrow> conn \<Rightarrow> session_state \<Rightarrow> (relay_err + byte) \<times> session_state" where
  "call_relay env c s = (e_relay env (ss_t s) c, log_ev (LRelay c) (tick s))"

definition call_policyRelease :: "address \<Rightarrow> string \<Rightarrow> int \<Rightarrow> session_state \<Rightarrow> session_state" where
  "call_policyRelease addr fp d s = log_ev (LPolicyRelease addr fp d) (tick s)"


subsection \<open>Choosing where a read goes\<close>

definition replicaEligible :: "Config \<Rightarrow> Status \<Rightarrow> uint64 \<Rightarrow> bool" where
  "replicaEligible cfg st fence =
     (if f_Mode (c_Fencing cfg) = FenceRelaxed then True
      else if f_Mode (c_Fencing cfg) = FenceBounded
        then f64_le (f64_mul (s_LagSeconds st) (Fin 1000)) (f64_of_int (f_BoundedMs (c_Fencing cfg)))
      else fence \<le> s_LSN st)"

fun read_candidates :: "Config \<Rightarrow> uint64 \<Rightarrow> address list \<Rightarrow> Status list \<Rightarrow> Candidate list" where
  "read_candidates cfg fence exclude [] = []"
| "read_candidates cfg fence exclude (st # snapshot) =
     (if s_Role st = RoleReplica \<and> s_Healthy st \<and> s_Addr st \<notin> set exclude \<and> replicaEligible cfg st fence
      then \<lparr>c_addr = s_Addr st, c_lagBytes = s_LagBytes st, c_lagSeconds = s_LagSeconds st\<rparr>
           # read_candidates cfg fence exclude snapshot
      else read_candidates cfg fence exclude snapshot)"

text \<open>\<^verbatim>\<open>selectReadTarget\<close>; \<open>None\<close> is a panic of the policy.\<close>

definition selectReadTarget ::
  "Config \<Rightarrow> env \<Rightarrow> Status list \<Rightarrow> uint64 \<Rightarrow> string \<Rightarrow> address list \<Rightarrow> session_state
   \<Rightarrow> ((address \<times> bool) \<times> session_state) option"
where
  "selectReadTarget cfg env snapshot fence fp exclude s =
     (let candidates = read_candidates cfg fence exclude snapshot
      in if length candidates = 0 then Some ((c_Primary cfg, False), s)
         else case fst (Policy_Choose (e_policy env (ss_t s)) candidates fp) of
                None \<Rightarrow> None
              | Some a \<Rightarrow> Some ((a, True), log_ev (LChoose a fp) (tick s)))"

text \<open>
  \<^verbatim>\<open>dispatchRead\<close>: the result is the connection, its address, and the address and fingerprint to
  release (empty when the policy was not asked); \<open>None\<close> inside when every candidate failed.
\<close>

type_synonym dispatched = "(conn \<times> address \<times> address \<times> string) option \<times> session_state"

text \<open>One turn of the loop: it returns (\<open>Inl\<close>), or excludes an address and goes on (\<open>Inr\<close>).\<close>

definition dispatch_turn ::
  "Config \<Rightarrow> env \<Rightarrow> byte list \<Rightarrow> uint64 \<Rightarrow> string \<Rightarrow> address list \<Rightarrow> session_state
   \<Rightarrow> (dispatched + address \<times> session_state) option"
where
  "dispatch_turn cfg env full fence fp exclude s =
     (case selectReadTarget cfg env (e_snapshot env (ss_t s)) fence fp exclude (tick s) of
        None \<Rightarrow> None
      | Some ((target, routed), s1) \<Rightarrow>
          (case call_acquire env target s1 of
             (Some c, s2) \<Rightarrow>
               (case call_write env target c full s2 of
                  (True, s3) \<Rightarrow>
                    if routed then Some (Inl (Some (c, target, target, fp), s3))
                    else Some (Inl (Some (c, target, [], []), s3))
                | (False, s3) \<Rightarrow>
                    let s4 = call_discard target c s3
                    in if \<not> routed then Some (Inl (None, s4))
                       else Some (Inr (target, log_ev LReadFailover (call_policyRelease target fp 0 s4))))
           | (None, s2) \<Rightarrow>
               if \<not> routed then Some (Inl (None, s2))
               else Some (Inr (target, log_ev LReadFailover (call_policyRelease target fp 0 s2)))))"

partial_function (option) dispatchRead ::
  "Config \<Rightarrow> env \<Rightarrow> byte list \<Rightarrow> uint64 \<Rightarrow> string \<Rightarrow> address list \<Rightarrow> session_state \<Rightarrow> dispatched option"
where
  "dispatchRead cfg env full fence fp exclude s =
     Option.bind (dispatch_turn cfg env full fence fp exclude s)
       (\<lambda>r. case r of
              Inl d \<Rightarrow> Some d
            | Inr p \<Rightarrow> dispatchRead cfg env full fence fp (fst p # exclude) (snd p))"

declare dispatchRead.simps [code]


subsection \<open>The routing loop\<close>

definition targetLabel :: "address \<Rightarrow> address \<Rightarrow> string" where
  "targetLabel addr primary = (if addr = primary then TargetPrimary else TargetReplica)"

definition recordDecision :: "bool \<Rightarrow> Class \<Rightarrow> address \<Rightarrow> address \<Rightarrow> bool \<Rightarrow> session_state \<Rightarrow> session_state" where
  "recordDecision newlyHeld class heldAddr primary routedToReplica s =
     (if \<not> newlyHeld then log_ev (LRouting (targetLabel heldAddr primary) ReasonPinned) s
      else if class = Read \<and> routedToReplica then log_ev (LRouting TargetReplica ReasonRead) s
      else if class = Read then log_ev LFenceFallback s
      else log_ev (LRouting TargetPrimary ReasonWrite) s)"

definition primaryLSN :: "env \<Rightarrow> conn \<Rightarrow> session_state \<Rightarrow> uint64 option \<times> session_state" where
  "primaryLSN env c s =
     (case e_queryRow env (ss_t s) c of
        Inl _ \<Rightarrow> (None, tick s)
      | Inr row \<Rightarrow>
          if length row < 1 then (None, tick s)
          else (case ParseLSN (row ! 0) of Inl _ \<Rightarrow> (None, tick s) | Inr lsn \<Rightarrow> (Some lsn, tick s)))"

definition finishBackendAt :: "env \<Rightarrow> address \<Rightarrow> conn \<Rightarrow> bool \<Rightarrow> session_state \<Rightarrow> session_state" where
  "finishBackendAt env addr c clean s =
     (if \<not> clean then call_discard addr c s
      else if \<not> e_reset env (ss_t s) c then call_discard addr c (tick s)
      else call_release addr c (log_ev (LReset c) (tick s)))"

record routing_vars =
  rv_held :: "(conn \<times> address) option"
  rv_wrote :: bool
  rv_fence :: uint64

datatype loop_result = Continue routing_vars | Return routing_vars

text \<open>\<^verbatim>\<open>relayPooled\<close>, then \<^verbatim>\<open>finishBackendAt\<close>: the session is pinned until its end.\<close>

definition hand_off :: "env \<Rightarrow> address \<Rightarrow> conn \<Rightarrow> routing_vars \<Rightarrow> session_state \<Rightarrow> loop_result \<times> session_state" where
  "hand_off env addr c v s =
     (let clean = e_relayPooled env (ss_t s) c
      in (Return (v\<lparr>rv_held := None\<rparr>), finishBackendAt env addr c clean (tick s)))"

text \<open>What is not a simple query: the extended protocol pins the session.\<close>

definition route_extended ::
  "Config \<Rightarrow> env \<Rightarrow> byte list \<Rightarrow> routing_vars \<Rightarrow> session_state \<Rightarrow> loop_result \<times> session_state"
where
  "route_extended cfg env full v s =
     (let primary = c_Primary cfg;
          (held, s1) = (case rv_held v of
                          Some h \<Rightarrow> (Some h, s)
                        | None \<Rightarrow> (case call_acquire env primary s of
                                     (Some c, s') \<Rightarrow> (Some (c, primary), s')
                                   | (None, s') \<Rightarrow> (None, s')))
      in case held of
           None \<Rightarrow> (Return v, log_ev (LReject ''53300'') s1)
         | Some (c, addr) \<Rightarrow>
             let s2 = log_ev (LRouting TargetPrimary ReasonExtended) s1
             in case call_write env addr c full s2 of
                  (False, s3) \<Rightarrow> (Return (v\<lparr>rv_held := None\<rparr>), call_discard addr c s3)
                | (True, s3) \<Rightarrow> hand_off env addr c (v\<lparr>rv_held := Some (c, addr)\<rparr>) s3)"

text \<open>After the answer: pin, stay in the transaction, or advance the fence and give back.\<close>

definition route_finish ::
  "Config \<Rightarrow> env \<Rightarrow> bool \<Rightarrow> byte \<Rightarrow> conn \<Rightarrow> address \<Rightarrow> routing_vars \<Rightarrow> session_state \<Rightarrow> loop_result \<times> session_state"
where
  "route_finish cfg env breaks status c addr v s =
     (if breaks then hand_off env addr c v s
      else if status \<noteq> StatusIdle then (Continue (v\<lparr>rv_held := Some (c, addr)\<rparr>), s)
      else
        let (v1, s1) =
              (if addr = c_Primary cfg \<and> rv_wrote v
               then (case primaryLSN env c s of
                       (Some lsn, s') \<Rightarrow> if rv_fence v < lsn then (v\<lparr>rv_fence := lsn\<rparr>, log_ev (LFence lsn) s')
                                         else (v, s')
                     | (None, s') \<Rightarrow> (v, s'))
               else (v, s))
        in (Continue (v1\<lparr>rv_wrote := False, rv_held := None\<rparr>), call_release addr c s1))"

text \<open>
  A simple query whose backend is held: send it unless \<^verbatim>\<open>dispatchRead\<close> did, relay the answer, release
  the policy's choice, and finish.
\<close>

definition route_run ::
  "Config \<Rightarrow> env \<Rightarrow> byte list \<Rightarrow> Class \<Rightarrow> bool \<Rightarrow> bool \<Rightarrow> bool \<Rightarrow> conn \<Rightarrow> address \<Rightarrow> address \<Rightarrow> string
   \<Rightarrow> routing_vars \<Rightarrow> session_state \<Rightarrow> loop_result \<times> session_state"
where
  "route_run cfg env full class breaks newlyHeld wroteToBackend c addr routedAddr routedFP v s =
     (let primary = c_Primary cfg;
          v1 = (if class = Write \<and> addr = primary then v\<lparr>rv_wrote := True\<rparr> else v);
          s1 = recordDecision newlyHeld class addr primary (routedAddr \<noteq> []) s;
          (sent, s2) = (if wroteToBackend then (True, s1) else call_write env addr c full s1)
      in if \<not> sent then (Return (v1\<lparr>rv_held := None\<rparr>), call_discard addr c s2)
         else
           let (answer, s3) = call_relay env c s2;
               elapsed = e_elapsed env (ss_t s3);
               s4 = (if routedAddr \<noteq> [] then call_policyRelease routedAddr routedFP elapsed s3 else s3);
               s5 = log_ev (LLatency (targetLabel addr primary) elapsed) s4
           in case answer of
                Inl _ \<Rightarrow> (Return (v1\<lparr>rv_held := None\<rparr>), call_discard addr c s5)
              | Inr status \<Rightarrow> route_finish cfg env breaks status c addr v1 s5)"

definition route_query ::
  "Config \<Rightarrow> env \<Rightarrow> byte list \<Rightarrow> routing_vars \<Rightarrow> session_state \<Rightarrow> (loop_result \<times> session_state) option"
where
  "route_query cfg env full v s =
     (let sql = queryString full;
          class = Classify (e_parse env) sql;
          breaks = (if class = Write then BreaksTxPooling (e_parse env) sql \<noteq> None else False)
      in case rv_held v of
           Some (c, addr) \<Rightarrow> Some (route_run cfg env full class breaks False False c addr [] [] v s)
         | None \<Rightarrow>
             if class = Read then
               let fp = (if NeedsFingerprint (e_policy env (ss_t s)) then Fingerprint (e_fingerprint env) sql else [])
               in case dispatchRead cfg env full (rv_fence v) fp [] s of
                    None \<Rightarrow> None
                  | Some (None, s1) \<Rightarrow> Some (Return v, log_ev (LReject ''53300'') s1)
                  | Some (Some (c, addr, routedAddr, routedFP), s1) \<Rightarrow>
                      Some (route_run cfg env full class breaks True True c addr routedAddr routedFP v s1)
             else
               (case call_acquire env (c_Primary cfg) s of
                  (None, s1) \<Rightarrow> Some (Return v, log_ev (LReject ''53300'') s1)
                | (Some c, s1) \<Rightarrow>
                    Some (route_run cfg env full class breaks True False c (c_Primary cfg) [] [] v s1)))"

text \<open>
  \<^verbatim>\<open>serveRouting\<close>: the client's messages in order, the list's end being a failing read; the deferred
  function discards a connection that is still held.
\<close>

definition routing_defer :: "routing_vars \<Rightarrow> session_state \<Rightarrow> session_state" where
  "routing_defer v s =
     (case rv_held v of None \<Rightarrow> s | Some (c, addr) \<Rightarrow> call_discard addr c s)"

fun serveRouting_loop ::
  "Config \<Rightarrow> env \<Rightarrow> (byte \<times> byte list) list \<Rightarrow> routing_vars \<Rightarrow> session_state \<Rightarrow> (routing_vars \<times> session_state) option"
where
  "serveRouting_loop cfg env [] v s = Some (v, s)"
| "serveRouting_loop cfg env ((msgType, full) # msgs) v s =
     (if msgType = MsgTerminate then Some (v, s)
      else case (if msgType \<noteq> MsgQuery then Some (route_extended cfg env full v s) else route_query cfg env full v s) of
             None \<Rightarrow> None
           | Some (Return v1, s1) \<Rightarrow> Some (v1, s1)
           | Some (Continue v1, s1) \<Rightarrow> serveRouting_loop cfg env msgs v1 s1)"

definition serveRouting ::
  "Config \<Rightarrow> env \<Rightarrow> (byte \<times> byte list) list \<Rightarrow> session_state \<Rightarrow> session_state option"
where
  "serveRouting cfg env msgs s =
     (case serveRouting_loop cfg env msgs \<lparr>rv_held = None, rv_wrote = False, rv_fence = 0\<rparr> s of
        None \<Rightarrow> None
      | Some (v, s1) \<Rightarrow> Some (routing_defer v s1))"



subsection \<open>What the log balances\<close>

fun ev_acquired :: "session_event \<Rightarrow> (address \<times> conn) multiset" where
  "ev_acquired (LAcquire a c) = {#(a, c)#}"
| "ev_acquired _ = {#}"

fun ev_returned :: "session_event \<Rightarrow> (address \<times> conn) multiset" where
  "ev_returned (LRelease a c) = {#(a, c)#}"
| "ev_returned (LDiscard a c) = {#(a, c)#}"
| "ev_returned _ = {#}"

fun ev_chosen :: "session_event \<Rightarrow> (address \<times> string) multiset" where
  "ev_chosen (LChoose a fp) = {#(a, fp)#}"
| "ev_chosen _ = {#}"

fun ev_released :: "session_event \<Rightarrow> (address \<times> string) multiset" where
  "ev_released (LPolicyRelease a fp _) = {#(a, fp)#}"
| "ev_released _ = {#}"

text \<open>A replica vouched for: a snapshot taken before call \<open>t\<close> shows it healthy at or past \<open>f\<close>.\<close>

definition vouched :: "env \<Rightarrow> nat \<Rightarrow> address \<Rightarrow> uint64 \<Rightarrow> bool" where
  "vouched env t addr f \<longleftrightarrow>
     (\<exists>t0 < t. \<exists>st \<in> set (e_snapshot env t0).
        s_Addr st = addr \<and> s_Role st = RoleReplica \<and> s_Healthy st \<and> f \<le> s_LSN st)"

definition strict :: "Config \<Rightarrow> bool" where
  "strict cfg \<longleftrightarrow> f_Mode (c_Fencing cfg) \<notin> {FenceRelaxed, FenceBounded}"

definition ok_target :: "Config \<Rightarrow> env \<Rightarrow> nat \<Rightarrow> address \<Rightarrow> uint64 \<Rightarrow> bool" where
  "ok_target cfg env t addr f \<longleftrightarrow> (strict cfg \<longrightarrow> addr = c_Primary cfg \<or> vouched env t addr f)"

text \<open>Every query sent so far went to the primary, or to a replica vouched for at every fence before.\<close>

definition sent_ok :: "Config \<Rightarrow> env \<Rightarrow> session_event list \<Rightarrow> session_event \<Rightarrow> bool" where
  "sent_ok cfg env pre e \<longleftrightarrow>
     (case e of
        LSend t addr c full \<Rightarrow> \<exists>f. ok_target cfg env t addr f \<and> (\<forall>l. LFence l \<in> set pre \<longrightarrow> l \<le> f)
      | _ \<Rightarrow> True)"

definition log_ok :: "Config \<Rightarrow> env \<Rightarrow> session_event list \<Rightarrow> bool" where
  "log_ok cfg env lg \<longleftrightarrow> every_at (sent_ok cfg env) lg"

text \<open>
  The connections a log leaves in the session's hands; and that the session uses a connection, gives it back or
  discards it only while it has it.
\<close>

definition held :: "session_event list \<Rightarrow> (address \<times> conn) multiset" where
  "held lg = tally ev_acquired lg - tally ev_returned lg"

definition uses_held :: "session_event list \<Rightarrow> session_event \<Rightarrow> bool" where
  "uses_held pre e \<longleftrightarrow>
     (case e of
        LSend t a c full \<Rightarrow> (a, c) \<in># held pre
      | LRelease a c \<Rightarrow> (a, c) \<in># held pre
      | LDiscard a c \<Rightarrow> (a, c) \<in># held pre
      | LRelay c \<Rightarrow> c \<in># image_mset snd (held pre)
      | LReset c \<Rightarrow> c \<in># image_mset snd (held pre)
      | _ \<Rightarrow> True)"

definition log_held :: "session_event list \<Rightarrow> bool" where
  "log_held lg \<longleftrightarrow> every_at uses_held lg"

definition sinv ::
  "Config \<Rightarrow> env \<Rightarrow> (address \<times> conn) multiset \<Rightarrow> (address \<times> string) multiset \<Rightarrow> uint64 \<Rightarrow> session_state \<Rightarrow> bool"
where
  "sinv cfg env H P f s \<longleftrightarrow>
     tally ev_acquired (ss_log s) = tally ev_returned (ss_log s) + H \<and>
     tally ev_chosen (ss_log s) = tally ev_released (ss_log s) + P \<and>
     log_ok cfg env (ss_log s) \<and> log_held (ss_log s) \<and> (\<forall>l. LFence l \<in> set (ss_log s) \<longrightarrow> l \<le> f)"

text \<open>
  What the program relies on for the policy to return a candidate: with the scored policy, finite
  counts and estimates and sane lags in the snapshots; and that a backend has an address.
\<close>

definition env_fit :: "env \<Rightarrow> bool" where
  "env_fit env \<longleftrightarrow>
     (\<forall>t st. st \<in> set (e_snapshot env t) \<longrightarrow> s_Addr st \<noteq> []) \<and>
     (\<forall>t p. e_policy env t = PScored p \<longrightarrow>
        scored_inv p \<and> (\<forall>a. sc_load p a < 2 ^ 63 - 1) \<and>
        (\<forall>t' st. st \<in> set (e_snapshot env t') \<longrightarrow> sane_lag (s_LagSeconds st)))"

lemma vouched_mono: "vouched env t a f \<Longrightarrow> t \<le> t' \<Longrightarrow> f' \<le> f \<Longrightarrow> vouched env t' a f'"
  unfolding vouched_def by (meson less_le_trans order_trans)

lemma ok_target_mono: "ok_target cfg env t a f \<Longrightarrow> t \<le> t' \<Longrightarrow> ok_target cfg env t' a f"
  by (auto simp: ok_target_def intro: vouched_mono)

lemma ok_target_primary [simp]: "ok_target cfg env t (c_Primary cfg) f"
  by (simp add: ok_target_def)

lemma log_ok_snoc:
  "log_ok cfg env (lg @ [e]) \<longleftrightarrow> log_ok cfg env lg \<and> sent_ok cfg env lg e"
  by (simp add: log_ok_def)


lemma log_held_snoc: "log_held (lg @ [e]) \<longleftrightarrow> log_held lg \<and> uses_held lg e"
  by (simp add: log_held_def)

lemma sinv_held: "sinv cfg env H P f s \<Longrightarrow> held (ss_log s) = H"
  by (simp add: sinv_def held_def)


subsection \<open>What each call keeps\<close>

lemma ss_simps [simp]:
  "ss_t (log_ev e s) = ss_t s" "ss_log (log_ev e s) = ss_log s @ [e]"
  "ss_t (tick s) = ss_t s + 1" "ss_log (tick s) = ss_log s"
  by (simp_all add: log_ev_def tick_def)

lemma sinv_tick [simp]: "sinv cfg env H P f (tick s) = sinv cfg env H P f s"
  by (simp add: sinv_def)

lemma sent_ok_other: "(\<And>t a c full. e \<noteq> LSend t a c full) \<Longrightarrow> sent_ok cfg env pre e"
  by (auto simp: sent_ok_def split: session_event.split)

lemma sinv_neutral:
  "ev_acquired e = {#} \<Longrightarrow> ev_returned e = {#} \<Longrightarrow> ev_chosen e = {#} \<Longrightarrow> ev_released e = {#} \<Longrightarrow>
   (\<And>t a c full. e \<noteq> LSend t a c full) \<Longrightarrow> (\<And>l. e \<noteq> LFence l) \<Longrightarrow> uses_held (ss_log s) e \<Longrightarrow>
   sinv cfg env H P f (log_ev e s) = sinv cfg env H P f s"
  using sent_ok_other [of e cfg env "ss_log s"] by (cases e) (auto simp: sinv_def log_ok_snoc log_held_snoc)

lemma sinv_log [simp]:
  "sinv cfg env H P f (log_ev (LRouting x y) s) = sinv cfg env H P f s"
  "sinv cfg env H P f (log_ev LFenceFallback s) = sinv cfg env H P f s"
  "sinv cfg env H P f (log_ev LReadFailover s) = sinv cfg env H P f s"
  "sinv cfg env H P f (log_ev (LLatency x d) s) = sinv cfg env H P f s"
  "sinv cfg env H P f (log_ev (LReject x) s) = sinv cfg env H P f s"
  by (simp_all add: sinv_neutral uses_held_def)

text \<open>Reading an answer and resetting need the connection in hand.\<close>

lemma sinv_use:
  "sinv cfg env H P f s \<Longrightarrow> (a, c) \<in># H \<Longrightarrow> sinv cfg env H P f (log_ev (LRelay c) s)"
  "sinv cfg env H P f s \<Longrightarrow> (a, c) \<in># H \<Longrightarrow> sinv cfg env H P f (log_ev (LReset c) s)"
  by (subst sinv_neutral; force simp: uses_held_def sinv_held)+

lemma sinv_use_held [simp]:
  "sinv cfg env (add_mset (a, c) H) P f s \<Longrightarrow> sinv cfg env (add_mset (a, c) H) P f (log_ev (LRelay c) s)"
  "sinv cfg env (add_mset (a, c) H) P f s \<Longrightarrow> sinv cfg env (add_mset (a, c) H) P f (log_ev (LReset c) s)"
  by (auto intro: sinv_use)

lemma sinv_acquire:
  "sinv cfg env H P f s \<Longrightarrow> sinv cfg env (add_mset (a, c) H) P f (log_ev (LAcquire a c) s)"
  by (auto simp: sinv_def log_ok_snoc sent_ok_def log_held_snoc uses_held_def)

lemma sinv_return [simp]:
  assumes "sinv cfg env (add_mset (a, c) H) P f s"
  shows "sinv cfg env H P f (call_release a c s)" "sinv cfg env H P f (call_discard a c s)"
  using assms sinv_held [OF assms]
  by (auto simp: sinv_def log_ok_snoc sent_ok_def log_held_snoc uses_held_def call_release_def call_discard_def)

lemma sinv_choose: "sinv cfg env H P f s \<Longrightarrow> sinv cfg env H (add_mset (a, fp) P) f (log_ev (LChoose a fp) s)"
  by (auto simp: sinv_def log_ok_snoc sent_ok_def log_held_snoc uses_held_def)

lemma sinv_policyRelease:
  "sinv cfg env H (add_mset (a, fp) P) f s \<Longrightarrow> sinv cfg env H P f (call_policyRelease a fp d s)"
  by (auto simp: sinv_def log_ok_snoc sent_ok_def log_held_snoc uses_held_def call_policyRelease_def)

lemma sinv_send:
  assumes "sinv cfg env H P f s" "ok_target cfg env (ss_t s) a f" "(a, c) \<in># H"
  shows "sinv cfg env H P f (snd (call_write env a c full s))"
  using assms sinv_held [OF assms(1)]
  by (auto simp: sinv_def log_ok_snoc sent_ok_def log_held_snoc uses_held_def call_write_def)

lemma sinv_fence: "sinv cfg env H P f s \<Longrightarrow> f < lsn \<Longrightarrow> sinv cfg env H P lsn (log_ev (LFence lsn) s)"
  by (fastforce simp: sinv_def log_ok_snoc sent_ok_def log_held_snoc uses_held_def)

lemma sinv_recordDecision [simp]: "sinv cfg env H P f (recordDecision b k a p r s) = sinv cfg env H P f s"
  by (simp add: recordDecision_def)

lemma ss_t_recordDecision [simp]: "ss_t (recordDecision b k a p r s) = ss_t s"
  by (simp add: recordDecision_def)


lemma read_candidates_member:
  "c \<in> set (read_candidates cfg fence exclude snap) \<Longrightarrow>
   \<exists>st \<in> set snap. c_addr c = s_Addr st \<and> c_lagSeconds c = s_LagSeconds st \<and> s_Role st = RoleReplica \<and>
     s_Healthy st \<and> s_Addr st \<notin> set exclude \<and> replicaEligible cfg st fence"
  by (induction snap) (auto split: if_splits)

text \<open>Under \<open>env_fit\<close> every policy returns a candidate; the interface's interpretations give it.\<close>

lemma Policy_Choose_member:
  assumes "env_fit env" "cs = read_candidates cfg fence exclude (e_snapshot env t')" "cs \<noteq> []"
  shows "\<exists>a. fst (Policy_Choose (e_policy env t) cs fp) = Some a \<and> a \<in> c_addr ` set cs"
proof (cases "e_policy env t")
  case (PRoundRobin p)
  with rr.pick_member [where p = p and cs = cs and fp = fp] assms(3) show ?thesis by auto
next
  case (PLeastInFlight p)
  with lif.pick_member [where p = p and cs = cs and fp = fp] assms(3) show ?thesis by auto
next
  case (PScored p)
  have "sane_lag (c_lagSeconds c)" if "c \<in> set cs" for c
    using read_candidates_member [OF that [unfolded assms(2)]] assms(1) PScored by (auto simp: env_fit_def)
  with assms(1,3) PScored have "scored_inv p" "scored_good p cs" by (auto simp: env_fit_def scored_good_def)
  from sc.pick_member [OF this, where fp = fp] PScored show ?thesis by auto
qed

lemma selectReadTarget_cases:
  assumes "env_fit env" "selectReadTarget cfg env (e_snapshot env t0) fence fp exclude s = r" "t0 < ss_t s"
  obtains (fallback) "r = Some ((c_Primary cfg, False), s)" "read_candidates cfg fence exclude (e_snapshot env t0) = []"
  | (routed) a st where "r = Some ((a, True), log_ev (LChoose a fp) (tick s))" "st \<in> set (e_snapshot env t0)"
      "s_Addr st = a" "a \<noteq> []" "a \<notin> set exclude" "ok_target cfg env (ss_t s) a fence"
proof (cases "read_candidates cfg fence exclude (e_snapshot env t0)")
  case Nil
  with fallback assms(2) show thesis by (simp add: selectReadTarget_def)
next
  case (Cons c cs)
  then have ne: "read_candidates cfg fence exclude (e_snapshot env t0) \<noteq> []" by simp
  from Policy_Choose_member [OF assms(1) refl ne, of "ss_t s" fp] obtain a where
    a: "fst (Policy_Choose (e_policy env (ss_t s)) (read_candidates cfg fence exclude (e_snapshot env t0)) fp) = Some a"
      "a \<in> c_addr ` set (read_candidates cfg fence exclude (e_snapshot env t0))" by blast
  then obtain st where st: "st \<in> set (e_snapshot env t0)" "a = s_Addr st" "s_Role st = RoleReplica" "s_Healthy st"
    "s_Addr st \<notin> set exclude" "replicaEligible cfg st fence"
    using read_candidates_member by blast
  have "strict cfg \<Longrightarrow> fence \<le> s_LSN st"
    using st(6) by (simp add: strict_def replicaEligible_def)
  then have "ok_target cfg env (ss_t s) a fence"
    using st assms(3) by (auto simp: ok_target_def vouched_def)
  moreover have "a \<noteq> []" using assms(1) st(1,2) by (auto simp: env_fit_def)
  moreover have "r = Some ((a, True), log_ev (LChoose a fp) (tick s))"
    using a(1) ne assms(2) by (simp add: selectReadTarget_def)
  moreover have "a \<notin> set exclude" using st(2,5) by simp
  ultimately show thesis by (intro routed [of a st]) (simp_all add: st(1,2))
qed

lemma dispatch_turn_inv:
  assumes "env_fit env" "sinv cfg env H P f s" "dispatch_turn cfg env full f fp exclude s = Some r"
  shows "case r of
      Inl (None, s') \<Rightarrow> sinv cfg env H P f s'
    | Inl (Some (c, a, ra, rf), s') \<Rightarrow>
        sinv cfg env (add_mset (a, c) H) (if ra \<noteq> [] then add_mset (ra, rf) P else P) f s' \<and>
        ok_target cfg env (ss_t s') a f
    | Inr (a, s') \<Rightarrow> sinv cfg env H P f s' \<and> ss_t s < ss_t s' \<and> a \<notin> set exclude
        \<and> (\<exists>st \<in> set (e_snapshot env (ss_t s)). s_Addr st = a)"
proof -
  have lt: "ss_t s < ss_t (tick s)" by simp
  have k: "sinv cfg env H P f (tick s)" using assms(2) by simp
  from assms(1) refl lt show ?thesis
  proof (cases rule: selectReadTarget_cases [of env cfg "ss_t s" f fp exclude "tick s"])
    case fallback
    note sel = fallback(1)
    show ?thesis
    proof (cases "e_acquire env (ss_t s + 1) (c_Primary cfg)")
      case (Inl e)
      with assms(3) sel k show ?thesis by (auto simp: dispatch_turn_def call_acquire_def)
    next
      case (Inr c)
      have "sinv cfg env (add_mset (c_Primary cfg, c) H) P f
          (snd (call_write env (c_Primary cfg) c full (log_ev (LAcquire (c_Primary cfg) c) (tick (tick s)))))"
        by (intro sinv_send sinv_acquire) (use k in simp_all)
      with assms(3) sel Inr show ?thesis
        by (cases "e_write env (ss_t s + 2) c")
           (auto simp: dispatch_turn_def call_acquire_def call_write_def Let_def)
    qed
  next
    case (routed a st)
    define s1 where "s1 = log_ev (LChoose a fp) (tick (tick s))"
    have k1: "sinv cfg env H (add_mset (a, fp) P) f s1" unfolding s1_def by (intro sinv_choose) (use k in simp)
    have ok: "ok_target cfg env n a f" if "ss_t s + 1 \<le> n" for n
      using ok_target_mono [OF routed(6)] that by simp
    show ?thesis
    proof (cases "e_acquire env (ss_t s1) a")
      case (Inl e)
      have "sinv cfg env H P f (log_ev LReadFailover (call_policyRelease a fp 0 (tick s1)))"
        using sinv_policyRelease [of cfg env H a fp P f "tick s1"] k1 by simp
      with assms(3) routed Inl show ?thesis
        by (auto simp: dispatch_turn_def call_acquire_def s1_def [symmetric] call_policyRelease_def)
           (auto simp: s1_def)
    next
      case (Inr c)
      define s3 where "s3 = snd (call_write env a c full (log_ev (LAcquire a c) (tick s1)))"
      have k3: "sinv cfg env (add_mset (a, c) H) (add_mset (a, fp) P) f s3"
        unfolding s3_def by (intro sinv_send sinv_acquire) (use k1 ok in \<open>simp_all add: s1_def\<close>)
      have t3: "ss_t s3 = ss_t s + 4" by (simp add: s3_def call_write_def s1_def)
      have w: "call_write env a c full (log_ev (LAcquire a c) (tick s1)) = (e_write env (ss_t s1 + 1) c, s3)"
        by (simp add: s3_def call_write_def)
      show ?thesis
      proof (cases "e_write env (ss_t s1 + 1) c")
        case True
        with assms(3) routed Inr w k3 ok t3 show ?thesis
          by (auto simp: dispatch_turn_def call_acquire_def s1_def [symmetric])
      next
        case False
        have "sinv cfg env H P f (log_ev LReadFailover (call_policyRelease a fp 0 (call_discard a c s3)))"
          using sinv_policyRelease [of cfg env H a fp P f "call_discard a c s3"] k3 by simp
        with False assms(3) routed Inr w t3 show ?thesis
          by (auto simp: dispatch_turn_def call_acquire_def s1_def [symmetric] call_policyRelease_def call_discard_def Let_def)
      qed
    qed
  qed
qed


lemma dispatch_turn_returns:
  assumes "env_fit env"
  shows "\<exists>r. dispatch_turn cfg env full f fp exclude s = Some r"
proof -
  have lt: "ss_t s < ss_t (tick s)" by simp
  from assms refl lt show ?thesis
    by (cases rule: selectReadTarget_cases [of env cfg "ss_t s" f fp exclude "tick s"])
       (auto simp: dispatch_turn_def Let_def split: prod.splits option.splits bool.splits)
qed

definition dispatched_inv ::
  "Config \<Rightarrow> env \<Rightarrow> (address \<times> conn) multiset \<Rightarrow> (address \<times> string) multiset \<Rightarrow> uint64 \<Rightarrow> dispatched \<Rightarrow> bool"
where
  "dispatched_inv cfg env H P f d \<longleftrightarrow>
     (case d of
        (None, s') \<Rightarrow> sinv cfg env H P f s'
      | (Some (c, a, ra, rf), s') \<Rightarrow>
          sinv cfg env (add_mset (a, c) H) (if ra \<noteq> [] then add_mset (ra, rf) P else P) f s' \<and>
          ok_target cfg env (ss_t s') a f)"

text \<open>
  A run of the loop: every turn but the last excludes an address that was not excluded, so what is true of the
  loop's result is proved by induction on the addresses that are left.
\<close>

lemma dispatchRead_induct:
  assumes "env_fit env" "\<And>t. s_Addr ` set (e_snapshot env t) \<subseteq> A" "finite A"
    and "\<And>exclude s d. I s \<Longrightarrow> dispatch_turn cfg env full f fp exclude s = Some (Inl d) \<Longrightarrow> Q exclude s d"
    and "\<And>exclude s a s'. I s \<Longrightarrow> dispatch_turn cfg env full f fp exclude s = Some (Inr (a, s')) \<Longrightarrow>
           I s' \<and> a \<notin> set exclude \<and> (\<exists>st \<in> set (e_snapshot env (ss_t s)). s_Addr st = a)"
    and "\<And>exclude s a s' d. I s \<Longrightarrow> dispatch_turn cfg env full f fp exclude s = Some (Inr (a, s')) \<Longrightarrow>
           Q (a # exclude) s' d \<Longrightarrow> Q exclude s d"
  shows "I s \<Longrightarrow> \<exists>d. dispatchRead cfg env full f fp exclude s = Some d \<and> Q exclude s d"
proof (induction "card (A - set exclude)" arbitrary: exclude s rule: less_induct)
  case less
  obtain r where r: "dispatch_turn cfg env full f fp exclude s = Some r"
    using dispatch_turn_returns [OF assms(1)] by blast
  show ?case
  proof (cases r)
    case (Inl d)
    with assms(4) [OF less.prems] r show ?thesis by (subst dispatchRead.simps) simp
  next
    case (Inr p)
    obtain a s' where p: "p = (a, s')" by (cases p)
    with r Inr have rt: "dispatch_turn cfg env full f fp exclude s = Some (Inr (a, s'))" by simp
    from assms(5) [OF less.prems rt] have k: "I s'" "a \<notin> set exclude" "a \<in> A"
      using assms(2) by auto
    have "card (A - set (a # exclude)) < card (A - set exclude)"
      by (rule psubset_card_mono) (use assms(3) k in auto)
    from less.hyps [OF this k(1)] obtain d where
      "dispatchRead cfg env full f fp (a # exclude) s' = Some d" "Q (a # exclude) s' d" by blast
    with assms(6) [OF less.prems rt] rt show ?thesis by (subst dispatchRead.simps) simp
  qed
qed

lemma dispatchRead_returns:
  assumes "env_fit env" "\<And>t. s_Addr ` set (e_snapshot env t) \<subseteq> A" "finite A" "sinv cfg env H P f s"
  shows "\<exists>d. dispatchRead cfg env full f fp exclude s = Some d \<and> dispatched_inv cfg env H P f d"
proof (rule dispatchRead_induct [where I = "sinv cfg env H P f" and Q = "\<lambda>_ _. dispatched_inv cfg env H P f", OF assms(1-3)])
  show "sinv cfg env H P f s" by (rule assms(4))
  fix exclude s d assume "sinv cfg env H P f s" "dispatch_turn cfg env full f fp exclude s = Some (Inl d)"
  from dispatch_turn_inv [OF assms(1) this] show "dispatched_inv cfg env H P f d"
    by (auto simp: dispatched_inv_def split: option.splits prod.splits)
next
  fix exclude s a s' assume "sinv cfg env H P f s" "dispatch_turn cfg env full f fp exclude s = Some (Inr (a, s'))"
  from dispatch_turn_inv [OF assms(1) this]
  show "sinv cfg env H P f s' \<and> a \<notin> set exclude \<and> (\<exists>st \<in> set (e_snapshot env (ss_t s)). s_Addr st = a)" by simp
qed

text \<open>
  The addresses the policy was asked for, in order; and that the primary failed, between two calls: it could not
  be acquired, or the query could not be written to it.
\<close>

fun ev_choice :: "session_event \<Rightarrow> address list" where
  "ev_choice (LChoose a fp) = [a]"
| "ev_choice _ = []"

definition choices :: "session_event list \<Rightarrow> address list" where
  "choices es = concat (map ev_choice es)"

definition primary_failed :: "Config \<Rightarrow> env \<Rightarrow> nat \<Rightarrow> nat \<Rightarrow> bool" where
  "primary_failed cfg env t0 t1 \<longleftrightarrow>
     (\<exists>t \<ge> t0. t < t1 \<and> (case e_acquire env t (c_Primary cfg) of Inl _ \<Rightarrow> True | Inr c \<Rightarrow> \<not> e_write env (t + 1) c))"

lemma choices_simps [simp]:
  "choices [] = []" "choices (e # es) = ev_choice e @ choices es" "choices (es @ es') = choices es @ choices es'"
  by (simp_all add: choices_def)

text \<open>What one turn adds to the log, and how it ends when it gives up.\<close>

lemma dispatch_turn_log:
  assumes "env_fit env" "dispatch_turn cfg env full f fp exclude s = Some r"
  shows "case r of
      Inl (res, s') \<Rightarrow> (\<exists>es. ss_log s' = ss_log s @ es \<and> distinct (choices es) \<and> set (choices es) \<inter> set exclude = {}) \<and>
        (res = None \<longrightarrow> primary_failed cfg env (ss_t s) (ss_t s'))
    | Inr (a, s') \<Rightarrow> (\<exists>es. ss_log s' = ss_log s @ es \<and> choices es = [a]) \<and> ss_t s \<le> ss_t s' \<and> a \<notin> set exclude \<and>
        (\<exists>st \<in> set (e_snapshot env (ss_t s)). s_Addr st = a)"
proof -
  have lt: "ss_t s < ss_t (tick s)" by simp
  from assms(1) refl lt show ?thesis
  proof (cases rule: selectReadTarget_cases [of env cfg "ss_t s" f fp exclude "tick s"])
    case fallback
    have "primary_failed cfg env (ss_t s) (n + 2 + ss_t s)"
      if "case e_acquire env (Suc (ss_t s)) (c_Primary cfg) of Inl _ \<Rightarrow> True | Inr c \<Rightarrow> \<not> e_write env (Suc (Suc (ss_t s))) c" for n
      unfolding primary_failed_def by (intro exI [of _ "ss_t s + 1"]) (use that in \<open>simp split: sum.splits\<close>)
    from this [of 0] this [of 1] this [of 2] fallback assms(2) show ?thesis
      by (auto simp: dispatch_turn_def call_acquire_def call_write_def call_discard_def Let_def numeral_2_eq_2
          split: sum.splits bool.splits)
  next
    case (routed a st)
    with assms(2) show ?thesis
      by (auto simp: dispatch_turn_def call_acquire_def call_write_def call_policyRelease_def call_discard_def Let_def
          split: sum.splits bool.splits)
  qed
qed

definition dispatched_log :: "Config \<Rightarrow> env \<Rightarrow> address list \<Rightarrow> session_state \<Rightarrow> dispatched \<Rightarrow> bool" where
  "dispatched_log cfg env exclude s d \<longleftrightarrow>
     (\<exists>es. ss_log (snd d) = ss_log s @ es \<and> distinct (choices es) \<and> set (choices es) \<inter> set exclude = {}) \<and>
     (fst d = None \<longrightarrow> primary_failed cfg env (ss_t s) (ss_t (snd d)))"

lemma dispatchRead_total:
  assumes "env_fit env" "\<And>t. s_Addr ` set (e_snapshot env t) \<subseteq> A" "finite A"
  shows "\<exists>d. dispatchRead cfg env full f fp exclude s = Some d \<and> dispatched_log cfg env exclude s d"
proof (rule dispatchRead_induct [where I = "\<lambda>_. True" and Q = "dispatched_log cfg env", OF assms])
  fix exclude s d assume "dispatch_turn cfg env full f fp exclude s = Some (Inl d)"
  from dispatch_turn_log [OF assms(1) this] show "dispatched_log cfg env exclude s d"
    by (cases d) (simp add: dispatched_log_def)
next
  fix exclude s a s' assume "dispatch_turn cfg env full f fp exclude s = Some (Inr (a, s'))"
  from dispatch_turn_log [OF assms(1) this]
  show "True \<and> a \<notin> set exclude \<and> (\<exists>st \<in> set (e_snapshot env (ss_t s)). s_Addr st = a)" by simp
next
  fix exclude s a s' d
  assume "dispatch_turn cfg env full f fp exclude s = Some (Inr (a, s'))" and q: "dispatched_log cfg env (a # exclude) s' d"
  from dispatch_turn_log [OF assms(1) this(1)] obtain es where
    es: "ss_log s' = ss_log s @ es" "choices es = [a]" "ss_t s \<le> ss_t s'" "a \<notin> set exclude" by auto
  from q obtain es' where es': "ss_log (snd d) = ss_log s' @ es'" "distinct (choices es')" "set (choices es') \<inter> set (a # exclude) = {}"
    by (auto simp: dispatched_log_def)
  have "primary_failed cfg env (ss_t s) (ss_t (snd d))" if "fst d = None"
    using q that es(3) unfolding dispatched_log_def primary_failed_def by (meson order_trans)
  moreover have "ss_log (snd d) = ss_log s @ es @ es'" "distinct (choices (es @ es'))" "set (choices (es @ es')) \<inter> set exclude = {}"
    using es es' by auto
  ultimately show "dispatched_log cfg env exclude s d" unfolding dispatched_log_def by blast
qed simp

text \<open>
  Outside \<open>env_fit\<close> the loop need not end. With the scored policy, replicas that are eligible and all report an
  infinite lag, and no backend at the empty address, every turn chooses the empty address, excludes it, and
  leaves the candidates as they were.
\<close>

lemma read_candidates_nonempty:
  "st \<in> set snapshot \<Longrightarrow> s_Role st = RoleReplica \<Longrightarrow> s_Healthy st \<Longrightarrow> s_Addr st \<notin> set exclude \<Longrightarrow> replicaEligible cfg st fence \<Longrightarrow>
   read_candidates cfg fence exclude snapshot \<noteq> []"
  by (induction snapshot) auto

theorem dispatchRead_infinite_lag:
  assumes "\<And>t. \<exists>p. e_policy env t = PScored p \<and> sc_w p = DefaultScoredWeights"
    and "\<And>t. \<exists>st \<in> set (e_snapshot env t). s_Role st = RoleReplica \<and> s_Healthy st \<and> s_Addr st \<noteq> [] \<and> replicaEligible cfg st fence"
    and "\<And>t st. st \<in> set (e_snapshot env t) \<Longrightarrow> s_Role st = RoleReplica \<Longrightarrow> s_LagSeconds st = PInf"
    and "\<And>t. \<exists>e. e_acquire env t [] = Inl e"
  shows "dispatchRead cfg env full fence fp [] s = None"
proof -
  have turn: "\<exists>s'. dispatch_turn cfg env full fence fp exclude s = Some (Inr ([], s'))" if "set exclude \<subseteq> {[]}" for exclude s
  proof -
    let ?cs = "read_candidates cfg fence exclude (e_snapshot env (ss_t s))"
    obtain p where p: "e_policy env (ss_t s + 1) = PScored p" "sc_w p = DefaultScoredWeights" using assms(1) by blast
    have ne: "?cs \<noteq> []" using assms(2) [of "ss_t s"] that read_candidates_nonempty by blast
    have "c_lagSeconds c = PInf" if "c \<in> set ?cs" for c using read_candidates_member [OF that] assms(3) by metis
    from Scored_Choose_inf [OF p(2) this] p ne
    have "selectReadTarget cfg env (e_snapshot env (ss_t s)) fence fp exclude (tick s) = Some (([], True), log_ev (LChoose [] fp) (tick (tick s)))"
      by (simp add: selectReadTarget_def)
    with assms(4) show ?thesis
      by (auto simp: dispatch_turn_def call_acquire_def split: sum.splits) (metis Inl_Inr_False)
  qed
  let ?P = "\<lambda>c e m f p x s (d :: dispatched). c = cfg \<and> e = env \<and> m = full \<and> f = fence \<and> p = fp \<longrightarrow> \<not> set x \<subseteq> {[]}"
  have "?P cfg env full fence fp exclude s d" if "dispatchRead cfg env full fence fp exclude s = Some d" for exclude s d
  proof (rule dispatchRead.raw_induct [of ?P, OF _ that], intro impI notI)
    fix loop c e m f p x s d
    assume ih: "\<And>c e m f p x s d. loop c e m f p x s = Some d \<Longrightarrow> ?P c e m f p x s d"
      and body: "Option.bind (dispatch_turn c e m f p x s)
        (\<lambda>r. case r of Inl d \<Rightarrow> Some d | Inr q \<Rightarrow> loop c e m f p (fst q # x) (snd q)) = Some d"
      and eq: "c = cfg \<and> e = env \<and> m = full \<and> f = fence \<and> p = fp" and x: "set x \<subseteq> {[]}"
    from turn [OF x, of s] eq body obtain s' where "loop c e m f p ([] # x) s' = Some d" by auto
    from ih [OF this] eq x show False by simp
  qed
  then show ?thesis by (metis empty_subsetI list.set(1) not_None_eq)
qed


subsection \<open>What the loop keeps\<close>

definition held_conns :: "routing_vars \<Rightarrow> (address \<times> conn) multiset" where
  "held_conns v = (case rv_held v of None \<Rightarrow> {#} | Some (c, a) \<Rightarrow> {#(a, c)#})"

definition rinv :: "Config \<Rightarrow> env \<Rightarrow> routing_vars \<Rightarrow> session_state \<Rightarrow> bool" where
  "rinv cfg env v s \<longleftrightarrow>
     sinv cfg env (held_conns v) {#} (rv_fence v) s \<and>
     (case rv_held v of None \<Rightarrow> True | Some (c, a) \<Rightarrow> ok_target cfg env (ss_t s) a (rv_fence v))"

fun lr_vars :: "loop_result \<Rightarrow> routing_vars" where
  "lr_vars (Continue v) = v"
| "lr_vars (Return v) = v"

lemma finishBackendAt_inv: "sinv cfg env (add_mset (a, c) H) P f s \<Longrightarrow> sinv cfg env H P f (finishBackendAt env a c clean s)"
  by (simp add: finishBackendAt_def)

lemma hand_off_inv:
  "sinv cfg env {#(a, c)#} {#} (rv_fence v) s \<Longrightarrow> hand_off env a c v s = (r, s') \<Longrightarrow> rinv cfg env (lr_vars r) s'"
  by (auto simp: hand_off_def Let_def rinv_def held_conns_def intro: finishBackendAt_inv)

lemma primaryLSN_inv [simp]:
  "sinv cfg env H P f (snd (primaryLSN env c s)) = sinv cfg env H P f s"
  by (simp add: primaryLSN_def split: sum.splits)

lemma route_finish_inv:
  assumes "sinv cfg env {#(a, c)#} {#} (rv_fence v) s" "ok_target cfg env (ss_t s) a (rv_fence v)"
    "route_finish cfg env breaks status c a v s = (r, s')"
  shows "rinv cfg env (lr_vars r) s'"
proof (cases "\<not> breaks \<and> status = StatusIdle \<and> a = c_Primary cfg \<and> rv_wrote v")
  case True
  obtain o1 s1 where q: "primaryLSN env c s = (o1, s1)" by fastforce
  then have k: "sinv cfg env {#(a, c)#} {#} (rv_fence v) s1"
    using assms(1) primaryLSN_inv [of cfg env "{#(a, c)#}" "{#}" "rv_fence v" c s] by simp
  show ?thesis
  proof (cases "\<exists>lsn. o1 = Some lsn \<and> rv_fence v < lsn")
    case True
    then obtain lsn where l: "o1 = Some lsn" "rv_fence v < lsn" by blast
    from sinv_fence [OF k l(2)] have "sinv cfg env {#} {#} lsn (call_release a c (log_ev (LFence lsn) s1))" by simp
    with l q assms(3) \<open>\<not> breaks \<and> status = StatusIdle \<and> a = c_Primary cfg \<and> rv_wrote v\<close> show ?thesis
      by (auto simp: route_finish_def rinv_def held_conns_def)
  next
    case False
    with k q assms(3) \<open>\<not> breaks \<and> status = StatusIdle \<and> a = c_Primary cfg \<and> rv_wrote v\<close> show ?thesis
      by (auto simp: route_finish_def rinv_def held_conns_def split: option.splits if_splits)
  qed
next
  case False
  with assms show ?thesis
    by (auto simp: route_finish_def rinv_def held_conns_def split: if_splits intro: hand_off_inv)
       (auto dest: hand_off_inv simp: rinv_def held_conns_def)
qed

lemma route_run_inv:
  assumes k: "sinv cfg env {#(a, c)#} (if ra \<noteq> [] then {#(ra, rf)#} else {#}) (rv_fence v) s"
    and ok: "ok_target cfg env (ss_t s) a (rv_fence v)" and "\<not> wtb \<Longrightarrow> ra = []"
    and r: "route_run cfg env full class breaks nh wtb c a ra rf v s = (r, s')"
  shows "rinv cfg env (lr_vars r) s'"
proof -
  define v1 where "v1 = (if class = Write \<and> a = c_Primary cfg then v\<lparr>rv_wrote := True\<rparr> else v)"
  have v1: "rv_fence v1 = rv_fence v" by (simp add: v1_def)
  define s1 where "s1 = recordDecision nh class a (c_Primary cfg) (ra \<noteq> []) s"
  define s2 where "s2 = (if wtb then s1 else snd (call_write env a c full s1))"
  define sent where "sent = (wtb \<or> e_write env (ss_t s1) c)"
  have k2: "sinv cfg env {#(a, c)#} (if ra \<noteq> [] then {#(ra, rf)#} else {#}) (rv_fence v) s2"
    using k ok by (auto simp: s2_def s1_def intro!: sinv_send)
  have t2: "ss_t s \<le> ss_t s2" by (simp add: s2_def s1_def call_write_def)
  have eq: "(if wtb then (True, s1) else call_write env a c full s1) = (sent, s2)"
    by (simp add: sent_def s2_def call_write_def)
  define s3 where "s3 = snd (call_relay env c s2)"
  define s4 where "s4 = (if ra \<noteq> [] then call_policyRelease ra rf (e_elapsed env (ss_t s3)) s3 else s3)"
  define s5 where "s5 = log_ev (LLatency (targetLabel a (c_Primary cfg)) (e_elapsed env (ss_t s3))) s4"
  have run: "(if \<not> sent then (Return (v1\<lparr>rv_held := None\<rparr>), call_discard a c s2)
      else case fst (call_relay env c s2) of
          Inl _ \<Rightarrow> (Return (v1\<lparr>rv_held := None\<rparr>), call_discard a c s5)
        | Inr status \<Rightarrow> route_finish cfg env breaks status c a v1 s5) = (r, s')"
    using r unfolding route_run_def Let_def s1_def [symmetric] v1_def [symmetric] eq split_beta
      fst_conv snd_conv s3_def [symmetric] s4_def [symmetric] s5_def [symmetric] .
  show ?thesis
  proof (cases sent)
    case False
    then have "ra = []" using assms(3) by (auto simp: sent_def)
    with k2 have "sinv cfg env {#} {#} (rv_fence v) (call_discard a c s2)" by simp
    with False run show ?thesis by (auto simp: rinv_def held_conns_def v1)
  next
    case True
    have k3: "sinv cfg env {#(a, c)#} (if ra \<noteq> [] then {#(ra, rf)#} else {#}) (rv_fence v) s3"
      using k2 by (simp add: s3_def call_relay_def)
    have k5: "sinv cfg env {#(a, c)#} {#} (rv_fence v) s5"
      using k3 sinv_policyRelease [of cfg env "{#(a, c)#}" ra rf "{#}"] by (auto simp: s5_def s4_def)
    have t5: "ss_t s \<le> ss_t s5" using t2 by (simp add: s5_def s4_def s3_def call_relay_def call_policyRelease_def)
    have body: "(case fst (call_relay env c s2) of
          Inl _ \<Rightarrow> (Return (v1\<lparr>rv_held := None\<rparr>), call_discard a c s5)
        | Inr status \<Rightarrow> route_finish cfg env breaks status c a v1 s5) = (r, s')"
      using run True by simp
    show ?thesis
    proof (cases "fst (call_relay env c s2)")
      case (Inl e)
      with body k5 show ?thesis by (auto simp: rinv_def held_conns_def v1)
    next
      case (Inr status)
      from route_finish_inv [of cfg env a c v1 s5 breaks status r s'] Inr body k5
        ok_target_mono [OF ok t5] show ?thesis by (simp add: v1)
    qed
  qed
qed


lemma call_acquire_Some:
  "call_acquire env a s = (Some c, s1) \<Longrightarrow> sinv cfg env H P f s \<Longrightarrow> sinv cfg env (add_mset (a, c) H) P f s1 \<and> ss_t s < ss_t s1"
  by (auto simp: call_acquire_def sinv_acquire split: sum.splits)

lemma call_acquire_None:
  "call_acquire env a s = (None, s1) \<Longrightarrow> sinv cfg env H P f s \<Longrightarrow> sinv cfg env H P f s1"
  by (auto simp: call_acquire_def split: sum.splits)

text \<open>The extended protocol on a connection in hand.\<close>

lemma route_extended_held:
  assumes "sinv cfg env {#(a, c)#} {#} (rv_fence v) s" "ok_target cfg env (ss_t s) a (rv_fence v)"
    "(case call_write env a c full s of
        (False, s3) \<Rightarrow> (Return (v\<lparr>rv_held := None\<rparr>), call_discard a c s3)
      | (True, s3) \<Rightarrow> hand_off env a c (v\<lparr>rv_held := Some (c, a)\<rparr>) s3) = (r, s')"
  shows "rinv cfg env (lr_vars r) s'"
proof -
  define s3 where "s3 = snd (call_write env a c full s)"
  have k: "sinv cfg env {#(a, c)#} {#} (rv_fence v) s3" unfolding s3_def by (rule sinv_send [OF assms(1,2)]) simp
  have w: "call_write env a c full s = (e_write env (ss_t s) c, s3)" by (simp add: s3_def call_write_def)
  show ?thesis
  proof (cases "e_write env (ss_t s) c")
    case True
    with assms(3) w have "hand_off env a c (v\<lparr>rv_held := Some (c, a)\<rparr>) s3 = (r, s')" by simp
    then show ?thesis by (rule hand_off_inv [rotated]) (use k in simp)
  next
    case False
    with assms(3) w k show ?thesis by (auto simp: rinv_def held_conns_def)
  qed
qed

lemma route_extended_inv:
  assumes "rinv cfg env v s" "route_extended cfg env full v s = (r, s')"
  shows "rinv cfg env (lr_vars r) s'"
proof (cases "rv_held v")
  case (Some h)
  obtain c a where h: "h = (c, a)" by (cases h)
  from assms(1) Some h show ?thesis
    by (intro route_extended_held [of cfg env a c v "log_ev (LRouting TargetPrimary ReasonExtended) s"])
       (use assms(2) in \<open>auto simp: rinv_def held_conns_def route_extended_def Let_def\<close>)
next
  case None
  with assms(1) have k: "sinv cfg env {#} {#} (rv_fence v) s" by (simp add: rinv_def held_conns_def)
  obtain o1 s1 where q: "call_acquire env (c_Primary cfg) s = (o1, s1)" by fastforce
  show ?thesis
  proof (cases o1)
    case None
    with q k call_acquire_None [of env "c_Primary cfg" s s1] assms(2) \<open>rv_held v = None\<close> show ?thesis
      by (auto simp: route_extended_def Let_def rinv_def held_conns_def)
  next
    case (Some c)
    with q k have "sinv cfg env {#(c_Primary cfg, c)#} {#} (rv_fence v) s1"
      using call_acquire_Some by blast
    then show ?thesis
      by (intro route_extended_held [of cfg env "c_Primary cfg" c v "log_ev (LRouting TargetPrimary ReasonExtended) s1"])
         (use assms(2) Some q None in \<open>auto simp: route_extended_def Let_def\<close>)
  qed
qed

text \<open>The environment of a session in a cluster whose backends are the finite set \<open>A\<close>.\<close>

definition env_in :: "address set \<Rightarrow> env \<Rightarrow> bool" where
  "env_in A env \<longleftrightarrow> finite A \<and> (\<forall>t. s_Addr ` set (e_snapshot env t) \<subseteq> A) \<and> env_fit env"

lemma route_query_inv:
  assumes "env_in A env" "rinv cfg env v s"
  shows "\<exists>r s'. route_query cfg env full v s = Some (r, s') \<and> rinv cfg env (lr_vars r) s'"
proof (cases "rv_held v")
  case (Some h)
  obtain c a where h: "h = (c, a)" by (cases h)
  let ?cl = "Classify (e_parse env) (queryString full)"
  let ?breaks = "if ?cl = Write then BreaksTxPooling (e_parse env) (queryString full) \<noteq> None else False"
  obtain r s' where r: "route_run cfg env full ?cl ?breaks False False c a [] [] v s = (r, s')" by fastforce
  have "rinv cfg env (lr_vars r) s'"
    by (rule route_run_inv [OF _ _ _ r]) (use assms(2) Some h in \<open>auto simp: rinv_def held_conns_def\<close>)
  with r Some h show ?thesis by (simp add: route_query_def Let_def)
next
  case None
  with assms(2) have k: "sinv cfg env {#} {#} (rv_fence v) s" by (simp add: rinv_def held_conns_def)
  show ?thesis
  proof (cases "Classify (e_parse env) (queryString full) = Read")
    case True
    define fp where "fp = (if NeedsFingerprint (e_policy env (ss_t s)) then Fingerprint (e_fingerprint env) (queryString full) else [])"
    from dispatchRead_returns [OF _ _ _ k, of A full fp "[]"] assms(1) obtain d where
      d: "dispatchRead cfg env full (rv_fence v) fp [] s = Some d" "dispatched_inv cfg env {#} {#} (rv_fence v) d"
      unfolding env_in_def by blast
    show ?thesis
    proof (cases "fst d")
      case None
      with d \<open>rv_held v = None\<close> True show ?thesis
        by (cases d) (auto simp: route_query_def Let_def fp_def [symmetric] dispatched_inv_def rinv_def held_conns_def)
    next
      case (Some x)
      obtain c a ra rf s1 where x: "d = (Some (c, a, ra, rf), s1)" using Some by (cases d; cases x) auto
      obtain r s' where r: "route_run cfg env full Read False True True c a ra rf v s1 = (r, s')" by fastforce
      have "rinv cfg env (lr_vars r) s'"
        by (rule route_run_inv [OF _ _ _ r]) (use d(2) x in \<open>auto simp: dispatched_inv_def split: if_splits\<close>)
      with r d(1) x True \<open>rv_held v = None\<close> show ?thesis
        by (simp add: route_query_def Let_def fp_def [symmetric])
    qed
  next
    case False
    obtain o1 s1 where q: "call_acquire env (c_Primary cfg) s = (o1, s1)" by fastforce
    show ?thesis
    proof (cases o1)
      case None
      with False q k call_acquire_None [of env "c_Primary cfg" s s1] \<open>rv_held v = None\<close> show ?thesis
        by (auto simp: route_query_def Let_def rinv_def held_conns_def)
    next
      case (Some c)
      with q k have k1: "sinv cfg env {#(c_Primary cfg, c)#} {#} (rv_fence v) s1"
        using call_acquire_Some by blast
      let ?cl = "Classify (e_parse env) (queryString full)"
      let ?breaks = "if ?cl = Write then BreaksTxPooling (e_parse env) (queryString full) \<noteq> None else False"
      obtain r s' where r: "route_run cfg env full ?cl ?breaks True False c (c_Primary cfg) [] [] v s1 = (r, s')" by fastforce
      have "rinv cfg env (lr_vars r) s'"
        by (rule route_run_inv [OF _ _ _ r]) (use k1 in auto)
      with r q Some False None show ?thesis by (simp add: route_query_def Let_def)
    qed
  qed
qed

lemma serveRouting_loop_inv:
  assumes "env_in A env"
  shows "rinv cfg env v s \<Longrightarrow> \<exists>v' s'. serveRouting_loop cfg env msgs v s = Some (v', s') \<and> rinv cfg env v' s'"
proof (induction msgs arbitrary: v s)
  case (Cons m msgs)
  obtain ty full where m: "m = (ty, full)" by (cases m)
  show ?case
  proof (cases "ty = MsgTerminate")
    case False
    have "\<exists>r s'. (if ty \<noteq> MsgQuery then Some (route_extended cfg env full v s) else route_query cfg env full v s) = Some (r, s')
        \<and> rinv cfg env (lr_vars r) s'"
      using route_query_inv [OF assms Cons.prems, of full] route_extended_inv [OF Cons.prems, of full]
      by (cases "route_extended cfg env full v s") auto
    then obtain r s' where r: "(if ty \<noteq> MsgQuery then Some (route_extended cfg env full v s) else route_query cfg env full v s) = Some (r, s')"
      "rinv cfg env (lr_vars r) s'" by blast
    show ?thesis
    proof (cases r)
      case (Continue v1)
      from Cons.IH [of v1 s'] r(2) Continue obtain v' s'' where
        "serveRouting_loop cfg env msgs v1 s' = Some (v', s'')" "rinv cfg env v' s''" by auto
      with r(1) Continue m False show ?thesis by (simp del: if_split)
    next
      case (Return v1)
      with r m False show ?thesis by (simp del: if_split)
    qed
  qed (use Cons.prems m in auto)
qed simp

lemma sinv_start: "ss_log s = [] \<Longrightarrow> sinv cfg env {#} {#} 0 s"
  by (simp add: sinv_def log_ok_def log_held_def)

lemma serveRouting_inv:
  assumes "env_in A env" "sinv cfg env {#} {#} 0 s"
  shows "\<exists>s' f. serveRouting cfg env msgs s = Some s' \<and> sinv cfg env {#} {#} f s'"
proof -
  let ?v = "\<lparr>rv_held = None, rv_wrote = False, rv_fence = 0\<rparr>"
  have "rinv cfg env ?v s" using assms(2) by (simp add: rinv_def held_conns_def)
  from serveRouting_loop_inv [OF assms(1) this, of msgs] obtain v' s' where
    r: "serveRouting_loop cfg env msgs ?v s = Some (v', s')" "rinv cfg env v' s'" by blast
  have "sinv cfg env {#} {#} (rv_fence v') (routing_defer v' s')"
    using r(2) by (auto simp: rinv_def routing_defer_def held_conns_def split: option.splits)
  with r(1) show ?thesis by (auto simp: serveRouting_def)
qed


subsection \<open>Where a write goes\<close>

fun ev_sent :: "session_event \<Rightarrow> (address \<times> conn \<times> byte list) multiset" where
  "ev_sent (LSend t a c full) = {#(a, c, full)#}"
| "ev_sent _ = {#}"

lemma sent_calls [simp]:
  "tally ev_sent (ss_log (call_release a c s)) = tally ev_sent (ss_log s)"
  "tally ev_sent (ss_log (call_discard a c s)) = tally ev_sent (ss_log s)"
  "tally ev_sent (ss_log (call_policyRelease a fp d s)) = tally ev_sent (ss_log s)"
  "tally ev_sent (ss_log (recordDecision b k a p r s)) = tally ev_sent (ss_log s)"
  "tally ev_sent (ss_log (snd (call_relay env c s))) = tally ev_sent (ss_log s)"
  "tally ev_sent (ss_log (snd (primaryLSN env c s))) = tally ev_sent (ss_log s)"
  "tally ev_sent (ss_log (finishBackendAt env a c clean s)) = tally ev_sent (ss_log s)"
  by (simp_all add: call_release_def call_discard_def call_policyRelease_def recordDecision_def call_relay_def
      primaryLSN_def finishBackendAt_def split: sum.splits)

lemma sent_write [simp]:
  "tally ev_sent (ss_log (snd (call_write env a c full s))) = add_mset (a, c, full) (tally ev_sent (ss_log s))"
  by (simp add: call_write_def)

lemma sent_route_finish:
  "tally ev_sent (ss_log (snd (route_finish cfg env breaks status c a v s))) = tally ev_sent (ss_log s)"
proof -
  obtain o1 s1 where q: "primaryLSN env c s = (o1, s1)" by fastforce
  then have "tally ev_sent (ss_log s1) = tally ev_sent (ss_log s)"
    using sent_calls(6) [of env c s] by simp
  with q show ?thesis
    by (auto simp: route_finish_def hand_off_def Let_def split: option.splits)
qed

lemma sent_route_run:
  "tally ev_sent (ss_log (snd (route_run cfg env full class breaks nh False c a [] [] v s))) =
     add_mset (a, c, full) (tally ev_sent (ss_log s))"
  by (simp add: route_run_def Let_def split_beta sent_route_finish split: sum.splits)


subsection \<open>A session of one write and one read\<close>

text \<open>A primary and one replica at position 100; the write leaves the primary at \<^verbatim>\<open>0/64\<close>, which is 100.\<close>

definition wit_primary :: Status where
  "wit_primary = \<lparr>s_Name = ''primary'', s_Addr = ''p:5432'', s_Role = RolePrimary, s_Healthy = True, s_LSN = 100,
     s_LagBytes = 0, s_LagSeconds = Fin 0, s_LastErr = [], s_LastPoll = 0\<rparr>"

definition wit_replica :: Status where
  "wit_replica = \<lparr>s_Name = ''replica1'', s_Addr = ''r1:5432'', s_Role = RoleReplica, s_Healthy = True, s_LSN = 100,
     s_LagBytes = 0, s_LagSeconds = Fin 0, s_LastErr = [], s_LastPoll = 0\<rparr>"

definition wit_env :: env where
  "wit_env = \<lparr>e_snapshot = \<lambda>t. [wit_primary, wit_replica], e_policy = \<lambda>t. PRoundRobin NewRoundRobin,
     e_acquire = \<lambda>t a. Inr t, e_write = \<lambda>t c. True, e_relay = \<lambda>t c. Inr StatusIdle,
     e_relayPooled = \<lambda>t c. True, e_reset = \<lambda>t c. True, e_discardAll = \<lambda>t c. True,
     e_queryRow = \<lambda>t c. Inr [''0/64''], e_elapsed = \<lambda>t. 5,
     e_parse = \<lambda>sql. if sql = ''R'' then Inr [Some (select_node [])] else Inr [Some (PNode (Some (PMsg ''InsertStmt'' [] [])))],
     e_fingerprint = Inr\<rparr>"

definition wit_msg :: "char \<Rightarrow> byte list" where
  "wit_msg q = [MsgQuery, 0, 0, 0, 6, of_char q, 0]"

definition wit_start :: session_state where
  "wit_start = \<lparr>ss_t = 0, ss_log = []\<rparr>"

definition wit_session_cfg :: Config where
  "wit_session_cfg = wit_config
     \<lparr>c_Pool := \<lparr>po_Mode = ModeSession, po_MaxSize = 10, po_MaxWaiters = 0, po_AcquireTimeout = 5 * second, po_IdleTimeout = 300 * second\<rparr>,
      c_Health := \<lparr>h_Interval = second, h_FailureThreshold = 3, h_BaseBackoff = second, h_MaxBackoff = 30 * second\<rparr>,
      c_Fencing := \<lparr>f_Mode = FenceStrict, f_BoundedMs = 100\<rparr>, c_Policy := PolicyRoundRobin\<rparr>"

lemma wit_lsn: "ParseLSN ''0/64'' = Inr 100"
  by (simp add: ParseLSN_def str_cut_def str_index.simps has_prefix_def ParseUint16_32_def lower_char_def go_defs)

lemma wit_env_in: "env_in {''p:5432'', ''r1:5432''} wit_env"
  by (simp add: env_in_def env_fit_def wit_env_def wit_replica_def wit_primary_def)

lemma wit_class: "Classify (e_parse wit_env) ''W'' = Write" "Classify (e_parse wit_env) ''R'' = Read"
   "BreaksTxPooling (e_parse wit_env) ''W'' = None"
  by (simp_all add: wit_env_def tree_simps BreaksTxPooling_def Classify_def)

lemma wit_query: "queryString (wit_msg (CHR ''W'')) = ''W''" "queryString (wit_msg (CHR ''R'')) = ''R''"
  by (simp_all add: queryString_def wit_msg_def string_of_def char_of_def bit_0)

lemmas call_defs = call_acquire_def call_release_def call_discard_def call_write_def call_relay_def call_policyRelease_def

lemmas route_defs = route_query_def route_run_def route_finish_def recordDecision_def primaryLSN_def call_defs Let_def

lemma wit_answers:
  "e_snapshot wit_env t = [wit_primary, wit_replica]" "e_policy wit_env t = PRoundRobin NewRoundRobin" "e_acquire wit_env t a = Inr t"
  "e_write wit_env t c = True" "e_relay wit_env t c = Inr StatusIdle" "e_queryRow wit_env t c = Inr [''0/64'']" "e_elapsed wit_env t = 5"
  by (simp_all add: wit_env_def)

lemmas wit_session = wit_answers wit_class wit_query wit_lsn wit_session_cfg_def wit_config_def wit_start_def log_ev_def tick_def targetLabel_def

lemma wit_write:
  "route_query wit_session_cfg wit_env (wit_msg (CHR ''W'')) \<lparr>rv_held = None, rv_wrote = False, rv_fence = 0\<rparr> wit_start =
   Some (Continue \<lparr>rv_held = None, rv_wrote = False, rv_fence = 100\<rparr>,
     \<lparr>ss_t = 5, ss_log = [LAcquire ''p:5432'' 0, LRouting TargetPrimary ReasonWrite, LSend 1 ''p:5432'' 0 (wit_msg (CHR ''W'')),
        LRelay 0, LLatency TargetPrimary 5, LFence 100, LRelease ''p:5432'' 0]\<rparr>)"
  by (simp add: route_defs wit_session)

lemma wit_dispatch:
  "dispatchRead wit_session_cfg wit_env (wit_msg (CHR ''R'')) 100 [] [] \<lparr>ss_t = 5, ss_log = lg\<rparr> =
     Some (Some (7, ''r1:5432'', ''r1:5432'', []), \<lparr>ss_t = 9, ss_log = lg @ [LChoose ''r1:5432'' [], LAcquire ''r1:5432'' 7,
        LSend 8 ''r1:5432'' 7 (wit_msg (CHR ''R''))]\<rparr>)"
  by (subst dispatchRead.simps)
     (simp add: dispatch_turn_def selectReadTarget_def call_defs Let_def wit_session replicaEligible_def wit_replica_def wit_primary_def
       FenceStrict_def FenceRelaxed_def FenceBounded_def RoundRobin_Choose_def NewRoundRobin_def)

lemma wit_read:
  "route_query wit_session_cfg wit_env (wit_msg (CHR ''R'')) \<lparr>rv_held = None, rv_wrote = False, rv_fence = 100\<rparr> \<lparr>ss_t = 5, ss_log = lg\<rparr> =
   Some (Continue \<lparr>rv_held = None, rv_wrote = False, rv_fence = 100\<rparr>,
     \<lparr>ss_t = 12, ss_log = lg @ [LChoose ''r1:5432'' [], LAcquire ''r1:5432'' 7, LSend 8 ''r1:5432'' 7 (wit_msg (CHR ''R'')),
        LRouting TargetReplica ReasonRead, LRelay 7, LPolicyRelease ''r1:5432'' [] 5, LLatency TargetReplica 5, LRelease ''r1:5432'' 7]\<rparr>)"
  by (simp add: route_defs wit_dispatch wit_answers wit_class wit_query log_ev_def tick_def)
     (simp add: targetLabel_def wit_session_cfg_def wit_config_def)

lemma wit_run:
  "\<exists>s'. serveRouting wit_session_cfg wit_env [(MsgQuery, wit_msg (CHR ''W'')), (MsgQuery, wit_msg (CHR ''R''))] wit_start = Some s' \<and>
     ss_log s' = [LAcquire ''p:5432'' 0, LRouting TargetPrimary ReasonWrite, LSend 1 ''p:5432'' 0 (wit_msg (CHR ''W'')),
        LRelay 0, LLatency TargetPrimary 5, LFence 100, LRelease ''p:5432'' 0, LChoose ''r1:5432'' [], LAcquire ''r1:5432'' 7] @
       LSend 8 ''r1:5432'' 7 (wit_msg (CHR ''R'')) #
       [LRouting TargetReplica ReasonRead, LRelay 7, LPolicyRelease ''r1:5432'' [] 5, LLatency TargetReplica 5, LRelease ''r1:5432'' 7]"
  by (simp add: serveRouting_def routing_defer_def wit_write wit_read MsgQuery_def MsgTerminate_def)


subsection \<open>Properties\<close>

text \<open>
  A session in routing mode returns, and leaks nothing: whatever the client sends and whatever the
  backends, the pool and the other sessions do, when the client's messages end the session ends, every
  connection it acquired has been given back to the pool of the address it came from exactly once
  (released or discarded), and every choice of the routing policy has been released exactly once, with
  the address and the fingerprint it was made for.
\<close>

theorem serveRouting_accounts:
  assumes "env_in A env" "ss_log s = []"
  shows "\<exists>s'. serveRouting cfg env msgs s = Some s' \<and>
              tally ev_acquired (ss_log s') = tally ev_returned (ss_log s') \<and>
              tally ev_chosen (ss_log s') = tally ev_released (ss_log s')"
  using serveRouting_inv [OF assms(1) sinv_start [OF assms(2)], of cfg msgs] by (auto simp: sinv_def)

theorem serveRouting_accounts_witness:
  "\<exists>s'. serveRouting wit_session_cfg wit_env [(MsgQuery, wit_msg (CHR ''W'')), (MsgQuery, wit_msg (CHR ''R''))] wit_start = Some s' \<and>
        tally ev_acquired (ss_log s') = {#(''p:5432'', 0), (''r1:5432'', 7)#} \<and>
        tally ev_returned (ss_log s') = {#(''p:5432'', 0), (''r1:5432'', 7)#}"
proof -
  have "ss_log wit_start = []" by (simp add: wit_start_def)
  from serveRouting_accounts [OF wit_env_in this, of wit_session_cfg "[(MsgQuery, wit_msg (CHR ''W'')), (MsgQuery, wit_msg (CHR ''R''))]"] wit_run
  show ?thesis by (auto simp: add_mset_commute)
qed

text \<open>
  The strict fence: in strict mode, whenever a session sends a query to a backend other than the
  primary, an earlier snapshot showed that backend as a healthy replica whose replayed position was at
  or past every fence the session had set by then.
\<close>

theorem strict_fence_respected:
  assumes "env_in A env" "ss_log s = []" "f_Mode (c_Fencing cfg) = FenceStrict"
    and "serveRouting cfg env msgs s = Some s'"
    and "ss_log s' = pre @ LSend t addr c full # post" "addr \<noteq> c_Primary cfg"
  shows "\<exists>t0 < t. \<exists>st \<in> set (e_snapshot env t0).
           s_Addr st = addr \<and> s_Role st = RoleReplica \<and> s_Healthy st \<and> (\<forall>l. LFence l \<in> set pre \<longrightarrow> l \<le> s_LSN st)"
proof -
  have strict: "strict cfg"
    using assms(3) by (simp add: strict_def FenceStrict_def FenceRelaxed_def FenceBounded_def)
  from serveRouting_inv [OF assms(1) sinv_start [OF assms(2)], of cfg msgs] assms(4) have "log_ok cfg env (ss_log s')"
    by (auto simp: sinv_def)
  then have "sent_ok cfg env pre (LSend t addr c full)"
    unfolding log_ok_def assms(5) by (rule every_at_split)
  then obtain f where "ok_target cfg env t addr f" "\<forall>l. LFence l \<in> set pre \<longrightarrow> l \<le> f"
    by (auto simp: sent_ok_def)
  with strict assms(6) show ?thesis
    unfolding ok_target_def vouched_def by (meson order_trans)
qed

theorem strict_fence_respected_witness:
  "\<exists>t0 < 8. \<exists>st \<in> set (e_snapshot wit_env t0). s_Addr st = ''r1:5432'' \<and> (100 :: uint64) \<le> s_LSN st"
proof -
  from wit_run obtain s' where s':
    "serveRouting wit_session_cfg wit_env [(MsgQuery, wit_msg (CHR ''W'')), (MsgQuery, wit_msg (CHR ''R''))] wit_start = Some s'"
    "ss_log s' = [LAcquire ''p:5432'' 0, LRouting TargetPrimary ReasonWrite, LSend 1 ''p:5432'' 0 (wit_msg (CHR ''W'')),
        LRelay 0, LLatency TargetPrimary 5, LFence 100, LRelease ''p:5432'' 0, LChoose ''r1:5432'' [], LAcquire ''r1:5432'' 7] @
       LSend 8 ''r1:5432'' 7 (wit_msg (CHR ''R'')) #
       [LRouting TargetReplica ReasonRead, LRelay 7, LPolicyRelease ''r1:5432'' [] 5, LLatency TargetReplica 5, LRelease ''r1:5432'' 7]"
    by blast
  have "ss_log wit_start = []" "f_Mode (c_Fencing wit_session_cfg) = FenceStrict" "''r1:5432'' \<noteq> c_Primary wit_session_cfg"
    by (simp_all add: wit_start_def wit_session_cfg_def wit_config_def)
  from strict_fence_respected [OF wit_env_in this(1,2) s' this(3)] show ?thesis by auto
qed

text \<open>
  C11. A read fails over and gives up only on the primary. In an environment whose snapshots name finitely many
  non-empty addresses and where, if the policy is the scored one, its counts and estimates are in range and the
  lags are numbers (\<open>env_in\<close>), \<^verbatim>\<open>dispatchRead\<close> returns; it asks for no address twice; and when it returns no
  connection, then, at one of its own calls, the primary could not be acquired or not be written to.
\<close>

theorem dispatchRead_failover:
  assumes "env_in A env"
  shows "\<exists>r s' es. dispatchRead cfg env full fence fp [] s = Some (r, s') \<and>
                   ss_log s' = ss_log s @ es \<and> distinct (choices es) \<and>
                   (r = None \<longrightarrow> primary_failed cfg env (ss_t s) (ss_t s'))"
proof -
  have "env_fit env" "\<And>t. s_Addr ` set (e_snapshot env t) \<subseteq> A" "finite A"
    using assms by (auto simp: env_in_def)
  from dispatchRead_total [OF this, of cfg full fence fp "[]" s] show ?thesis
    by (auto simp: dispatched_log_def)
qed

theorem dispatchRead_failover_witness:
  "\<exists>r s'. dispatchRead wit_session_cfg wit_env (wit_msg (CHR ''R'')) 100 [] [] wit_start = Some (r, s') \<and> r \<noteq> None"
proof -
  have "\<not> primary_failed wit_session_cfg wit_env 0 t1" for t1 by (simp add: primary_failed_def wit_answers)
  with dispatchRead_failover [OF wit_env_in, of wit_session_cfg "wit_msg (CHR ''R'')" 100 "[]" wit_start] show ?thesis
    by (fastforce simp: wit_start_def)
qed

text \<open>
  C18. A write that starts a transaction goes to the primary and nowhere else: with no backend held, a
  query that is not a provable read is sent exactly once, to a connection acquired from the primary,
  or not at all when the primary has no connection to give.
\<close>

theorem write_goes_to_primary:
  assumes "rv_held v = None" "Classify (e_parse env) (queryString full) = Write"
    and "route_query cfg env full v s = Some (r, s')"
  shows "tally ev_sent (ss_log s') = tally ev_sent (ss_log s) +
           (case e_acquire env (ss_t s) (c_Primary cfg) of Inl _ \<Rightarrow> {#} | Inr c \<Rightarrow> {#(c_Primary cfg, c, full)#})"
proof (cases "e_acquire env (ss_t s) (c_Primary cfg)")
  case (Inl e)
  with assms show ?thesis by (auto simp: route_query_def Let_def call_acquire_def)
next
  case (Inr c)
  let ?breaks = "BreaksTxPooling (e_parse env) (queryString full) \<noteq> None"
  from Inr assms have "route_run cfg env full Write ?breaks True False c (c_Primary cfg) [] [] v
      (log_ev (LAcquire (c_Primary cfg) c) (tick s)) = (r, s')"
    by (simp add: route_query_def Let_def call_acquire_def)
  then have "tally ev_sent (ss_log s') = add_mset (c_Primary cfg, c, full)
      (tally ev_sent (ss_log (log_ev (LAcquire (c_Primary cfg) c) (tick s))))"
    using sent_route_run [of cfg env full Write ?breaks True c "c_Primary cfg" v] by (metis snd_conv)
  with Inr show ?thesis by simp
qed

theorem write_goes_to_primary_witness:
  "\<exists>r s'. route_query wit_session_cfg wit_env (wit_msg (CHR ''W'')) \<lparr>rv_held = None, rv_wrote = False, rv_fence = 0\<rparr> wit_start = Some (r, s') \<and>
     tally ev_sent (ss_log s') = {#(''p:5432'', 0, wit_msg (CHR ''W''))#}"
proof (intro exI conjI, rule wit_write)
  show "tally ev_sent (ss_log \<lparr>ss_t = 5, ss_log = [LAcquire ''p:5432'' 0, LRouting TargetPrimary ReasonWrite,
        LSend 1 ''p:5432'' 0 (wit_msg (CHR ''W'')), LRelay 0, LLatency TargetPrimary 5, LFence 100, LRelease ''p:5432'' 0]\<rparr>) =
      {#(''p:5432'', 0, wit_msg (CHR ''W''))#}"
    using write_goes_to_primary [OF _ _ wit_write]
    by (simp add: wit_class wit_query wit_answers wit_start_def wit_session_cfg_def wit_config_def)
qed

text \<open>
  A write whose position could not be read leaves no fence: when \<^verbatim>\<open>primaryLSN\<close> fails after a
  transaction that wrote, the fence stays as it was, nobody is told, and the connection, on which the
  query may still be unanswered, is released to the pool and not discarded.
\<close>

theorem failed_primaryLSN_keeps_fence:
  assumes "rv_wrote v" "e_queryRow env (ss_t s) c = Inl e"
  shows "route_finish cfg env False StatusIdle c (c_Primary cfg) v s =
           (Continue (v\<lparr>rv_wrote := False, rv_held := None\<rparr>), call_release (c_Primary cfg) c (tick s))"
  using assms by (simp add: route_finish_def primaryLSN_def)

theorem failed_primaryLSN_keeps_fence_witness:
  "route_finish wit_session_cfg (wit_env\<lparr>e_queryRow := \<lambda>t c. Inl BeReceive\<rparr>) False StatusIdle 3 (c_Primary wit_session_cfg)
     \<lparr>rv_held = Some (3, c_Primary wit_session_cfg), rv_wrote = True, rv_fence = 0\<rparr> wit_start =
   (Continue \<lparr>rv_held = None, rv_wrote = False, rv_fence = 0\<rparr>, call_release (c_Primary wit_session_cfg) 3 (tick wit_start))"
  using failed_primaryLSN_keeps_fence
    [of "\<lparr>rv_held = Some (3, c_Primary wit_session_cfg), rv_wrote = True, rv_fence = 0\<rparr>" "wit_env\<lparr>e_queryRow := \<lambda>t c. Inl BeReceive\<rparr>"]
  by simp

end
