(* ===== verification/Serve.thy ===== *)
theory Serve
  imports Session Startup
begin

text \<open>
  The rest of \<^verbatim>\<open>internal/proxy/session.go\<close>: a session from its first byte to its end. \<^verbatim>\<open>serve\<close>
  negotiates, authenticates the client, finishes its startup and hands it to one of three modes:
  routing (\<^verbatim>\<open>serveRouting\<close>), transaction pooling (\<^verbatim>\<open>serveTransaction\<close>) or session pooling, which relays
  on one backend to the end. The environment and the log are those of the routing mode. Messages of
  the login are the decoded ones of pgproto3, as on the proxy's own connections.
\<close>


subsection \<open>The client's connection\<close>

record client_conn =
  cc_in :: "fmsg list"
  cc_out :: "bmsg list"
  cc_flushes :: "nat option"

datatype serve_err =
  SeStartup startup_err | SeFlush | SeReceive | SeUnexpected fmsg | SeScram scram_err | SeRand
| SeRejected string string

text \<open>\<^verbatim>\<open>Send\<close> of some messages and one \<^verbatim>\<open>Flush\<close>; \<^verbatim>\<open>Receive\<close>.\<close>

definition cc_flush :: "bmsg list \<Rightarrow> client_conn \<Rightarrow> bool \<times> client_conn" where
  "cc_flush ms cc =
     (case cc_flushes cc of
        None \<Rightarrow> (True, cc\<lparr>cc_out := cc_out cc @ ms\<rparr>)
      | Some 0 \<Rightarrow> (False, cc)
      | Some (Suc n) \<Rightarrow> (True, cc\<lparr>cc_out := cc_out cc @ ms, cc_flushes := Some n\<rparr>))"

definition cc_receive :: "client_conn \<Rightarrow> fmsg option \<times> client_conn" where
  "cc_receive cc = (case cc_in cc of [] \<Rightarrow> (None, cc) | m # ms \<Rightarrow> (Some m, cc\<lparr>cc_in := ms\<rparr>))"

text \<open>\<^verbatim>\<open>reject\<close>: the error goes to the client if it can be written, and back to the caller in any case.\<close>

definition reject :: "string \<Rightarrow> string \<Rightarrow> client_conn \<Rightarrow> serve_err option \<times> client_conn" where
  "reject code message cc = (Some (SeRejected code message), snd (cc_flush [ErrorResponse code message] cc))"


subsection \<open>Authenticating the client\<close>

definition authenticateClient_final :: "Server \<Rightarrow> client_conn \<Rightarrow> serve_err option \<times> client_conn" where
  "authenticateClient_final srv cc =
     (case cc_receive cc of
        (None, cc1) \<Rightarrow> (Some SeReceive, cc1)
      | (Some msg, cc1) \<Rightarrow>
          (case msg of
             SASLResponse data \<Rightarrow>
               (case HandleClientFinal srv data of
                  Inl e \<Rightarrow> reject ''28P01'' ''password authentication failed'' cc1
                | Inr serverFinal \<Rightarrow>
                    (case cc_flush [AuthenticationSASLFinal serverFinal, AuthenticationOk] cc1 of
                       (False, cc2) \<Rightarrow> (Some SeFlush, cc2)
                     | (True, cc2) \<Rightarrow> (None, cc2)))
           | _ \<Rightarrow> (Some (SeUnexpected msg), cc1)))"

definition authenticateClient ::
  "kdf \<Rightarrow> string \<Rightarrow> byte list option \<Rightarrow> byte list option \<Rightarrow> client_conn \<Rightarrow> serve_err option \<times> client_conn"
where
  "authenticateClient kdf password rand1 rand2 cc =
     (case cc_flush [AuthenticationSASL [scramMechanism]] cc of
        (False, cc1) \<Rightarrow> (Some SeFlush, cc1)
      | (True, cc1) \<Rightarrow>
     (case NewServer password rand1 rand2 of
        Inl e \<Rightarrow> (Some (SeScram e), cc1)
      | Inr srv \<Rightarrow>
     (case cc_receive cc1 of
        (None, cc2) \<Rightarrow> (Some SeReceive, cc2)
      | (Some msg, cc2) \<Rightarrow>
          (case msg of
             SASLInitialResponse mechanism data \<Rightarrow>
               if mechanism \<noteq> scramMechanism then reject ''28P01'' ''unsupported SASL mechanism'' cc2
               else (case HandleClientFirst kdf srv data of
                       (Inl e, srv1) \<Rightarrow> reject ''28P01'' ''SCRAM negotiation failed'' cc2
                     | (Inr serverFirst, srv1) \<Rightarrow>
                         (case cc_flush [AuthenticationSASLContinue serverFirst] cc2 of
                            (False, cc3) \<Rightarrow> (Some SeFlush, cc3)
                          | (True, cc3) \<Rightarrow> authenticateClient_final srv1 cc3))
           | _ \<Rightarrow> (Some (SeUnexpected msg), cc2)))))"


subsection \<open>Completing the startup\<close>

definition randomKeyData :: "byte list option \<Rightarrow> (uint32 \<times> uint32) option" where
  "randomKeyData rand = map_option (\<lambda>b. (be_uint32_list (take 4 b), be_uint32_list (drop 4 b))) rand"

text \<open>\<open>params\<close> is the map of \<^verbatim>\<open>Params()\<close> in the order in which the loop happens to visit it.\<close>

definition completeStartup ::
  "(string \<times> string) list \<Rightarrow> byte list option \<Rightarrow> client_conn \<Rightarrow> serve_err option \<times> client_conn"
where
  "completeStartup params rand cc =
     (case randomKeyData rand of
        None \<Rightarrow> (Some SeRand, cc)
      | Some (pid, key) \<Rightarrow>
          (case cc_flush (map (\<lambda>(name, value). ParameterStatus name value) params @
                          [BackendKeyData pid key, ReadyForQuery StatusIdle]) cc of
             (False, cc1) \<Rightarrow> (Some SeFlush, cc1)
           | (True, cc1) \<Rightarrow> (None, cc1)))"


subsection \<open>Relaying to the end\<close>

text \<open>
  \<^verbatim>\<open>relayPooled\<close> runs two relays at once. How they interleave comes down to where the backend's relay
  is when the client's ends: over (\<open>BackendEnded\<close>), or waiting for more after \<open>n\<close> bytes, where the read
  deadline stops it (\<open>Interrupted n\<close>); and whether the context is done. The result is \<^verbatim>\<open>clean\<close>, what
  was written to the backend and to the client, what is left unread of the backend, and the tracker.
\<close>

datatype backend_end = BackendEnded | Interrupted nat

definition relayPooled ::
  "bool \<Rightarrow> backend_end \<Rightarrow> TxTracker \<Rightarrow> reader \<Rightarrow> writer \<Rightarrow> reader \<Rightarrow> writer
   \<Rightarrow> bool \<times> writer \<times> writer \<times> byte list \<times> TxTracker"
where
  "relayPooled ctxDone be_end tracker client_r client_w backend_r backend_w =
     (let n = (case be_end of BackendEnded \<Rightarrow> length (rd_data backend_r) | Interrupted n \<Rightarrow> n);
          seen = \<lparr>rd_data = take n (rd_data backend_r),
                  rd_end = (case be_end of BackendEnded \<Rightarrow> rd_end backend_r | Interrupted _ \<Rightarrow> ErrDeadline)\<rparr>;
          (beErr, client_w1, _, tracker1) = Relay (Some trackBackend) tracker client_w seen;
          ((terminated, feErr), backend_w1, _) = relayFrontend backend_w client_r
      in ((case be_end of BackendEnded \<Rightarrow> False | Interrupted _ \<Rightarrow> terminated \<and> feErr = None \<and> \<not> ctxDone),
          backend_w1, client_w1, drop n (rd_data backend_r), tracker1))"


subsection \<open>Transaction mode\<close>

definition finishBackend :: "Config \<Rightarrow> env \<Rightarrow> conn \<Rightarrow> bool \<Rightarrow> session_state \<Rightarrow> session_state" where
  "finishBackend cfg env c clean s =
     (if \<not> clean then call_discard (c_Primary cfg) c s
      else if \<not> e_reset env (ss_t s) c then call_discard (c_Primary cfg) c (tick s)
      else call_release (c_Primary cfg) c (log_ev (LReset c) (tick s)))"

definition releaseBetweenTransactions :: "Config \<Rightarrow> env \<Rightarrow> conn \<Rightarrow> session_state \<Rightarrow> session_state" where
  "releaseBetweenTransactions cfg env c s =
     (if \<not> e_discardAll env (ss_t s) c then call_discard (c_Primary cfg) c (tick s)
      else call_release (c_Primary cfg) c (log_ev (LReset c) (tick s)))"

record tx_vars =
  tv_held :: "conn option"
  tv_pinned :: bool
  tv_clean :: bool

datatype tx_result = TxContinue tx_vars | TxReturn tx_vars

text \<open>What is not a simple query pins the session: the relay takes over to its end.\<close>

definition tx_extended ::
  "Config \<Rightarrow> env \<Rightarrow> byte list \<Rightarrow> conn \<Rightarrow> tx_vars \<Rightarrow> session_state \<Rightarrow> tx_result \<times> session_state"
where
  "tx_extended cfg env full c v s =
     (case call_write env (c_Primary cfg) c full s of
        (False, s1) \<Rightarrow> (TxReturn (v\<lparr>tv_held := None\<rparr>), call_discard (c_Primary cfg) c s1)
      | (True, s1) \<Rightarrow>
          let ok = e_relayPooled env (ss_t s1) c
          in (TxReturn (v\<lparr>tv_held := None\<rparr>), finishBackend cfg env c ok (tick s1)))"

definition tx_query ::
  "Config \<Rightarrow> env \<Rightarrow> byte list \<Rightarrow> conn \<Rightarrow> tx_vars \<Rightarrow> session_state \<Rightarrow> tx_result \<times> session_state"
where
  "tx_query cfg env full c v s =
     (let v1 = (if \<not> tv_pinned v \<and> BreaksTxPooling (e_parse env) (queryString full) \<noteq> None
                then v\<lparr>tv_pinned := True\<rparr> else v)
      in case call_write env (c_Primary cfg) c full s of
           (False, s1) \<Rightarrow> (TxReturn (v1\<lparr>tv_held := None\<rparr>), call_discard (c_Primary cfg) c s1)
         | (True, s1) \<Rightarrow>
             (case call_relay env c s1 of
                (Inl _, s2) \<Rightarrow> (TxReturn (v1\<lparr>tv_held := None\<rparr>), call_discard (c_Primary cfg) c s2)
              | (Inr status, s2) \<Rightarrow>
                  if status = StatusIdle \<and> \<not> tv_pinned v1
                  then (TxContinue (v1\<lparr>tv_held := None\<rparr>), releaseBetweenTransactions cfg env c s2)
                  else (TxContinue (v1\<lparr>tv_held := Some c\<rparr>), s2)))"

definition tx_message ::
  "Config \<Rightarrow> env \<Rightarrow> byte \<Rightarrow> byte list \<Rightarrow> tx_vars \<Rightarrow> session_state \<Rightarrow> tx_result \<times> session_state"
where
  "tx_message cfg env msgType full v s =
     (case (case tv_held v of Some c \<Rightarrow> (Some c, s) | None \<Rightarrow> call_acquire env (c_Primary cfg) s) of
        (None, s1) \<Rightarrow> (TxReturn v, log_ev (LReject ''53300'') s1)
      | (Some c, s1) \<Rightarrow>
          if msgType \<noteq> MsgQuery then tx_extended cfg env full c v s1 else tx_query cfg env full c v s1)"

fun serveTransaction_loop ::
  "Config \<Rightarrow> env \<Rightarrow> (byte \<times> byte list) list \<Rightarrow> tx_vars \<Rightarrow> session_state \<Rightarrow> tx_vars \<times> session_state"
where
  "serveTransaction_loop cfg env [] v s = (v, s)"
| "serveTransaction_loop cfg env ((msgType, full) # msgs) v s =
     (if msgType = MsgTerminate then (v\<lparr>tv_clean := True\<rparr>, s)
      else case tx_message cfg env msgType full v s of
             (TxReturn v1, s1) \<Rightarrow> (v1, s1)
           | (TxContinue v1, s1) \<Rightarrow> serveTransaction_loop cfg env msgs v1 s1)"

definition serveTransaction ::
  "Config \<Rightarrow> env \<Rightarrow> conn \<Rightarrow> (byte \<times> byte list) list \<Rightarrow> session_state \<Rightarrow> session_state"
where
  "serveTransaction cfg env initial msgs s =
     (case serveTransaction_loop cfg env msgs \<lparr>tv_held = Some initial, tv_pinned = False, tv_clean = False\<rparr> s of
        (v, s1) \<Rightarrow> (case tv_held v of None \<Rightarrow> s1 | Some c \<Rightarrow> finishBackend cfg env c (tv_clean v) s1))"


subsection \<open>The whole session\<close>

text \<open>
  \<^verbatim>\<open>%q\<close>: quotes and backslashes escaped, control characters in Go's escapes; the bytes of other
  characters stay.
\<close>

definition quote_char :: "char \<Rightarrow> string" where
  "quote_char c =
     (let n = (of_char c :: nat); hex = (\<lambda>d. char_of (if d < 10 then 48 + d else 87 + d))
      in if n = 34 \<or> n = 92 then [CHR 0x5C, c]
         else if 7 \<le> n \<and> n \<le> 13 then [CHR 0x5C, ''abtnvfr'' ! (n - 7)]
         else if n < 32 \<or> n = 127 then [CHR 0x5C, CHR ''x'', hex (n div 16), hex (n mod 16)]
         else [c])"

definition go_quote :: "string \<Rightarrow> string" where
  "go_quote s = [CHR 0x22] @ concat (map quote_char s) @ [CHR 0x22]"

text \<open>
  What a session is given: the three draws of random bytes, the decoder of the startup message (in
  pgproto3), the parameters a backend reported at its login, and whether there is a registry.
\<close>

record serve_env =
  se_kdf :: kdf
  se_nonce :: "byte list option"
  se_salt :: "byte list option"
  se_keyData :: "byte list option"
  se_decode :: "byte list \<Rightarrow> (string \<rightharpoonup> string) option"
  se_params :: "conn \<Rightarrow> (string \<times> string) list"
  se_registry :: bool

definition parseStartupParams :: "serve_env \<Rightarrow> startupPacket \<Rightarrow> (string \<rightharpoonup> string) option" where
  "parseStartupParams se pkt = se_decode se (drop 4 (sp_raw pkt))"

text \<open>A key that is not in the map reads as the empty string.\<close>

definition get_param :: "(string \<rightharpoonup> string) \<Rightarrow> string \<Rightarrow> string" where
  "get_param params k = (case params k of None \<Rightarrow> [] | Some v \<Rightarrow> v)"

definition session_routing :: "Config \<Rightarrow> serve_env \<Rightarrow> bool" where
  "session_routing cfg se \<longleftrightarrow> se_registry se \<and> 0 < length (c_Replicas cfg)"

definition serve_mode ::
  "Config \<Rightarrow> env \<Rightarrow> serve_env \<Rightarrow> conn \<Rightarrow> (byte \<times> byte list) list \<Rightarrow> session_state \<Rightarrow> session_state option"
where
  "serve_mode cfg env se be msgs s =
     (if session_routing cfg se then serveRouting cfg env msgs (call_release (c_Primary cfg) be s)
      else if po_Mode (c_Pool cfg) = ModeTransaction then Some (serveTransaction cfg env be msgs s)
      else Some (finishBackend cfg env be (e_relayPooled env (ss_t s) be) (tick s)))"

definition serve_user ::
  "Config \<Rightarrow> env \<Rightarrow> serve_env \<Rightarrow> User \<Rightarrow> client_conn \<Rightarrow> (byte \<times> byte list) list \<Rightarrow> session_state
   \<Rightarrow> (serve_err option \<times> client_conn \<times> session_state) option"
where
  "serve_user cfg env se u cc msgs s =
     (case authenticateClient (se_kdf se) (u_Password u) (se_nonce se) (se_salt se) cc of
        (Some e, cc1) \<Rightarrow> Some (Some e, cc1, s)
      | (None, cc1) \<Rightarrow>
     (case call_acquire env (c_Primary cfg) s of
        (None, s1) \<Rightarrow>
          (case reject ''53300'' ''could not acquire a backend connection'' cc1 of (e, cc2) \<Rightarrow> Some (e, cc2, s1))
      | (Some be, s1) \<Rightarrow>
     (case completeStartup (se_params se be) (se_keyData se) cc1 of
        (Some e, cc2) \<Rightarrow> Some (Some e, cc2, call_discard (c_Primary cfg) be s1)
      | (None, cc2) \<Rightarrow> map_option (\<lambda>s2. (None, cc2, s2)) (serve_mode cfg env se be msgs s1))))"

text \<open>
  \<open>envs user database\<close> is the environment of a session of that user and database: its calls of the
  manager are for their pools. The error is the one \<^verbatim>\<open>serve\<close> returns itself; when a mode rejects the
  client, the log says so. The client's connection is closed when \<^verbatim>\<open>serve\<close> returns.
\<close>

definition serve ::
  "Config \<Rightarrow> (string \<Rightarrow> string \<Rightarrow> env) \<Rightarrow> serve_env \<Rightarrow> writer \<Rightarrow> reader \<Rightarrow> client_conn \<Rightarrow> (byte \<times> byte list) list \<Rightarrow> session_state
   \<Rightarrow> (serve_err option \<times> client_conn \<times> session_state) option"
where
  "serve cfg envs se client_w client_r cc msgs s =
     (case negotiateStartup client_w client_r of
        (Inl e, _) \<Rightarrow> Some (Some (SeStartup e), cc, s)
      | (Inr pkt, _) \<Rightarrow>
          if isCancelRequest pkt then Some (None, cc, s)
          else (case parseStartupParams se pkt of
                  None \<Rightarrow> (case reject ''08P01'' ''invalid startup packet'' cc of (e, cc1) \<Rightarrow> Some (e, cc1, s))
                | Some params \<Rightarrow>
                    let user = get_param params ''user'';
                        database = (if get_param params ''database'' = [] then user else get_param params ''database'')
                    in if user = []
                       then (case reject ''08P01'' ''startup packet has no user'' cc of (e, cc1) \<Rightarrow> Some (e, cc1, s))
                       else (case Config_User cfg user of
                               None \<Rightarrow>
                                 (case reject ''28P01'' (''password authentication failed for user '' @ go_quote user) cc of
                                    (e, cc1) \<Rightarrow> Some (e, cc1, s))
                             | Some u \<Rightarrow> serve_user cfg (envs user database) se u cc msgs s)))"


subsection \<open>What transaction mode keeps\<close>

lemma finishBackend_inv: "sinv cfg env (add_mset (c_Primary cfg, c) H) P f s \<Longrightarrow> sinv cfg env H P f (finishBackend cfg env c clean s)"
  by (simp add: finishBackend_def)

lemma releaseBetween_inv:
  "sinv cfg env (add_mset (c_Primary cfg, c) H) P f s \<Longrightarrow> sinv cfg env H P f (releaseBetweenTransactions cfg env c s)"
  by (simp add: releaseBetweenTransactions_def)

definition tx_held :: "Config \<Rightarrow> tx_vars \<Rightarrow> (address \<times> conn) multiset" where
  "tx_held cfg v = (case tv_held v of None \<Rightarrow> {#} | Some c \<Rightarrow> {#(c_Primary cfg, c)#})"

fun tx_vars_of :: "tx_result \<Rightarrow> tx_vars" where
  "tx_vars_of (TxContinue v) = v"
| "tx_vars_of (TxReturn v) = v"

lemma sinv_write_primary:
  "sinv cfg env {#(c_Primary cfg, c)#} P f s \<Longrightarrow> sinv cfg env {#(c_Primary cfg, c)#} P f (snd (call_write env (c_Primary cfg) c full s))"
  by (rule sinv_send) simp_all

lemma sinv_relay [simp]: "sinv cfg env {#(a, c)#} P f s \<Longrightarrow> sinv cfg env {#(a, c)#} P f (snd (call_relay env c s))"
  by (simp add: call_relay_def)

lemma tx_extended_inv:
  assumes "sinv cfg env {#(c_Primary cfg, c)#} {#} f s" "tx_extended cfg env full c v s = (r, s')"
  shows "sinv cfg env (tx_held cfg (tx_vars_of r)) {#} f s'"
  using assms(2) sinv_write_primary [OF assms(1), of full]
  by (auto simp: tx_extended_def tx_held_def Let_def intro: finishBackend_inv split: prod.splits bool.splits)

lemma tx_query_inv:
  assumes "sinv cfg env {#(c_Primary cfg, c)#} {#} f s" "tx_query cfg env full c v s = (r, s')"
  shows "sinv cfg env (tx_held cfg (tx_vars_of r)) {#} f s'"
proof -
  obtain sent s1 where w: "call_write env (c_Primary cfg) c full s = (sent, s1)" by fastforce
  obtain ans s2 where q: "call_relay env c s1 = (ans, s2)" by fastforce
  have "sinv cfg env {#(c_Primary cfg, c)#} {#} f s1" using sinv_write_primary [OF assms(1), of full] w by simp
  moreover from this have "sinv cfg env {#(c_Primary cfg, c)#} {#} f s2"
    using sinv_relay [of cfg env "c_Primary cfg" c "{#}" f s1] q by simp
  ultimately show ?thesis
    using assms(2) w q
    by (auto simp: tx_query_def tx_held_def Let_def intro: releaseBetween_inv split: bool.splits sum.splits if_splits)
qed

lemma tx_message_inv:
  assumes "sinv cfg env (tx_held cfg v) {#} f s" "tx_message cfg env ty full v s = (r, s')"
  shows "sinv cfg env (tx_held cfg (tx_vars_of r)) {#} f s'"
proof (cases "tv_held v")
  case (Some c)
  with assms show ?thesis
    by (auto simp: tx_message_def tx_held_def split: if_splits dest: tx_extended_inv tx_query_inv)
next
  case None
  obtain o1 s1 where q: "call_acquire env (c_Primary cfg) s = (o1, s1)" by fastforce
  from assms(1) None have k: "sinv cfg env {#} {#} f s" by (simp add: tx_held_def)
  show ?thesis
  proof (cases o1)
    case None
    with q k assms(2) \<open>tv_held v = None\<close> call_acquire_None [of env "c_Primary cfg" s s1] show ?thesis
      by (auto simp: tx_message_def tx_held_def)
  next
    case (Some c)
    with q k have "sinv cfg env {#(c_Primary cfg, c)#} {#} f s1" using call_acquire_Some by blast
    with assms(2) q Some \<open>tv_held v = None\<close> show ?thesis
      by (auto simp: tx_message_def tx_held_def split: if_splits dest: tx_extended_inv tx_query_inv)
  qed
qed

lemma serveTransaction_loop_inv:
  "sinv cfg env (tx_held cfg v) {#} f s \<Longrightarrow> serveTransaction_loop cfg env msgs v s = (v', s') \<Longrightarrow>
   sinv cfg env (tx_held cfg v') {#} f s'"
proof (induction msgs arbitrary: v s)
  case (Cons m msgs)
  obtain ty full where m: "m = (ty, full)" by (cases m)
  obtain r s1 where r: "tx_message cfg env ty full v s = (r, s1)" by fastforce
  from tx_message_inv [OF Cons.prems(1) r] Cons.prems Cons.IH [of "tx_vars_of r" s1] m r show ?case
    by (auto simp: tx_held_def split: if_splits tx_result.splits)
qed simp

lemma serveTransaction_inv:
  assumes "sinv cfg env {#(c_Primary cfg, c)#} {#} f s"
  shows "sinv cfg env {#} {#} f (serveTransaction cfg env c msgs s)"
proof -
  let ?v = "\<lparr>tv_held = Some c, tv_pinned = False, tv_clean = False\<rparr>"
  obtain v' s' where l: "serveTransaction_loop cfg env msgs ?v s = (v', s')" by fastforce
  have "sinv cfg env (tx_held cfg v') {#} f s'"
    by (rule serveTransaction_loop_inv [OF _ l]) (use assms in \<open>simp add: tx_held_def\<close>)
  with l show ?thesis
    by (auto simp: serveTransaction_def tx_held_def intro: finishBackend_inv split: option.splits)
qed


subsection \<open>What the login keeps\<close>

lemma cc_flush_in [simp]: "cc_in (snd (cc_flush ms cc)) = cc_in cc"
  by (simp add: cc_flush_def split: option.splits nat.splits)

lemma cc_flush_Pair: "cc_flush ms cc = (b, cc1) \<Longrightarrow> cc_in cc1 = cc_in cc"
  using cc_flush_in [of ms cc] by simp

lemma reject_fails [simp]: "fst (reject code message cc) \<noteq> None" "reject code message cc \<noteq> (None, cc')"
  by (simp_all add: reject_def)

text \<open>Authentication succeeds only on the two messages of an accepted exchange.\<close>

lemma authenticateClient_final_ok:
  assumes "authenticateClient_final srv cc = (None, cc')"
  shows "\<exists>m3 m4 rest. cc_in cc = SASLResponse m3 # rest \<and> HandleClientFinal srv m3 = Inr m4"
  using assms
  by (auto simp: authenticateClient_final_def cc_receive_def split: list.splits fmsg.splits sum.splits)

lemma authenticateClient_ok:
  assumes "authenticateClient kdf pw r1 r2 cc = (None, cc')"
  shows "\<exists>sv m1 m2 sv1 m3 m4 rest. NewServer pw r1 r2 = Inr sv \<and>
           cc_in cc = SASLInitialResponse scramMechanism m1 # SASLResponse m3 # rest \<and>
           HandleClientFirst kdf sv m1 = (Inr m2, sv1) \<and> HandleClientFinal sv1 m3 = Inr m4"
proof -
  obtain b cc1 where f: "cc_flush [AuthenticationSASL [scramMechanism]] cc = (b, cc1)" by fastforce
  from assms f obtain sv mech m1 rest where 1: "NewServer pw r1 r2 = Inr sv"
      "cc_in cc1 = SASLInitialResponse mech m1 # rest"
    by (auto simp: authenticateClient_def cc_receive_def split: bool.splits sum.splits list.splits fmsg.splits)
  let ?cc2 = "cc1\<lparr>cc_in := rest\<rparr>"
  obtain h sv1 where h: "HandleClientFirst kdf sv m1 = (h, sv1)" by fastforce
  from assms f 1 h obtain m2 where 2: "h = Inr m2" "mech = scramMechanism"
    by (auto simp: authenticateClient_def cc_receive_def split: bool.splits sum.splits if_splits)
  obtain b2 cc3 where g: "cc_flush [AuthenticationSASLContinue m2] ?cc2 = (b2, cc3)" by fastforce
  from assms f 1 h 2 g have "authenticateClient_final sv1 cc3 = (None, cc')"
    by (auto simp: authenticateClient_def cc_receive_def split: bool.splits)
  from authenticateClient_final_ok [OF this] obtain m3 m4 rest' where
    3: "cc_in cc3 = SASLResponse m3 # rest'" "HandleClientFinal sv1 m3 = Inr m4" by blast
  from cc_flush_Pair [OF f] cc_flush_Pair [OF g] 1(2) 3(1) 2(2)
  have "cc_in cc = SASLInitialResponse scramMechanism m1 # SASLResponse m3 # rest'" by simp
  with 1(1) 3(2) h 2(1) show ?thesis by blast
qed

lemma serve_mode_inv:
  assumes "env_in A env" "sinv cfg env {#(c_Primary cfg, c)#} {#} 0 s"
  shows "\<exists>s' f. serve_mode cfg env se c msgs s = Some s' \<and> sinv cfg env {#} {#} f s'"
proof -
  have "sinv cfg env {#} {#} 0 (call_release (c_Primary cfg) c s)" using assms(2) by simp
  from serveRouting_inv [OF assms(1) this, of msgs] serveTransaction_inv [OF assms(2), of msgs]
    finishBackend_inv [of cfg env c "{#}" "{#}" 0 "tick s" "e_relayPooled env (ss_t s) c"] assms(2)
  show ?thesis by (auto simp: serve_mode_def)
qed

lemma serve_user_inv:
  assumes "env_in A env" "sinv cfg env {#} {#} 0 s"
  shows "\<exists>e cc' s' f. serve_user cfg env se u cc msgs s = Some (e, cc', s') \<and> sinv cfg env {#} {#} f s'"
proof -
  obtain e1 cc1 where a: "authenticateClient (se_kdf se) (u_Password u) (se_nonce se) (se_salt se) cc = (e1, cc1)" by fastforce
  obtain o1 s1 where q: "call_acquire env (c_Primary cfg) s = (o1, s1)" by fastforce
  show ?thesis
  proof (cases e1)
    case (Some e)
    with a assms(2) show ?thesis by (auto simp: serve_user_def)
  next
    case None
    note ok = None
    show ?thesis
    proof (cases o1)
      case None
      with call_acquire_None [of env "c_Primary cfg" s s1 cfg "{#}" "{#}" 0] q assms(2)
      have "sinv cfg env {#} {#} 0 s1" by simp
      with None q ok a show ?thesis by (auto simp: serve_user_def split: prod.splits)
    next
      case (Some be)
      with q assms(2) have k: "sinv cfg env {#(c_Primary cfg, be)#} {#} 0 s1" using call_acquire_Some by blast
      obtain e2 cc2 where c: "completeStartup (se_params se be) (se_keyData se) cc1 = (e2, cc2)" by fastforce
      from serve_mode_inv [OF assms(1) k, of se msgs] sinv_return(2) [OF k] a ok q Some c show ?thesis
        by (cases e2) (auto simp: serve_user_def)
    qed
  qed
qed


text \<open>
  Either nothing is done at the backends, or the startup packet names a configured user and the session is that
  user's, on the environment of that user and the database the packet asks for.
\<close>

definition startup_names :: "serve_env \<Rightarrow> writer \<Rightarrow> reader \<Rightarrow> string \<Rightarrow> string \<Rightarrow> bool" where
  "startup_names se w r user d \<longleftrightarrow>
     (\<exists>pkt params. fst (negotiateStartup w r) = Inr pkt \<and> \<not> isCancelRequest pkt \<and> parseStartupParams se pkt = Some params \<and>
        user = get_param params ''user'' \<and> user \<noteq> [] \<and>
        d = (if get_param params ''database'' = [] then user else get_param params ''database''))"

lemma serve_cases:
  "(\<exists>e cc'. \<forall>envs. serve cfg envs se w r cc msgs s = Some (e, cc', s)) \<or>
   (\<exists>user d u. startup_names se w r user d \<and> Config_User cfg user = Some u \<and>
      (\<forall>envs. serve cfg envs se w r cc msgs s = serve_user cfg (envs user d) se u cc msgs s))"
proof -
  obtain o1 rest where n: "negotiateStartup w r = (o1, rest)" by (rule prod.exhaust)
  show ?thesis
  proof (cases "\<exists>pkt params u. o1 = Inr pkt \<and> \<not> isCancelRequest pkt \<and> parseStartupParams se pkt = Some params \<and>
      get_param params ''user'' \<noteq> [] \<and> Config_User cfg (get_param params ''user'') = Some u")
    case True
    then obtain pkt params u where k: "o1 = Inr pkt" "\<not> isCancelRequest pkt" "parseStartupParams se pkt = Some params"
      "get_param params ''user'' \<noteq> []" "Config_User cfg (get_param params ''user'') = Some u" by blast
    let ?d = "if get_param params ''database'' = [] then get_param params ''user'' else get_param params ''database''"
    have "startup_names se w r (get_param params ''user'') ?d" using k n by (simp add: startup_names_def)
    moreover have "\<forall>envs. serve cfg envs se w r cc msgs s = serve_user cfg (envs (get_param params ''user'') ?d) se u cc msgs s"
      using k n by (simp add: serve_def Let_def split_beta)
    ultimately show ?thesis using k(5) by blast
  next
    case False
    note none = False
    have "\<exists>e cc'. \<forall>envs. serve cfg envs se w r cc msgs s = Some (e, cc', s)"
    proof (cases o1)
      case (Inl e)
      with n show ?thesis by (simp add: serve_def)
    next
      case (Inr pkt)
      show ?thesis
      proof (cases "parseStartupParams se pkt")
        case None
        with n Inr show ?thesis by (cases "isCancelRequest pkt") (simp_all add: serve_def reject_def split_beta)
      next
        case (Some params)
        with none Inr have "isCancelRequest pkt \<or> get_param params ''user'' = [] \<or> Config_User cfg (get_param params ''user'') = None"
          by auto
        with n Inr Some show ?thesis 
          by (cases "isCancelRequest pkt"; cases "get_param params ''user'' = []") (simp_all add: serve_def reject_def split_beta Let_def)
      qed
    qed
    then show ?thesis by (rule disjI1)
  qed
qed

lemma serve_inv:
  assumes "\<And>u d. env_in A (envs u d)" "ss_log s = []"
  shows "\<exists>e cc' s' env f. serve cfg envs se w r cc msgs s = Some (e, cc', s') \<and> sinv cfg env {#} {#} f s'"
proof (cases "\<exists>e cc'. serve cfg envs se w r cc msgs s = Some (e, cc', s)")
  case True
  with sinv_start [OF assms(2)] show ?thesis by blast
next
  case False
  with serve_cases [of cfg se w r cc msgs s] obtain user d u where
    "serve cfg envs se w r cc msgs s = serve_user cfg (envs user d) se u cc msgs s" by metis
  with serve_user_inv [OF assms(1) sinv_start [OF assms(2)], of cfg user d se u cc msgs]
  obtain e cc' s' f where "serve cfg envs se w r cc msgs s = Some (e, cc', s')" "sinv cfg (envs user d) {#} {#} f s'" by auto
  then show ?thesis by blast
qed


subsection \<open>A released connection was reset\<close>

definition reset_before :: "session_event list \<Rightarrow> session_event \<Rightarrow> bool" where
  "reset_before pre e \<longleftrightarrow>
     (case e of LRelease a c \<Rightarrow> pre \<noteq> [] \<and> last pre = LReset c | _ \<Rightarrow> True)"

definition releases_reset :: "session_state \<Rightarrow> bool" where
  "releases_reset s \<longleftrightarrow> every_at reset_before (ss_log s)"

lemma releases_reset_calls [simp]:
  "releases_reset (tick s) = releases_reset s"
  "releases_reset (call_discard a c s) = releases_reset s"
  "releases_reset (call_release a c (log_ev (LReset c) s)) = releases_reset s"
  "releases_reset (log_ev (LAcquire a c) s) = releases_reset s"
  "releases_reset (log_ev (LSend t a c full) s) = releases_reset s"
  "releases_reset (log_ev (LRelay c) s) = releases_reset s"
  "releases_reset (log_ev (LReject x) s) = releases_reset s"
  by (simp_all add: releases_reset_def reset_before_def every_at_snoc2 call_discard_def call_release_def)

lemma releases_reset_finish [simp]:
  "releases_reset (finishBackend cfg env c clean s) = releases_reset s"
  "releases_reset (releaseBetweenTransactions cfg env c s) = releases_reset s"
  by (simp_all add: finishBackend_def releaseBetweenTransactions_def)

lemma releases_reset_tx_message:
  "releases_reset (snd (tx_message cfg env ty full v s)) = releases_reset s"
  by (simp add: tx_message_def tx_extended_def tx_query_def call_acquire_def call_write_def call_relay_def Let_def
      split: option.splits sum.splits bool.splits)

lemma releases_reset_loop:
  "releases_reset (snd (serveTransaction_loop cfg env msgs v s)) = releases_reset s"
proof (induction msgs arbitrary: v s)
  case (Cons m msgs)
  obtain ty full where m: "m = (ty, full)" by (cases m)
  obtain r s1 where r: "tx_message cfg env ty full v s = (r, s1)" by fastforce
  with releases_reset_tx_message [of cfg env ty full v s] Cons.IH m show ?case
    by (auto split: tx_result.splits)
qed simp

lemma releases_reset_transaction:
  "releases_reset (serveTransaction cfg env c msgs s) = releases_reset s"
  using releases_reset_loop [of cfg env msgs "\<lparr>tv_held = Some c, tv_pinned = False, tv_clean = False\<rparr>" s]
  by (auto simp: serveTransaction_def split: prod.splits option.splits)


subsection \<open>A pinned session keeps its backend\<close>

definition only_on :: "conn \<Rightarrow> session_event list \<Rightarrow> bool" where
  "only_on c es \<longleftrightarrow> list_all (\<lambda>e. case e of LSend t a c' full \<Rightarrow> c' = c | LAcquire a c' \<Rightarrow> False | _ \<Rightarrow> True) es"

lemma pinned_message:
  assumes "tv_held v = Some c" "tv_pinned v" "tx_message cfg env ty full v s = (r, s')"
  shows "\<exists>es. ss_log s' = ss_log s @ es \<and> only_on c es \<and>
    (tv_held (tx_vars_of r) = Some c \<and> tv_pinned (tx_vars_of r) \<or> (\<exists>v'. r = TxReturn v' \<and> tv_held v' = None))"
  using assms
  by (auto simp: tx_message_def tx_extended_def tx_query_def Let_def finishBackend_def call_defs only_on_def
      split: if_splits sum.splits bool.splits)

lemma pinned_loop:
  assumes "tv_held v = Some c" "tv_pinned v" "serveTransaction_loop cfg env msgs v s = (v', s')"
  shows "\<exists>es. ss_log s' = ss_log s @ es \<and> only_on c es \<and> (tv_held v' = Some c \<or> tv_held v' = None)"
  using assms
proof (induction msgs arbitrary: v s)
  case Nil
  then show ?case by (auto simp: only_on_def)
next
  case (Cons m msgs)
  obtain ty full where m: "m = (ty, full)" by (cases m)
  obtain r s1 where r: "tx_message cfg env ty full v s = (r, s1)" by fastforce
  from pinned_message [OF Cons.prems(1,2) r] obtain es where es: "ss_log s1 = ss_log s @ es" "only_on c es"
    "tv_held (tx_vars_of r) = Some c \<and> tv_pinned (tx_vars_of r) \<or> (\<exists>v'. r = TxReturn v' \<and> tv_held v' = None)" by blast
  show ?case
  proof (cases "ty = MsgTerminate")
    case True
    with Cons.prems m show ?thesis by (auto simp: only_on_def)
  next
    case False
    show ?thesis
    proof (cases r)
      case (TxReturn v1)
      with es Cons.prems(3) m r False show ?thesis by auto
    next
      case (TxContinue v1)
      with es have "tv_held v1 = Some c" "tv_pinned v1" by auto
      from Cons.IH [OF this] Cons.prems(3) m r False TxContinue obtain es' where
        "ss_log s' = ss_log s1 @ es'" "only_on c es'" "tv_held v' = Some c \<or> tv_held v' = None" by auto
      with es(1,2) show ?thesis by (intro exI [of _ "es @ es'"]) (simp add: only_on_def)
    qed
  qed
qed


text \<open>The query that pins: with a connection held, it runs as if the session had been pinned before.\<close>

lemma pinning_loop:
  assumes "BreaksTxPooling (e_parse env) (queryString full) \<noteq> None" "tv_held v = Some c"
    and "serveTransaction_loop cfg env ((MsgQuery, full) # msgs) v s = (v', s')"
  shows "\<exists>es. ss_log s' = ss_log s @ es \<and> only_on c es"
proof -
  let ?v = "v\<lparr>tv_pinned := True\<rparr>"
  have "tx_message cfg env MsgQuery full v s = tx_message cfg env MsgQuery full ?v s"
  proof (cases "tv_pinned v")
    case True
    then have "?v = v" by simp
    then show ?thesis by (simp only:)
  qed (use assms(1,2) in \<open>simp add: tx_message_def tx_query_def\<close>)
  then have "serveTransaction_loop cfg env ((MsgQuery, full) # msgs) ?v s = (v', s')"
    using assms(3) by (simp add: MsgQuery_def MsgTerminate_def)
  from pinned_loop [OF _ _ this, of c] assms(2) show ?thesis by auto
qed


subsection \<open>An honest client\<close>

lemma authenticateClient_run:
  assumes "NewServer pw r1 r2 = Inr sv" "HandleClientFirst kdf sv m1 = (Inr m2, sv1)" "HandleClientFinal sv1 m3 = Inr m4"
    and "cc_in cc = SASLInitialResponse scramMechanism m1 # SASLResponse m3 # rest" "cc_flushes cc = None"
  shows "authenticateClient kdf pw r1 r2 cc =
    (None, cc\<lparr>cc_in := rest, cc_out := cc_out cc @ [AuthenticationSASL [scramMechanism], AuthenticationSASLContinue m2,
       AuthenticationSASLFinal m4, AuthenticationOk]\<rparr>)"
  using assms by (simp add: authenticateClient_def authenticateClient_final_def cc_flush_def cc_receive_def)

definition wit_serve_env :: serve_env where
  "wit_serve_env = \<lparr>se_kdf = (\<lambda>p salt i. p), se_nonce = Some [], se_salt = Some [], se_keyData = Some [0, 0, 0, 1, 0, 0, 0, 2],
     se_decode = (\<lambda>b. Some [''user'' \<mapsto> ''app'']), se_params = (\<lambda>c. []), se_registry = False\<rparr>"

lemma wit_negotiate:
  "negotiateStartup (open_writer []) \<lparr>rd_data = packet_bytes [0, 3, 0, 0], rd_end = EOF\<rparr> =
     (Inr \<lparr>sp_raw = packet_bytes [0, 3, 0, 0], sp_code = be_uint32_list [0, 3, 0, 0]\<rparr>, open_writer [], \<lparr>rd_data = [], rd_end = EOF\<rparr>)"
  using readStartupPacket_packet [of "[0, 3, 0, 0]" "[]" EOF]
  by (subst negotiateStartup.simps)
     (simp add: packet_ok_def isSSLRequest_def isGSSEncRequest_def be_uint32_def sslRequestCode_def gssEncRequestCode_def)

lemma wit_ends:
  "e_reset wit_env t c" "e_relayPooled wit_env t c" "c_Primary wit_session_cfg = ''p:5432''"
  "po_Mode (c_Pool wit_session_cfg) = ModeSession" "f_Mode (c_Fencing wit_session_cfg) = FenceStrict"
  by (simp_all add: wit_env_def wit_session_cfg_def wit_config_def)

lemma wit_serve_in:
  assumes "c_Primary cfg = ''p:5432''" "po_Mode (c_Pool cfg) = ModeSession"
    and "Config_User cfg ''app'' = Some \<lparr>u_Name = ''app'', u_Password = ''pw''\<rparr>"
  shows "\<exists>cc cc' s'. serve cfg (\<lambda>u d. wit_env) wit_serve_env (open_writer [])
       \<lparr>rd_data = packet_bytes [0, 3, 0, 0], rd_end = EOF\<rparr> cc [] wit_start = Some (None, cc', s') \<and>
     ss_log s' = [LAcquire ''p:5432'' 0, LReset 0] @ LRelease ''p:5432'' 0 # []"
proof -
  obtain cl sv where n: "NewClient ''pw'' (Some []) = Inr cl" "NewServer ''pw'' (Some []) (Some []) = Inr sv"
    by (simp add: NewClient_def NewServer_def newNonce_def)
  from scram_honest [OF n, of "\<lambda>p salt i. p"] obtain m2 s1 m3 c2 m4 where h:
    "HandleClientFirst (\<lambda>p salt i. p) sv (fst (FirstMessage cl)) = (Inr m2, s1)" "HandleClientFinal s1 m3 = Inr m4" by blast
  let ?cc = "\<lparr>cc_in = SASLInitialResponse scramMechanism (fst (FirstMessage cl)) # SASLResponse m3 # [], cc_out = [], cc_flushes = None\<rparr>"
  have "\<not> isCancelRequest \<lparr>sp_raw = packet_bytes [0, 3, 0, 0], sp_code = be_uint32_list [0, 3, 0, 0]\<rparr>"
    by (simp add: isCancelRequest_def cancelRequestCode_def be_uint32_def)
  moreover note authenticateClient_run [OF n(2) h, of ?cc "[]"]
  ultimately show ?thesis using assms
    by - (rule exI [of _ ?cc],
        simp add: serve_def serve_user_def wit_negotiate parseStartupParams_def get_param_def wit_serve_env_def
         completeStartup_def randomKeyData_def cc_flush_def serve_mode_def session_routing_def finishBackend_def call_defs
         wit_answers wit_ends wit_start_def ModeTransaction_def ModeSession_def Let_def)
qed

lemma wit_serve:
  "\<exists>cc cc' s'. serve wit_session_cfg (\<lambda>u d. wit_env) wit_serve_env (open_writer [])
       \<lparr>rd_data = packet_bytes [0, 3, 0, 0], rd_end = EOF\<rparr> cc [] wit_start = Some (None, cc', s') \<and>
     ss_log s' = [LAcquire ''p:5432'' 0, LReset 0] @ LRelease ''p:5432'' 0 # []"
  by (rule wit_serve_in) (simp_all add: wit_ends Config_User_def wit_session_cfg_def wit_config_def)


subsection \<open>Properties\<close>

text \<open>
  Every session, in every mode, ends and leaks nothing: whatever the client sends, whatever the
  backends and the other sessions do, \<^verbatim>\<open>serve\<close> returns, every connection it acquired has been given back
  exactly once (released or discarded) to the pool it came from, and every choice of the routing policy
  has been released exactly once.
\<close>

theorem serve_accounts:
  assumes "\<And>u d. env_in A (envs u d)" "ss_log s = []"
  shows "\<exists>e cc' s'. serve cfg envs se w r cc msgs s = Some (e, cc', s') \<and>
           tally ev_acquired (ss_log s') = tally ev_returned (ss_log s') \<and>
           tally ev_chosen (ss_log s') = tally ev_released (ss_log s')"
  using serve_inv [of A envs, OF assms, where cfg = cfg and se = se and w = w and r = r and cc = cc and msgs = msgs]
  by (auto simp: sinv_def)

theorem serve_accounts_witness:
  "\<exists>e cc' s'. serve wit_session_cfg (\<lambda>u d. wit_env) wit_serve_env (open_writer [])
      \<lparr>rd_data = packet_bytes [0, 3, 0, 0], rd_end = EOF\<rparr> \<lparr>cc_in = [], cc_out = [], cc_flushes = None\<rparr> [] wit_start = Some (e, cc', s') \<and>
    tally ev_acquired (ss_log s') = tally ev_returned (ss_log s')"
proof -
  have "ss_log wit_start = []" by (simp add: wit_start_def)
  from serve_accounts [of _ "\<lambda>u d. wit_env", OF wit_env_in this, where cfg = wit_session_cfg and se = wit_serve_env and w = "open_writer []"
      and r = "\<lparr>rd_data = packet_bytes [0, 3, 0, 0], rd_end = EOF\<rparr>"
      and cc = "\<lparr>cc_in = [], cc_out = [], cc_flushes = None\<rparr>" and msgs = "[]"]
  show ?thesis by blast
qed

text \<open>
  C5. Nothing is done for a client that has not proved its password: if a session acquires a connection, or
  leaves any other trace at the backends, then its startup packet names a configured user; the client's first two
  messages are those of a SCRAM exchange the proxy's side accepted, the second carrying a proof of the key derived
  from that user's password, for this very exchange; and the pools the session uses are those of that user and of
  the database the packet asks for (the user's name when it asks for none): the session is the same whatever the
  pools of other users and databases are.
\<close>

theorem serve_requires_proof:
  assumes "serve cfg envs se w r cc msgs s = Some (e, cc', s')" "ss_log s' \<noteq> ss_log s"
  shows "\<exists>user d u sv m1 m2 sv1 m3 idx rest.
           startup_names se w r user d \<and> u \<in> set (c_Users cfg) \<and> u_Name u = user \<and>
           NewServer (u_Password u) (se_nonce se) (se_salt se) = Inr sv \<and>
           cc_in cc = SASLInitialResponse scramMechanism m1 # SASLResponse m3 # rest \<and>
           HandleClientFirst (se_kdf se) sv m1 = (Inr m2, sv1) \<and>
           scram_field m3 ''r='' = Some (sv_clientNonce sv1 @ sv_serverNonce sv) \<and>
           str_index m3 '',p='' = Some idx \<and>
           proves_key (clientKey_of (se_kdf se) (u_Password u) (sv_salt sv) (sv_iterations sv))
             (sv_clientFirstBare sv1 @ '','' @ m2 @ '','' @ take idx m3) m3 \<and>
           (\<forall>envs'. envs' user d = envs user d \<longrightarrow> serve cfg envs' se w r cc msgs s = Some (e, cc', s'))"
proof -
  from assms serve_cases [of cfg se w r cc msgs s] obtain user d u where
    u: "startup_names se w r user d" "Config_User cfg user = Some u"
      "\<And>envs. serve cfg envs se w r cc msgs s = serve_user cfg (envs user d) se u cc msgs s"
    by (metis Pair_inject option.inject)
  obtain cc1 where "authenticateClient (se_kdf se) (u_Password u) (se_nonce se) (se_salt se) cc = (None, cc1)"
    using u(3) [of envs] assms by (auto simp: serve_user_def split: prod.splits option.splits)
  from authenticateClient_ok [OF this] obtain sv m1 m2 sv1 m3 m4 rest where
    a: "NewServer (u_Password u) (se_nonce se) (se_salt se) = Inr sv"
      "cc_in cc = SASLInitialResponse scramMechanism m1 # SASLResponse m3 # rest"
      "HandleClientFirst (se_kdf se) sv m1 = (Inr m2, sv1)" "HandleClientFinal sv1 m3 = Inr m4" by blast
  have "sv_password sv = u_Password u"
    using a(1) by (auto simp: NewServer_def split: option.splits)
  with HandleClientFinal_proof [OF a(3,4) refl] obtain idx where
    "scram_field m3 ''r='' = Some (sv_clientNonce sv1 @ sv_serverNonce sv)" "str_index m3 '',p='' = Some idx"
    "proves_key (clientKey_of (se_kdf se) (u_Password u) (sv_salt sv) (sv_iterations sv))
       (sv_clientFirstBare sv1 @ '','' @ m2 @ '','' @ take idx m3) m3" by auto
  moreover have "u \<in> set (c_Users cfg)" "u_Name u = user"
    using find_user_Some u(2) by (auto simp: Config_User_def)
  moreover have "\<forall>envs'. envs' user d = envs user d \<longrightarrow> serve cfg envs' se w r cc msgs s = Some (e, cc', s')"
    using u(3) assms(1) by simp
  ultimately show ?thesis using u(1) a(1-3) by blast
qed

theorem serve_requires_proof_witness:
  "\<exists>cc m1 m3 rest. cc_in cc = SASLInitialResponse scramMechanism m1 # SASLResponse m3 # rest \<and>
     (\<exists>e cc' s'. serve wit_session_cfg (\<lambda>u d. wit_env) wit_serve_env (open_writer [])
        \<lparr>rd_data = packet_bytes [0, 3, 0, 0], rd_end = EOF\<rparr> cc [] wit_start = Some (e, cc', s') \<and>
        LAcquire ''p:5432'' 0 \<in> set (ss_log s'))"
proof -
  from wit_serve obtain cc cc' s' where s: "serve wit_session_cfg (\<lambda>u d. wit_env) wit_serve_env (open_writer [])
       \<lparr>rd_data = packet_bytes [0, 3, 0, 0], rd_end = EOF\<rparr> cc [] wit_start = Some (None, cc', s')"
     "ss_log s' = [LAcquire ''p:5432'' 0, LReset 0] @ LRelease ''p:5432'' 0 # []" by blast
  then have "ss_log s' \<noteq> ss_log wit_start" by (simp add: wit_start_def)
  from serve_requires_proof [OF s(1) this] obtain m1 m3 rest where
    "cc_in cc = SASLInitialResponse scramMechanism m1 # SASLResponse m3 # rest" by blast
  moreover have "LAcquire ''p:5432'' 0 \<in> set (ss_log s')" using s(2) by simp
  ultimately show ?thesis using s(1) by blast
qed

text \<open>
  C8. Without routing no connection is shared dirty: in session and in transaction mode, whenever a
  session releases a connection to its pool, the step just before was a successful reset of that
  connection (\<^verbatim>\<open>DISCARD ALL\<close> between transactions, \<^verbatim>\<open>ROLLBACK\<close> and \<^verbatim>\<open>DISCARD ALL\<close> at the end).
\<close>

theorem pooled_releases_reset:
  assumes "serve cfg envs se w r cc msgs s = Some (e, cc', s')" "ss_log s = []" "\<not> session_routing cfg se"
    and "ss_log s' = pre @ LRelease a c # post"
  shows "pre \<noteq> [] \<and> last pre = LReset c"
proof -
  have s: "releases_reset s" using assms(2) by (simp add: releases_reset_def)
  have "releases_reset s'"
  proof (cases "s' = s")
    case False
    with assms(1) serve_cases [of cfg se w r cc msgs s] obtain user d u where
      "serve_user cfg (envs user d) se u cc msgs s = Some (e, cc', s')" by (metis Pair_inject option.inject)
    with s assms(3) show ?thesis
      by (auto simp: serve_user_def serve_mode_def call_acquire_def releases_reset_transaction split: prod.splits option.splits sum.splits if_splits)
  qed (use s in simp)
  then have "reset_before pre (LRelease a c)"
    unfolding releases_reset_def assms(4) by (rule every_at_split)
  then show ?thesis by (simp add: reset_before_def)
qed

theorem pooled_releases_reset_witness:
  "\<exists>cc cc' s' pre. serve wit_session_cfg (\<lambda>u d. wit_env) wit_serve_env (open_writer [])
       \<lparr>rd_data = packet_bytes [0, 3, 0, 0], rd_end = EOF\<rparr> cc [] wit_start = Some (None, cc', s') \<and>
     ss_log s' = pre @ LRelease ''p:5432'' 0 # [] \<and> last pre = LReset 0"
proof -
  from wit_serve obtain cc cc' s' where s: "serve wit_session_cfg (\<lambda>u d. wit_env) wit_serve_env (open_writer [])
       \<lparr>rd_data = packet_bytes [0, 3, 0, 0], rd_end = EOF\<rparr> cc [] wit_start = Some (None, cc', s')"
     "ss_log s' = [LAcquire ''p:5432'' 0, LReset 0] @ LRelease ''p:5432'' 0 # []" by blast
  have "ss_log wit_start = []" "\<not> session_routing wit_session_cfg wit_serve_env"
    by (simp_all add: wit_start_def session_routing_def wit_serve_env_def)
  from pooled_releases_reset [OF s(1) this s(2)] s show ?thesis by blast
qed

text \<open>
  C13. A pinned session stays on its backend. Once transaction mode has seen a query that breaks transaction
  pooling, the session sends what follows, that query included, to one connection until its end and acquires no
  other: the one it held, or, when it held none, the one it acquires for that very query; when it gets none, the
  client is rejected and the session ends. (After a switch to the extended protocol \<^verbatim>\<open>relayPooled\<close> forwards on
  that connection, which the log does not show.)
\<close>

theorem pinned_session_keeps_backend:
  assumes "BreaksTxPooling (e_parse env) (queryString full) \<noteq> None"
    and "serveTransaction_loop cfg env ((MsgQuery, full) # msgs) v s = (v', s')"
  shows "case tv_held v of
      Some c \<Rightarrow> \<exists>es. ss_log s' = ss_log s @ es \<and> only_on c es
    | None \<Rightarrow>
        (case e_acquire env (ss_t s) (c_Primary cfg) of
           Inl _ \<Rightarrow> ss_log s' = ss_log s @ [LReject ''53300''] \<and> tv_held v' = None
         | Inr c \<Rightarrow> \<exists>es. ss_log s' = ss_log s @ LAcquire (c_Primary cfg) c # es \<and> only_on c es)"
proof (cases "tv_held v")
  case (Some c)
  with pinning_loop [OF assms(1) _ assms(2)] show ?thesis by simp
next
  case None
  show ?thesis
  proof (cases "e_acquire env (ss_t s) (c_Primary cfg)")
    case (Inl x)
    with None assms(2) show ?thesis by (auto simp: tx_message_def call_acquire_def MsgQuery_def MsgTerminate_def)
  next
    case (Inr c)
    let ?s = "log_ev (LAcquire (c_Primary cfg) c) (tick s)"
    have "tx_query cfg env full c v ?s = tx_query cfg env full c (v\<lparr>tv_held := Some c\<rparr>) ?s"
      by (auto simp: tx_query_def Let_def split: prod.splits bool.splits sum.splits)
    with None Inr assms(2) have "serveTransaction_loop cfg env ((MsgQuery, full) # msgs) (v\<lparr>tv_held := Some c\<rparr>) ?s = (v', s')"
      by (simp add: tx_message_def call_acquire_def MsgQuery_def MsgTerminate_def)
    from pinning_loop [OF assms(1) _ this, of c] None Inr show ?thesis by simp
  qed
qed

theorem pinned_session_keeps_backend_witness:
  "\<exists>v' s' es. serveTransaction_loop wit_session_cfg (wit_env\<lparr>e_parse := \<lambda>sql. Inl ''syntax error''\<rparr>)
       ((MsgQuery, wit_msg (CHR ''W'')) # [(MsgQuery, wit_msg (CHR ''R''))])
       \<lparr>tv_held = None, tv_pinned = False, tv_clean = False\<rparr> wit_start = (v', s') \<and>
     ss_log s' = LAcquire ''p:5432'' 0 # es \<and> only_on 0 es"
proof -
  let ?env = "wit_env\<lparr>e_parse := \<lambda>sql. Inl ''syntax error''\<rparr>"
  let ?v = "\<lparr>tv_held = None, tv_pinned = False, tv_clean = False\<rparr>"
  obtain v' s' where l: "serveTransaction_loop wit_session_cfg ?env
      ((MsgQuery, wit_msg (CHR ''W'')) # [(MsgQuery, wit_msg (CHR ''R''))]) ?v wit_start = (v', s')"
    by (cases "serveTransaction_loop wit_session_cfg ?env
      ((MsgQuery, wit_msg (CHR ''W'')) # [(MsgQuery, wit_msg (CHR ''R''))]) ?v wit_start")
  have "BreaksTxPooling (e_parse ?env) (queryString (wit_msg (CHR ''W''))) \<noteq> None"
    by (simp add: BreaksTxPooling_def)
  from pinned_session_keeps_backend [OF this l] l show ?thesis by (simp add: wit_answers wit_ends wit_start_def)
qed

text \<open>
  An honest client gets in: whatever nonces and salt are drawn, a client that runs the other side
  of the exchange with the user's password is accepted by \<^verbatim>\<open>authenticateClient\<close>, and accepts the proxy's
  last message in turn.
\<close>

theorem authenticateClient_honest:
  assumes "NewClient pw (Some r1) = Inr cl" "cc_flushes cc = None"
    and "\<And>sv m2. NewServer pw (Some r2) (Some salt) = Inr sv \<Longrightarrow>
           fst (HandleClientFirst kdf sv (fst (FirstMessage cl))) = Inr m2 \<Longrightarrow>
           \<exists>m3. fst (HandleServerFirst kdf (snd (FirstMessage cl)) m2) = Inr m3 \<and>
                cc_in cc = SASLInitialResponse scramMechanism (fst (FirstMessage cl)) # SASLResponse m3 # rest"
  shows "\<exists>cc' m2 m4. authenticateClient kdf pw (Some r2) (Some salt) cc = (None, cc') \<and> cc_in cc' = rest \<and>
           cc_out cc' = cc_out cc @ [AuthenticationSASL [scramMechanism], AuthenticationSASLContinue m2,
             AuthenticationSASLFinal m4, AuthenticationOk] \<and>
           HandleServerFinal (snd (HandleServerFirst kdf (snd (FirstMessage cl)) m2)) m4 = None"
proof -
  obtain sv where sv: "NewServer pw (Some r2) (Some salt) = Inr sv" by (simp add: NewServer_def newNonce_def)
  from scram_honest [OF assms(1) sv, of kdf] obtain m2 s1 m3 c2 m4 where h:
    "HandleClientFirst kdf sv (fst (FirstMessage cl)) = (Inr m2, s1)"
    "HandleServerFirst kdf (snd (FirstMessage cl)) m2 = (Inr m3, c2)"
    "HandleClientFinal s1 m3 = Inr m4" "HandleServerFinal c2 m4 = None" by blast
  with assms(3) [OF sv, of m2] have
    "cc_in cc = SASLInitialResponse scramMechanism (fst (FirstMessage cl)) # SASLResponse m3 # rest" by auto
  from authenticateClient_run [OF sv h(1,3) this assms(2)] h show ?thesis by auto
qed

theorem authenticateClient_honest_witness:
  "\<exists>cc cc'. authenticateClient (\<lambda>p salt i. p) ''pw'' (Some []) (Some []) cc = (None, cc') \<and> cc_in cc' = []"
proof -
  obtain cl sv where n: "NewClient ''pw'' (Some []) = Inr cl" "NewServer ''pw'' (Some []) (Some []) = Inr sv"
    by (simp add: NewClient_def NewServer_def newNonce_def)
  from scram_honest [OF n, of "\<lambda>p salt i. p"] obtain m2 s1 m3 c2 where h:
    "HandleClientFirst (\<lambda>p salt i. p) sv (fst (FirstMessage cl)) = (Inr m2, s1)"
    "HandleServerFirst (\<lambda>p salt i. p) (snd (FirstMessage cl)) m2 = (Inr m3, c2)" by blast
  let ?cc = "\<lparr>cc_in = SASLInitialResponse scramMechanism (fst (FirstMessage cl)) # SASLResponse m3 # [], cc_out = [], cc_flushes = None\<rparr>"
  from authenticateClient_honest [OF n(1), of ?cc "[]" "[]" "\<lambda>p salt i. p" "[]"] n(2) h show ?thesis by fastforce
qed

text \<open>
  C40. \<^verbatim>\<open>relayPooled\<close> relays byte for byte, and calls the backend clean without looking at where its answers
  stand: when the client's messages \<open>fs\<close> end with \<^verbatim>\<open>Terminate\<close> while the backend's relay has forwarded
  the messages \<open>gs\<close> of what the backend sends, the result is clean whatever \<open>hs\<close> is still to come. The
  answers \<open>hs\<close> stay unread on the connection, which is then reset and released as reusable.
\<close>

theorem relayPooled_clean_regardless:
  assumes "list_all frame_ok fs" "MsgTerminate \<notin> fst ` set fs" "list_all frame_ok gs"
  shows "\<exists>tracker'. relayPooled False (Interrupted (length (frames_bytes gs))) tracker
            \<lparr>rd_data = frames_bytes fs @ frame_bytes (MsgTerminate, []), rd_end = e1\<rparr> (open_writer cout)
            \<lparr>rd_data = frames_bytes gs @ frames_bytes hs, rd_end = e2\<rparr> (open_writer bout) =
          (True, open_writer (bout @ frames_bytes fs), open_writer (cout @ frames_bytes gs), frames_bytes hs, tracker')"
  using relayFrontend_terminated [OF assms(1,2), of bout "[]" e1]
    Relay_frames [OF assms(3) trackBackend_never_fails, of tracker cout "[]" ErrDeadline]
  by (simp add: relayPooled_def Let_def Relay.simps [of _ _ _ "\<lparr>rd_data = [], rd_end = ErrDeadline\<rparr>"] read_full_def)

theorem relayPooled_clean_regardless_witness:
  "\<exists>tracker'. relayPooled False (Interrupted (length (frames_bytes []))) \<lparr>tt_status = StatusIdle, tt_seen = True\<rparr>
      \<lparr>rd_data = frames_bytes [(MsgQuery, [59, 0])] @ frame_bytes (MsgTerminate, []), rd_end = EOF\<rparr> (open_writer [])
      \<lparr>rd_data = frames_bytes [] @ frames_bytes [(MsgCommandComplete, [0]), (MsgReadyForQuery, [StatusIdle])], rd_end = EOF\<rparr> (open_writer []) =
    (True, open_writer ([] @ frames_bytes [(MsgQuery, [59, 0])]), open_writer ([] @ frames_bytes []),
     frames_bytes [(MsgCommandComplete, [0]), (MsgReadyForQuery, [StatusIdle])], tracker')"
  by (rule relayPooled_clean_regardless) (simp_all add: frame_ok_def msg_type_defs)

end
