(* ===== verification/Metrics.thy ===== *)
theory Metrics
  imports Session Manager
begin

text \<open>
  \<^verbatim>\<open>internal/metrics\<close>: the counters the proxy updates (\<^verbatim>\<open>metrics.go\<close>), the gauges of a scrape
  (\<^verbatim>\<open>state.go\<close>), and of \<^verbatim>\<open>cmd/pgpilot/main.go\<close> the \<^verbatim>\<open>stateSource\<close> that feeds them from the registry and
  the manager. The Prometheus library is not modelled: a counter is a number, a labelled counter a
  function of its labels, a histogram the observations it was given, and a scrape the list of samples
  the collector sends.
\<close>


subsection \<open>Counters\<close>

definition ReasonFenceFallback :: string where "ReasonFenceFallback = ''fence_fallback''"

record Metrics =
  m_sessionsOpened :: nat
  m_sessionsClosed :: nat
  m_sessionsActive :: int
  m_routing :: "string \<times> string \<Rightarrow> nat"
  m_fenceFallbacks :: nat
  m_readFailovers :: nat
  m_queryLatency :: "string \<Rightarrow> f64 list"

definition Metrics_New :: Metrics where
  "Metrics_New = \<lparr>m_sessionsOpened = 0, m_sessionsClosed = 0, m_sessionsActive = 0, m_routing = (\<lambda>_. 0),
                  m_fenceFallbacks = 0, m_readFailovers = 0, m_queryLatency = (\<lambda>_. [])\<rparr>"

definition SessionOpened :: "Metrics \<Rightarrow> Metrics" where
  "SessionOpened m = m\<lparr>m_sessionsOpened := m_sessionsOpened m + 1, m_sessionsActive := m_sessionsActive m + 1\<rparr>"

definition SessionClosed :: "Metrics \<Rightarrow> Metrics" where
  "SessionClosed m = m\<lparr>m_sessionsClosed := m_sessionsClosed m + 1, m_sessionsActive := m_sessionsActive m - 1\<rparr>"

definition RoutingDecision :: "string \<Rightarrow> string \<Rightarrow> Metrics \<Rightarrow> Metrics" where
  "RoutingDecision target reason m = m\<lparr>m_routing := (m_routing m)((target, reason) := m_routing m (target, reason) + 1)\<rparr>"

definition FenceFallback :: "Metrics \<Rightarrow> Metrics" where
  "FenceFallback m = RoutingDecision TargetPrimary ReasonFenceFallback (m\<lparr>m_fenceFallbacks := m_fenceFallbacks m + 1\<rparr>)"

definition ReadFailover :: "Metrics \<Rightarrow> Metrics" where
  "ReadFailover m = m\<lparr>m_readFailovers := m_readFailovers m + 1\<rparr>"

definition ObserveQueryLatency :: "string \<Rightarrow> f64 \<Rightarrow> Metrics \<Rightarrow> Metrics" where
  "ObserveQueryLatency target seconds m =
     m\<lparr>m_queryLatency := (m_queryLatency m)(target := m_queryLatency m target @ [seconds])\<rparr>"

text \<open>What a session's log adds to the metrics; \<open>Seconds\<close> is \<^verbatim>\<open>Duration.Seconds\<close>.\<close>

definition Seconds :: "int \<Rightarrow> f64" where
  "Seconds d =
     f64_add (f64_of_int (if 0 \<le> d then d div 10 ^ 9 else - ((- d) div 10 ^ 9)))
             (f64_div (f64_of_int (if 0 \<le> d then d mod 10 ^ 9 else - ((- d) mod 10 ^ 9))) (f64_of_int (10 ^ 9)))"

fun record_event :: "session_event \<Rightarrow> Metrics \<Rightarrow> Metrics" where
  "record_event (LRouting target reason) m = RoutingDecision target reason m"
| "record_event LFenceFallback m = FenceFallback m"
| "record_event LReadFailover m = ReadFailover m"
| "record_event (LLatency target d) m = ObserveQueryLatency target (Seconds d) m"
| "record_event _ m = m"

definition record_log :: "session_event list \<Rightarrow> Metrics \<Rightarrow> Metrics" where
  "record_log es m = foldl (\<lambda>m e. record_event e m) m es"


subsection \<open>A scrape\<close>

record BackendStat =
  bk_Addr :: address
  bk_Role :: string
  bk_Healthy :: bool
  bk_LagBytes :: int
  bk_LagSeconds :: f64

text \<open>A sample is the name of its metric, its label values and its value.\<close>

record sample =
  sa_name :: string
  sa_labels :: "string list"
  sa_value :: f64

text \<open>A descriptor is the name of a metric and its label names; \<^verbatim>\<open>newStateCollector\<close> makes five.\<close>

record stateCollector =
  de_healthy :: "string \<times> string list"
  de_lagBytes :: "string \<times> string list"
  de_lagSeconds :: "string \<times> string list"
  de_poolConns :: "string \<times> string list"
  de_poolWaiters :: "string \<times> string list"

definition newStateCollector :: stateCollector where
  "newStateCollector =
     \<lparr>de_healthy = (''pgpilot_backend_healthy'', [''backend'', ''role'']),
      de_lagBytes = (''pgpilot_backend_lag_bytes'', [''backend'']),
      de_lagSeconds = (''pgpilot_backend_lag_seconds'', [''backend'']),
      de_poolConns = (''pgpilot_pool_connections'', [''backend'', ''state'']),
      de_poolWaiters = (''pgpilot_pool_waiters'', [''backend''])\<rparr>"

definition Describe :: "stateCollector \<Rightarrow> (string \<times> string list) list" where
  "Describe c = [de_healthy c, de_lagBytes c, de_lagSeconds c, de_poolConns c, de_poolWaiters c]"

definition collect_backend :: "stateCollector \<Rightarrow> BackendStat \<Rightarrow> sample list" where
  "collect_backend c b =
     [\<lparr>sa_name = fst (de_healthy c), sa_labels = [bk_Addr b, bk_Role b],
       sa_value = (if bk_Healthy b then f64_of_int 1 else f64_of_int 0)\<rparr>,
      \<lparr>sa_name = fst (de_lagBytes c), sa_labels = [bk_Addr b], sa_value = f64_of_int (bk_LagBytes b)\<rparr>,
      \<lparr>sa_name = fst (de_lagSeconds c), sa_labels = [bk_Addr b], sa_value = bk_LagSeconds b\<rparr>]"

definition collect_pool :: "stateCollector \<Rightarrow> PoolStat \<Rightarrow> sample list" where
  "collect_pool c p =
     [\<lparr>sa_name = fst (de_poolConns c), sa_labels = [ps_Addr p, ''idle''], sa_value = f64_of_int (ps_Idle p)\<rparr>,
      \<lparr>sa_name = fst (de_poolConns c), sa_labels = [ps_Addr p, ''in_use''], sa_value = f64_of_int (ps_InUse p)\<rparr>,
      \<lparr>sa_name = fst (de_poolWaiters c), sa_labels = [ps_Addr p], sa_value = f64_of_int (ps_Waiters p)\<rparr>]"

definition Collect_samples :: "stateCollector \<Rightarrow> BackendStat list \<Rightarrow> PoolStat list \<Rightarrow> sample list" where
  "Collect_samples c bs ps = concat (map (collect_backend c) bs) @ concat (map (collect_pool c) ps)"

definition BackendStats :: "Status list \<Rightarrow> BackendStat list" where
  "BackendStats snap =
     map (\<lambda>st. \<lparr>bk_Addr = s_Addr st, bk_Role = Role_String (s_Role st), bk_Healthy = s_Healthy st,
                bk_LagBytes = s_LagBytes st, bk_LagSeconds = s_LagSeconds st\<rparr>) snap"

text \<open>\<^verbatim>\<open>PoolStats\<close>, in the order in which \<^verbatim>\<open>StatsByAddr\<close> happens to list the addresses.\<close>

definition PoolStats :: "(address \<rightharpoonup> PoolStat) \<Rightarrow> address list \<Rightarrow> PoolStat list" where
  "PoolStats stats addrs = map (\<lambda>a. the (stats a)) addrs"


subsection \<open>Lemmas\<close>

definition series :: "sample \<Rightarrow> string \<times> string list" where
  "series s = (sa_name s, sa_labels s)"

lemma series_backends:
  "map series (concat (map (collect_backend newStateCollector) bs)) =
     concat (map (\<lambda>b. [(''pgpilot_backend_healthy'', [bk_Addr b, bk_Role b]), (''pgpilot_backend_lag_bytes'', [bk_Addr b]),
       (''pgpilot_backend_lag_seconds'', [bk_Addr b])]) bs)"
  by (induction bs) (simp_all add: collect_backend_def series_def newStateCollector_def)

lemma series_pools:
  "map series (concat (map (collect_pool newStateCollector) ps)) =
     concat (map (\<lambda>p. [(''pgpilot_pool_connections'', [ps_Addr p, ''idle'']), (''pgpilot_pool_connections'', [ps_Addr p, ''in_use'']),
       (''pgpilot_pool_waiters'', [ps_Addr p])]) ps)"
  by (induction ps) (simp_all add: collect_pool_def series_def newStateCollector_def)

lemma distinct_backend_series:
  "distinct (map series (concat (map (collect_backend newStateCollector) bs))) \<longleftrightarrow> distinct (map bk_Addr bs)"
  unfolding series_backends by (induction bs) auto

lemma distinct_pool_series:
  "distinct (map series (concat (map (collect_pool newStateCollector) ps))) \<longleftrightarrow> distinct (map ps_Addr ps)"
  unfolding series_pools by (induction ps) auto

lemma distinct_series:
  "distinct (map series (Collect_samples newStateCollector bs ps)) \<longleftrightarrow> distinct (map bk_Addr bs) \<and> distinct (map ps_Addr ps)"
proof -
  have "set (map series (concat (map (collect_backend newStateCollector) bs))) \<inter> set (map series (concat (map (collect_pool newStateCollector) ps))) = {}"
    unfolding series_backends series_pools by auto
  then show ?thesis
    using distinct_backend_series [of bs] distinct_pool_series [of ps]
    by (simp only: Collect_samples_def map_append distinct_append) simp
qed

lemma collect_described:
  "list_all (\<lambda>sa. \<exists>labels. (sa_name sa, labels) \<in> set (Describe newStateCollector) \<and> length labels = length (sa_labels sa))
     (Collect_samples newStateCollector bs ps)"
  by (auto simp: list_all_iff Collect_samples_def collect_backend_def collect_pool_def Describe_def newStateCollector_def)

lemma StatsByAddr_Addr: "StatsByAddr snap a = Some p \<Longrightarrow> ps_Addr p = a"
  by (auto simp: StatsByAddr_def foldl_stat_add addr_stat_def split: if_splits)


text \<open>What recording a log adds to each counter.\<close>

fun ev_fallback :: "session_event \<Rightarrow> nat" where
  "ev_fallback LFenceFallback = 1"
| "ev_fallback _ = 0"

fun ev_latency :: "string \<Rightarrow> session_event \<Rightarrow> f64 list" where
  "ev_latency target (LLatency t d) = (if t = target then [Seconds d] else [])"
| "ev_latency target _ = []"

lemma record_event_simps:
  "m_fenceFallbacks (record_event e m) = m_fenceFallbacks m + ev_fallback e"
  "m_queryLatency (record_event e m) target = m_queryLatency m target @ ev_latency target e"
  "m_sessionsActive (record_event e m) = m_sessionsActive m"
  "m_routing (record_event e m) k = m_routing m k + (case e of LRouting t r \<Rightarrow> of_bool (k = (t, r))
      | LFenceFallback \<Rightarrow> of_bool (k = (TargetPrimary, ReasonFenceFallback)) | _ \<Rightarrow> 0)"
  by (cases e; auto simp: RoutingDecision_def FenceFallback_def ReadFailover_def ObserveQueryLatency_def)+

lemma record_log_counts:
  "m_fenceFallbacks (record_log es m) = m_fenceFallbacks m + tally ev_fallback es \<and>
   m_routing (record_log es m) k = m_routing m k + tally (\<lambda>e. case e of LRouting t r \<Rightarrow> of_bool (k = (t, r))
      | LFenceFallback \<Rightarrow> of_bool (k = (TargetPrimary, ReasonFenceFallback)) | _ \<Rightarrow> 0) es \<and>
   m_queryLatency (record_log es m) target = m_queryLatency m target @ concat (map (ev_latency target) es) \<and>
   m_sessionsActive (record_log es m) = m_sessionsActive m"
  unfolding record_log_def
  by (induction es arbitrary: m) (simp_all add: record_event_simps ac_simps)


subsection \<open>Properties\<close>

text \<open>
  C23. A scrape is consistent exactly when no backend is configured twice: for a snapshot of the registry
  and the pools of the manager (each address listed once), no two samples have the same name and labels,
  which Prometheus rejects, if and only if the addresses of the snapshot are distinct. Every sample is one
  of a metric that \<^verbatim>\<open>Describe\<close> has announced, with a value for each of its labels.
\<close>

theorem scrape_unique_iff:
  assumes "distinct addrs" "set addrs = dom (StatsByAddr snap)"
  shows "(distinct (map series (Collect_samples newStateCollector (BackendStats sts) (PoolStats (StatsByAddr snap) addrs))) \<longleftrightarrow>
          distinct (map s_Addr sts)) \<and>
         list_all (\<lambda>sa. \<exists>labels. (sa_name sa, labels) \<in> set (Describe newStateCollector) \<and> length labels = length (sa_labels sa))
           (Collect_samples newStateCollector (BackendStats sts) (PoolStats (StatsByAddr snap) addrs))"
proof -
  have "ps_Addr (the (StatsByAddr snap a)) = a" if "a \<in> set addrs" for a
    using that assms(2) StatsByAddr_Addr [of snap a] by auto
  then have "map ps_Addr (PoolStats (StatsByAddr snap) addrs) = addrs"
    by (simp add: PoolStats_def comp_def map_idI)
  with assms(1) show ?thesis by (simp add: distinct_series collect_described BackendStats_def comp_def)
qed

theorem scrape_unique_iff_witness:
  "\<not> distinct (map series (Collect_samples newStateCollector (BackendStats [wit_replica, wit_replica]) (PoolStats (StatsByAddr []) [])))"
  using scrape_unique_iff [of "[]" "[]" "[wit_replica, wit_replica]", THEN conjunct1] by (simp add: StatsByAddr_def)

end
