(* ===== verification/Utf8.thy ===== *)
theory Utf8
  imports Prelude
begin

text \<open>
  UTF-8 as Go's package \<^verbatim>\<open>unicode/utf8\<close> reads and writes it: the runes of a text and the bytes of a code point.
\<close>

text \<open>
  The number of bytes of the first rune of a text, one for a byte that starts none, and the number of runes.
\<close>

definition in_range :: "nat \<Rightarrow> nat \<Rightarrow> string \<Rightarrow> nat \<Rightarrow> bool" where
  "in_range lo hi s i \<longleftrightarrow> i < length s \<and> lo \<le> of_char (s ! i) \<and> of_char (s ! i) \<le> hi"

definition rune2 :: "string \<Rightarrow> bool" where
  "rune2 s \<longleftrightarrow> in_range 0xC2 0xDF s 0 \<and> in_range 0x80 0xBF s 1"

definition rune3 :: "string \<Rightarrow> bool" where
  "rune3 s \<longleftrightarrow>
     (in_range 0xE0 0xE0 s 0 \<and> in_range 0xA0 0xBF s 1 \<or> in_range 0xED 0xED s 0 \<and> in_range 0x80 0x9F s 1 \<or>
      (in_range 0xE1 0xEC s 0 \<or> in_range 0xEE 0xEF s 0) \<and> in_range 0x80 0xBF s 1) \<and> in_range 0x80 0xBF s 2"

definition rune4 :: "string \<Rightarrow> bool" where
  "rune4 s \<longleftrightarrow>
     (in_range 0xF0 0xF0 s 0 \<and> in_range 0x90 0xBF s 1 \<or> in_range 0xF4 0xF4 s 0 \<and> in_range 0x80 0x8F s 1 \<or>
      in_range 0xF1 0xF3 s 0 \<and> in_range 0x80 0xBF s 1) \<and> in_range 0x80 0xBF s 2 \<and> in_range 0x80 0xBF s 3"

definition rune_size :: "string \<Rightarrow> nat" where
  "rune_size s = (if rune2 s then 2 else if rune3 s then 3 else if rune4 s then 4 else 1)"

lemma rune_size_pos: "0 < rune_size s"
  by (simp add: rune_size_def)

function rune_count :: "string \<Rightarrow> nat" where
  "rune_count s = (if s = [] then 0 else Suc (rune_count (drop (rune_size s) s)))"
  by pat_completeness auto
termination
  by (relation "measure length") (auto simp: rune_size_pos)

declare rune_count.simps [simp del]

definition utf8_encode :: "nat \<Rightarrow> string" where
  "utf8_encode r =
     map char_of
       (if r < 0x80 then [r]
        else if r < 0x800 then [0xC0 + r div 64, 0x80 + r mod 64]
        else if r < 0x10000 then [0xE0 + r div 4096, 0x80 + r div 64 mod 64, 0x80 + r mod 64]
        else [0xF0 + r div 262144, 0x80 + r div 4096 mod 64, 0x80 + r div 64 mod 64, 0x80 + r mod 64])"

text \<open>The bytes of the replacement character U+FFFD.\<close>

definition replacement :: string where
  "replacement = [CHR 0xEF, CHR 0xBF, CHR 0xBD]"

lemma rune_size_ascii: "(of_char c :: nat) < 0x80 \<Longrightarrow> rune_size (c # s) = 1"
  by (simp add: rune_size_def rune2_def rune3_def rune4_def in_range_def)

text \<open>Texts that are made of runes.\<close>

function valid_utf8 :: "string \<Rightarrow> bool" where
  "valid_utf8 s =
     (if s = [] then True
      else ((of_char (hd s) :: nat) < 0x80 \<or> 2 \<le> rune_size s) \<and> valid_utf8 (drop (rune_size s) s))"
  by pat_completeness auto
termination
  by (relation "measure length") (auto simp: rune_size_pos)

declare valid_utf8.simps [simp del]

lemma valid_utf8_Nil [simp]: "valid_utf8 []"
  by (simp add: valid_utf8.simps)

lemma valid_utf8_ascii: "(of_char c :: nat) < 0x80 \<Longrightarrow> valid_utf8 (c # s) = valid_utf8 s"
  by (subst valid_utf8.simps) (simp add: rune_size_ascii)

lemma rune_ranges:
  "rune2 s \<Longrightarrow> in_range 0x80 0xFF s 0 \<and> in_range 0x80 0xFF s 1"
  "rune3 s \<Longrightarrow> in_range 0x80 0xFF s 0 \<and> in_range 0x80 0xFF s 1 \<and> in_range 0x80 0xFF s 2"
  "rune4 s \<Longrightarrow> in_range 0x80 0xFF s 0 \<and> in_range 0x80 0xFF s 1 \<and> in_range 0x80 0xFF s 2 \<and> in_range 0x80 0xFF s 3"
  by (auto simp: rune2_def rune3_def rune4_def in_range_def)

lemma rune_bytes_high:
  assumes "2 \<le> rune_size s" "i < rune_size s"
  shows "in_range 0x80 0xFF s i"
proof -
  have "i = 0 \<or> i = 1 \<or> i = 2 \<or> i = 3" using assms(2) by (auto simp: rune_size_def split: if_splits)
  with assms rune_ranges [of s] show ?thesis by (auto simp: rune_size_def split: if_splits)
qed

lemma rune_size_cong:
  assumes "\<And>lo hi i. i < rune_size s \<Longrightarrow> in_range lo hi t i = in_range lo hi s i" "2 \<le> rune_size s"
  shows "rune_size t = rune_size s"
proof -
  consider "rune2 s" | "\<not> rune2 s" "rune3 s" | "\<not> rune2 s" "\<not> rune3 s" "rune4 s"
    using assms(2) by (auto simp: rune_size_def split: if_splits)
  then show ?thesis
  proof cases
    case 1
    with assms(1) have "rune2 t" by (simp add: rune2_def rune_size_def)
    with 1 show ?thesis by (simp add: rune_size_def)
  next
    case 2
    with assms(1) have "rune2 t = rune2 s" "rune3 t = rune3 s" by (simp_all add: rune2_def rune3_def rune_size_def)
    with 2 show ?thesis by (simp add: rune_size_def)
  next
    case 3
    then have "rune_size s = 4" by (simp add: rune_size_def)
    with assms(1) have "rune2 t = rune2 s" "rune3 t = rune3 s" "rune4 t = rune4 s"
      by (simp_all only: rune2_def rune3_def rune4_def)
    with 3 show ?thesis by (simp add: rune_size_def)
  qed
qed

lemma rune_bytes:
  assumes "2 \<le> rune_size s"
  shows "rune_size s \<le> length s" "rune_size (take (rune_size s) s @ x) = rune_size s" "rune_size (s @ x) = rune_size s"
    "c \<in> set (take (rune_size s) s) \<Longrightarrow> 0x80 \<le> (of_char c :: nat)"
proof -
  show l: "rune_size s \<le> length s"
    using rune_bytes_high [OF assms, of "rune_size s - 1"] assms unfolding in_range_def by linarith
  show "rune_size (take (rune_size s) s @ x) = rune_size s" "rune_size (s @ x) = rune_size s"
    using l by (auto intro!: rune_size_cong assms simp: in_range_def nth_append)
  show "c \<in> set (take (rune_size s) s) \<Longrightarrow> 0x80 \<le> (of_char c :: nat)"
    using rune_bytes_high [OF assms] l by (auto simp: in_set_conv_nth in_range_def)
qed

lemma valid_utf8_append: "valid_utf8 s \<Longrightarrow> valid_utf8 t \<Longrightarrow> valid_utf8 (s @ t)"
proof (induction s rule: valid_utf8.induct)
  case (1 s)
  show ?case
  proof (cases "s = []")
    case False
    with 1(2) have v: "(of_char (hd s) :: nat) < 0x80 \<or> 2 \<le> rune_size s" "valid_utf8 (drop (rune_size s) s)"
      by (simp_all add: valid_utf8.simps [of s])
    have r: "rune_size (s @ t) = rune_size s" "rune_size s \<le> length s"
      using v(1) False rune_bytes(1,3) [of s] by (cases s; force simp: rune_size_ascii)+
    show ?thesis
      using 1(1) v 1(3) r False by (subst valid_utf8.simps) simp
  qed (use 1 in simp)
qed

lemma valid_utf8_digits: "list_all (\<lambda>c. (of_char c :: nat) < 0x80) s \<Longrightarrow> valid_utf8 s"
  by (induction s) (simp_all add: valid_utf8_ascii)

end
