(* ===== verification/GoFlag.thy ===== *)
theory GoFlag
  imports GoDuration
begin

text \<open>
  Of Go's standard library what the three commands read their command line with: \<^verbatim>\<open>FlagSet.Parse\<close> of the
  package \<^verbatim>\<open>flag\<close>, the values \<^verbatim>\<open>strconv.ParseBool\<close> and \<^verbatim>\<open>strconv.ParseInt\<close> with base 0, and \<^verbatim>\<open>UnmarshalText\<close> of a log level
  in \<^verbatim>\<open>log/slog\<close>. The lemmas say how a flag that is written in one of the forms the package documents is read.
\<close>


subsection \<open>Values\<close>

definition ParseBool :: "string \<Rightarrow> bool option" where
  "ParseBool s =
     (if s \<in> {''1'', ''t'', ''T'', ''true'', ''TRUE'', ''True''} then Some True
      else if s \<in> {''0'', ''f'', ''F'', ''false'', ''FALSE'', ''False''} then Some False
      else None)"

text \<open>
  \<^verbatim>\<open>strconv.ParseUint\<close> with base 0: the base is in the prefix, and underscores may separate the digits. The
  loop gives \<open>None\<close> at the first character that is no digit of the base; the bound is checked at the end, since
  a number out of range is an error like a wrong character.
\<close>

fun uint_digits :: "nat \<Rightarrow> nat \<Rightarrow> string \<Rightarrow> nat option" where
  "uint_digits base n [] = Some n"
| "uint_digits base n (c # cs) =
     (let l = lower_char c;
          d = (if is_digit c then Some (digit_nat c)
               else if 97 \<le> (of_char l :: nat) \<and> (of_char l :: nat) \<le> 122 then Some (of_char l - 87)
               else None)
      in if c = CHR ''_'' then uint_digits base n cs
         else case d of
                None \<Rightarrow> None
              | Some v \<Rightarrow> if base \<le> v then None else uint_digits base (n * base + v) cs)"

definition ParseUint0 :: "string \<Rightarrow> nat option" where
  "ParseUint0 s =
     (let base_text =
            (if hd s \<noteq> CHR ''0'' then (10, s)
             else if 3 \<le> length s \<and> lower_char (s ! 1) = CHR ''b'' then (2, drop 2 s)
             else if 3 \<le> length s \<and> lower_char (s ! 1) = CHR ''o'' then (8, drop 2 s)
             else if 3 \<le> length s \<and> lower_char (s ! 1) = CHR ''x'' then (16, drop 2 s)
             else (8, drop 1 s))
      in if s = [] \<or> CHR ''_'' \<in> set s \<and> \<not> underscoreOK s then None
         else case uint_digits (fst base_text) 0 (snd base_text) of
                None \<Rightarrow> None
              | Some n \<Rightarrow> if n < 2 ^ 64 then Some n else None)"

text \<open>\<^verbatim>\<open>strconv.ParseInt(s, 0, 64)\<close>.\<close>

definition ParseInt0 :: "string \<Rightarrow> int option" where
  "ParseInt0 s =
     (case ParseUint0 (drop_sign s) of
        None \<Rightarrow> None
      | Some n \<Rightarrow>
          if take 1 s = ''-'' then (if n \<le> 2 ^ 63 then Some (- int n) else None)
          else (if n < 2 ^ 63 then Some (int n) else None))"


subsection \<open>Flags\<close>

text \<open>
  A flag set maps the name of a flag to whether it is a boolean flag and to the effect of \<^verbatim>\<open>Value.Set\<close> on the
  options \<open>'o\<close>, \<open>None\<close> being its error.
\<close>

type_synonym 'o flag_set = "string \<rightharpoonup> bool \<times> (string \<Rightarrow> 'o \<Rightarrow> 'o option)"

datatype flag_err =
  FlagHelp | FlagSyntax string | FlagUndefined string | FlagMissing string | FlagInvalid string string

text \<open>How \<^verbatim>\<open>parseOne\<close> reads an argument: not a flag, the terminator, malformed, or a name and perhaps a value.\<close>

datatype arg_kind = ArgStop | ArgEnd | ArgBad | ArgFlag string "string option"

definition read_arg :: "string \<Rightarrow> arg_kind" where
  "read_arg s =
     (if length s < 2 \<or> hd s \<noteq> CHR ''-'' then ArgStop
      else if s = ''--'' then ArgEnd
      else let name = drop (if s ! 1 = CHR ''-'' then 2 else 1) s;
               key = takeWhile (\<lambda>c. c \<noteq> CHR ''='') name
           in if name = [] \<or> hd name = CHR ''-'' \<or> hd name = CHR ''='' then ArgBad
              else if key = name then ArgFlag name None
              else ArgFlag key (Some (drop (length key + 1) name)))"

fun flag_parse :: "'o flag_set \<Rightarrow> string list \<Rightarrow> 'o \<Rightarrow> flag_err + 'o \<times> string list" where
  "flag_parse fs [] opts = Inr (opts, [])"
| "flag_parse fs (s # args) opts =
     (case read_arg s of
        ArgStop \<Rightarrow> Inr (opts, s # args)
      | ArgEnd \<Rightarrow> Inr (opts, args)
      | ArgBad \<Rightarrow> Inl (FlagSyntax s)
      | ArgFlag name given \<Rightarrow>
          (case fs name of
             None \<Rightarrow> Inl (if name = ''help'' \<or> name = ''h'' then FlagHelp else FlagUndefined name)
           | Some (isBool, set_value) \<Rightarrow>
               if isBool then
                 (let v = (case given of None \<Rightarrow> ''true'' | Some v \<Rightarrow> v)
                  in case set_value v opts of
                       None \<Rightarrow> Inl (FlagInvalid v name)
                     | Some opts' \<Rightarrow> flag_parse fs args opts')
               else
                 (case given of
                    Some v \<Rightarrow>
                      (case set_value v opts of
                         None \<Rightarrow> Inl (FlagInvalid v name)
                       | Some opts' \<Rightarrow> flag_parse fs args opts')
                  | None \<Rightarrow>
                      (case args of
                         [] \<Rightarrow> Inl (FlagMissing name)
                       | v # args' \<Rightarrow>
                           (case set_value v opts of
                              None \<Rightarrow> Inl (FlagInvalid v name)
                            | Some opts' \<Rightarrow> flag_parse fs args' opts')))))"

declare flag_parse.simps(2) [simp del]


subsection \<open>Log levels\<close>

text \<open>
  \<^verbatim>\<open>strings.ToUpper\<close> as far as a comparison with an ASCII word can tell: besides the ASCII letters, U+0131 (bytes C4 B1)
  has the upper case I and U+017F (bytes C5 BF) the upper case S.
\<close>

definition upper_char :: "char \<Rightarrow> char" where
  "upper_char c =
     (let n = of_char c :: nat in if 97 \<le> n \<and> n \<le> 122 then char_of (n - 32) else c)"

fun str_to_upper :: "string \<Rightarrow> string" where
  "str_to_upper [] = []"
| "str_to_upper (c # cs) =
     (if c = CHR 0xC4 \<and> take 1 cs = [CHR 0xB1] then CHR ''I'' # str_to_upper (drop 1 cs)
      else if c = CHR 0xC5 \<and> take 1 cs = [CHR 0xBF] then CHR ''S'' # str_to_upper (drop 1 cs)
      else upper_char c # str_to_upper cs)"

text \<open>\<^verbatim>\<open>Level.UnmarshalText\<close>: a name and perhaps an offset; the sum wraps at 64 bits.\<close>

definition Level_UnmarshalText :: "string \<Rightarrow> int option" where
  "Level_UnmarshalText s =
     (let name = takeWhile (\<lambda>c. c \<noteq> CHR ''+'' \<and> c \<noteq> CHR ''-'') s;
          offset = (if name = s then Some 0 else Atoi (drop (length name) s));
          base = map_of [(''DEBUG'', -4), (''INFO'', 0), (''WARN'', 4), (''ERROR'', 8)] (str_to_upper name)
      in case (offset, base) of
           (Some k, Some l) \<Rightarrow> Some (signed_take_bit 63 (l + k))
         | _ \<Rightarrow> None)"


subsection \<open>Reading what was written\<close>

definition plain_name :: "string \<Rightarrow> bool" where
  "plain_name n \<longleftrightarrow> n \<noteq> [] \<and> hd n \<noteq> CHR ''-'' \<and> CHR ''='' \<notin> set n"

definition flag_arg :: "string \<Rightarrow> string \<Rightarrow> string" where
  "flag_arg n v = ''-'' @ n @ ''='' @ v"

lemma plain_key: "plain_name n \<Longrightarrow> takeWhile (\<lambda>c. c \<noteq> CHR ''='') (n @ CHR ''='' # v) = n"
  by (subst takeWhile_append2) (auto simp: plain_name_def)

lemma plain_key_only: "plain_name n \<Longrightarrow> takeWhile (\<lambda>c. c \<noteq> CHR ''='') n = n"
  by (auto simp: plain_name_def takeWhile_eq_all_conv)

lemma read_flag_arg: "plain_name n \<Longrightarrow> read_arg (flag_arg n v) = ArgFlag n (Some v)"
  using plain_key [of n v] by (cases n) (auto simp: read_arg_def flag_arg_def plain_name_def Let_def)

lemma read_flag_name: "plain_name n \<Longrightarrow> read_arg (CHR ''-'' # n) = ArgFlag n None"
  using plain_key_only [of n] by (cases n) (auto simp: read_arg_def plain_name_def Let_def)

lemma flag_parse_arg:
  assumes "plain_name n" "fs n = Some (b, set_value)"
  shows "flag_parse fs (flag_arg n v # args) opts =
     (case set_value v opts of None \<Rightarrow> Inl (FlagInvalid v n) | Some opts' \<Rightarrow> flag_parse fs args opts')"
  by (simp add: flag_parse.simps(2) read_flag_arg [OF assms(1)] assms(2))

lemma flag_parse_next:
  assumes "plain_name n" "fs n = Some (False, set_value)"
  shows "flag_parse fs ((CHR ''-'' # n) # v # args) opts = flag_parse fs (flag_arg n v # args) opts"
  using assms by (simp add: flag_parse.simps(2) read_flag_name read_flag_arg Let_def)

lemma flag_parse_switch:
  assumes "plain_name n" "fs n = Some (True, set_value)"
  shows "flag_parse fs ((CHR ''-'' # n) # args) opts = flag_parse fs (flag_arg n ''true'' # args) opts"
  using assms by (simp add: flag_parse.simps(2) read_flag_name read_flag_arg Let_def split: option.split)

text \<open>A list of assignments in the form \<^verbatim>\<open>-name=value\<close> has the effect of setting one after the other.\<close>

fun set_flags :: "'o flag_set \<Rightarrow> (string \<times> string) list \<Rightarrow> 'o \<Rightarrow> 'o option" where
  "set_flags fs [] opts = Some opts"
| "set_flags fs ((n, v) # nvs) opts =
     (case fs n of
        None \<Rightarrow> None
      | Some (_, set_value) \<Rightarrow>
          (case set_value v opts of None \<Rightarrow> None | Some opts' \<Rightarrow> set_flags fs nvs opts'))"

lemma flag_parse_written:
  "set_flags fs nvs opts = Some opts' \<Longrightarrow> list_all (plain_name \<circ> fst) nvs \<Longrightarrow>
   flag_parse fs (map (\<lambda>(n, v). flag_arg n v) nvs @ rest) opts = flag_parse fs rest opts'"
  by (induction fs nvs opts rule: set_flags.induct) (auto simp: flag_parse_arg split: option.splits prod.splits)

text \<open>A decimal number as \<^verbatim>\<open>strconv.Itoa\<close> prints it has no prefix that would change its base.\<close>

lemma uint_digits_dec: "list_all is_digit ds \<Longrightarrow> uint_digits 10 n ds = Some (dec_val n ds)"
  by (induction ds arbitrary: n) (auto simp: is_digit_def digit_nat_def Let_def)

lemma Itoa_nat_head: "0 < n \<Longrightarrow> hd (Itoa_nat n) \<noteq> CHR ''0''"
proof (induction n rule: Itoa_nat.induct)
  case (1 n)
  show ?case
  proof (cases "n < 10")
    case True
    have "(of_char (char_of (48 + n) :: char) :: nat) = 48 + n" using True by simp
    moreover have "(of_char (CHR ''0'') :: nat) = 48" by simp
    ultimately have "char_of (48 + n) \<noteq> CHR ''0''" using 1(2) by (metis add_eq_self_zero less_irrefl)
    with True show ?thesis by (simp add: Itoa_nat.simps [of n])
  next
    case False
    with 1 show ?thesis using Itoa_nat_not_Nil [of "n div 10"] by (simp add: Itoa_nat.simps [of n])
  qed
qed

lemma ParseUint0_Itoa:
  assumes "n < 2 ^ 64"
  shows "ParseUint0 (Itoa_nat n) = Some n"
proof -
  note d = Itoa_nat_dec [of n]
  have us: "CHR ''_'' \<notin> set (Itoa_nat n)" using d(1) by (auto simp: list_all_iff is_digit_def)
  have z: "Itoa_nat 0 = ''0''" by (simp add: Itoa_nat.simps char_of_def bit_0)
  show ?thesis
    using us Itoa_nat_not_Nil [of n] Itoa_nat_head [of n] uint_digits_dec [OF d(1), of 0] d(2) assms z
    by (cases "n = 0") (auto simp: ParseUint0_def)
qed

lemma ParseInt0_Itoa:
  assumes "- (2 ^ 63) \<le> i" "i < 2 ^ 63"
  shows "ParseInt0 (Itoa i) = Some i"
proof -
  let ?n = "nat \<bar>i\<bar>"
  have p: "ParseUint0 (Itoa_nat ?n) = Some ?n" using assms by (intro ParseUint0_Itoa) auto
  obtain c cs where c: "Itoa_nat ?n = c # cs" using Itoa_nat_not_Nil by (cases "Itoa_nat ?n") auto
  have "is_digit c" using Itoa_nat_dec(1) [of ?n] c by simp
  then have "c \<noteq> CHR ''-''" "c \<noteq> CHR ''+''" by (auto simp: is_digit_def)
  with p c assms show ?thesis by (auto simp: ParseInt0_def Itoa_def drop_sign_def)
qed

end
