(* ===== verification/GoJSON.thy ===== *)
theory GoJSON
  imports Utf8 GoFlag
begin

text \<open>
  Reading JSON text as \<^verbatim>\<open>encoding/json\<close> does: a scanner that gives tokens, the unquoting of strings, and a parser that keeps
  the open arrays and objects on a stack and stops at the end of the first value, with the library's limit on
  nesting. The theory shows that every value is read back from its text.
\<close>


subsection \<open>Tokens\<close>

datatype token =
  TOpen bool | TClose bool | TComma | TColon | TStr string | TNum string | TBool bool | TNull | TErr

text \<open>
  The body of a string up to its closing quote: an escape is one of the letters or four hexadecimal digits, a
  control character is an error. The state counts the hexadecimal digits that are due.
\<close>

datatype str_state = SNormal | SEsc | SHex nat

fun scan_string :: "str_state \<Rightarrow> string \<Rightarrow> (string \<times> string) option" where
  "scan_string st [] = None"
| "scan_string SNormal (c # cs) =
     (if c = CHR 0x22 then Some ([], cs)
      else if c = CHR 0x5C then map_option (apfst ((#) c)) (scan_string SEsc cs)
      else if (of_char c :: nat) < 0x20 then None
      else map_option (apfst ((#) c)) (scan_string SNormal cs))"
| "scan_string SEsc (c # cs) =
     (if c \<in> {CHR ''b'', CHR ''f'', CHR ''n'', CHR ''r'', CHR ''t'', CHR 0x5C, CHR ''/'', CHR 0x22}
      then map_option (apfst ((#) c)) (scan_string SNormal cs)
      else if c = CHR ''u'' then map_option (apfst ((#) c)) (scan_string (SHex 3) cs)
      else None)"
| "scan_string (SHex n) (c # cs) =
     (if is_hex_digit c
      then map_option (apfst ((#) c)) (scan_string (if n = 0 then SNormal else SHex (n - 1)) cs)
      else None)"

text \<open>\<^verbatim>\<open>unquoteBytes\<close> on such a body.\<close>

definition hex4 :: "string \<Rightarrow> nat" where
  "hex4 s = nat (foldl (\<lambda>n c. n * 16 + digit_val c) 0 (take 4 s))"

definition is_u_escape :: "string \<Rightarrow> bool" where
  "is_u_escape s \<longleftrightarrow> 6 \<le> length s \<and> take 2 s = [CHR 0x5C, CHR ''u'']"

definition unescape :: "char \<Rightarrow> char" where
  "unescape c =
     (if c = CHR ''b'' then CHR 0x08 else if c = CHR ''f'' then CHR 0x0C else if c = CHR ''n'' then CHR 0x0A
      else if c = CHR ''r'' then CHR 0x0D else if c = CHR ''t'' then CHR 0x09 else c)"

text \<open>
  One step: the bytes it gives and the characters it takes. A surrogate pair is one code point, a surrogate that
  stands alone and a byte that starts no rune are replaced.
\<close>

definition unquote_step :: "string \<Rightarrow> string \<times> nat" where
  "unquote_step s =
     (if is_u_escape s then
        (let r = hex4 (drop 2 s)
         in if 0xD800 \<le> r \<and> r < 0xE000 then
              (let r2 = hex4 (drop 8 s)
               in if r < 0xDC00 \<and> is_u_escape (drop 6 s) \<and> 0xDC00 \<le> r2 \<and> r2 < 0xE000
                  then (utf8_encode ((r - 0xD800) * 0x400 + (r2 - 0xDC00) + 0x10000), 12)
                  else (replacement, 6))
            else (utf8_encode r, 6))
      else if hd s = CHR 0x5C then ([unescape (s ! 1)], 2)
      else if (of_char (hd s) :: nat) < 0x80 then ([hd s], 1)
      else if rune_size s = 1 then (replacement, 1)
      else (take (rune_size s) s, rune_size s))"

lemma unquote_step_pos: "0 < snd (unquote_step s)"
  by (simp add: unquote_step_def rune_size_pos Let_def)

function unquote_body :: "string \<Rightarrow> string" where
  "unquote_body s = (if s = [] then [] else fst (unquote_step s) @ unquote_body (drop (snd (unquote_step s)) s))"
  by pat_completeness auto
termination
  by (relation "measure length") (auto simp: unquote_step_pos)

declare unquote_body.simps [simp del]

text \<open>A number: sign, integer part without leading zeros, fraction, exponent; \<open>None\<close> where a digit is missing.\<close>

definition scan_int :: "string \<Rightarrow> (string \<times> string) option" where
  "scan_int s =
     (if s = [] \<or> \<not> is_digit (hd s) then None
      else if hd s = CHR ''0'' then Some (''0'', tl s)
      else Some (takeWhile is_digit s, dropWhile is_digit s))"

definition scan_digits :: "string \<Rightarrow> (string \<times> string) option" where
  "scan_digits s = (if s = [] \<or> \<not> is_digit (hd s) then None else Some (takeWhile is_digit s, dropWhile is_digit s))"

definition scan_frac :: "string \<Rightarrow> (string \<times> string) option" where
  "scan_frac s =
     (if take 1 s = ''.'' then map_option (apfst ((#) (CHR ''.''))) (scan_digits (drop 1 s)) else Some ([], s))"

definition scan_exp :: "string \<Rightarrow> (string \<times> string) option" where
  "scan_exp s =
     (if take 1 s = ''e'' \<or> take 1 s = ''E'' then
        (let sign = (if take 1 (drop 1 s) = ''+'' \<or> take 1 (drop 1 s) = ''-'' then 1 else 0)
         in map_option (apfst ((@) (take (1 + sign) s))) (scan_digits (drop (1 + sign) s)))
      else Some ([], s))"

definition scan_number :: "string \<Rightarrow> (string \<times> string) option" where
  "scan_number s =
     (let sign = (if take 1 s = ''-'' then ''-'' else [])
      in case scan_int (drop (length sign) s) of
           None \<Rightarrow> None
         | Some (i, s1) \<Rightarrow>
             (case scan_frac s1 of
                None \<Rightarrow> None
              | Some (f, s2) \<Rightarrow>
                  (case scan_exp s2 of None \<Rightarrow> None | Some (e, s3) \<Rightarrow> Some (sign @ i @ f @ e, s3))))"

definition is_space :: "char \<Rightarrow> bool" where
  "is_space c \<longleftrightarrow> c = CHR '' '' \<or> c = CHR 0x09 \<or> c = CHR 0x0D \<or> c = CHR 0x0A"

text \<open>The next token of a text that does not start with a space, and the rest.\<close>

definition next_token :: "string \<Rightarrow> token \<times> string" where
  "next_token s =
     (let c = hd s
      in if c = CHR ''{'' then (TOpen True, tl s)
         else if c = CHR ''['' then (TOpen False, tl s)
         else if c = CHR ''}'' then (TClose True, tl s)
         else if c = CHR '']'' then (TClose False, tl s)
         else if c = CHR '','' then (TComma, tl s)
         else if c = CHR '':'' then (TColon, tl s)
         else if c = CHR 0x22 then
           (case scan_string SNormal (tl s) of None \<Rightarrow> (TErr, []) | Some (b, r) \<Rightarrow> (TStr (unquote_body b), r))
         else if has_prefix s ''true'' then (TBool True, drop 4 s)
         else if has_prefix s ''false'' then (TBool False, drop 5 s)
         else if has_prefix s ''null'' then (TNull, drop 4 s)
         else (case scan_number s of None \<Rightarrow> (TErr, []) | Some (n, r) \<Rightarrow> (TNum n, r)))"

lemma scan_string_shorter: "scan_string st s = Some (b, r) \<Longrightarrow> length r < length s"
  by (induction st s arbitrary: b r rule: scan_string.induct) (fastforce split: if_splits)+

lemma dropWhile_shorter: "s \<noteq> [] \<Longrightarrow> P (hd s) \<Longrightarrow> length (dropWhile P s) < length s"
  by (cases s) (auto simp: less_Suc_eq_le length_dropWhile_le)

lemma scan_digits_shorter: "scan_digits s = Some (d, r) \<Longrightarrow> length r < length s"
  by (auto simp: scan_digits_def dropWhile_shorter split: if_splits)

lemma scan_int_shorter: "scan_int s = Some (d, r) \<Longrightarrow> length r < length s"
  by (auto simp: scan_int_def dropWhile_shorter split: if_splits)

lemma scan_frac_shorter: "scan_frac s = Some (d, r) \<Longrightarrow> length r \<le> length s"
  by (auto simp: scan_frac_def dest!: scan_digits_shorter split: if_splits)

lemma scan_exp_shorter: "scan_exp s = Some (d, r) \<Longrightarrow> length r \<le> length s"
  by (auto simp: scan_exp_def Let_def dest!: scan_digits_shorter split: if_splits)

lemma scan_number_shorter: "scan_number s = Some (n, r) \<Longrightarrow> length r < length s"
  by (fastforce simp: scan_number_def Let_def split: option.splits prod.splits
      dest!: scan_int_shorter scan_frac_shorter scan_exp_shorter)

lemma next_token_shorter: "s \<noteq> [] \<Longrightarrow> length (snd (next_token s)) < length s"
  by (cases s) (auto simp: next_token_def Let_def has_prefix_def
      dest!: scan_string_shorter scan_number_shorter split: option.splits)

text \<open>The tokens of a text, up to the first that is malformed.\<close>

function lex :: "string \<Rightarrow> token list" where
  "lex s =
     (if s = [] then []
      else if is_space (hd s) then lex (tl s)
      else case next_token s of (t, r) \<Rightarrow> if t = TErr then [TErr] else t # lex r)"
  by pat_completeness auto
termination
proof (relation "measure length")
  fix s t r assume "s \<noteq> []" "(t, r) = next_token s"
  with next_token_shorter [of s] show "(r, s) \<in> measure length" by (cases "next_token s") simp
qed auto

declare lex.simps [simp del]


subsection \<open>Values\<close>

datatype json =
  JNull | JBool bool | JNum string | JStr string | JArr "json list" | JObj "(string \<times> json) list"

text \<open>
  The open arrays and objects, innermost first, with what they hold so far; an object also has the key whose value
  is due. The scanner's state says what may come next.
\<close>

datatype frame = FArr "json list" | FObj "(string \<times> json) list" string

datatype expect = EValue | EFirst | EKey | EFirstKey | EColon | EAfter

definition deliver :: "json \<Rightarrow> frame list \<Rightarrow> (frame list \<times> expect) + json" where
  "deliver v stk =
     (case stk of
        [] \<Rightarrow> Inr v
      | FArr vs # st \<Rightarrow> Inl (FArr (vs @ [v]) # st, EAfter)
      | FObj ms k # st \<Rightarrow> Inl (FObj (ms @ [(k, v)]) k # st, EAfter))"

definition maxNestingDepth :: nat where
  "maxNestingDepth = 10000"

definition step_value :: "frame list \<Rightarrow> token \<Rightarrow> ((frame list \<times> expect) + json) option" where
  "step_value stk t =
     (case t of
        TStr s \<Rightarrow> Some (deliver (JStr s) stk)
      | TNum n \<Rightarrow> Some (deliver (JNum n) stk)
      | TBool b \<Rightarrow> Some (deliver (JBool b) stk)
      | TNull \<Rightarrow> Some (deliver JNull stk)
      | TOpen obj \<Rightarrow>
          if length stk < maxNestingDepth
          then Some (Inl (if obj then (FObj [] [] # stk, EFirstKey) else (FArr [] # stk, EFirst))) else None
      | _ \<Rightarrow> None)"

fun json_step :: "frame list \<Rightarrow> expect \<Rightarrow> token \<Rightarrow> ((frame list \<times> expect) + json) option" where
  "json_step stk EValue t = step_value stk t"
| "json_step stk EFirst t =
     (case (t, stk) of (TClose False, FArr vs # st) \<Rightarrow> Some (deliver (JArr vs) st) | _ \<Rightarrow> step_value stk t)"
| "json_step stk EKey t =
     (case (t, stk) of (TStr k, FObj ms _ # st) \<Rightarrow> Some (Inl (FObj ms k # st, EColon)) | _ \<Rightarrow> None)"
| "json_step stk EFirstKey t =
     (case (t, stk) of
        (TClose True, FObj ms k # st) \<Rightarrow> Some (deliver (JObj ms) st)
      | (TStr k, FObj ms _ # st) \<Rightarrow> Some (Inl (FObj ms k # st, EColon))
      | _ \<Rightarrow> None)"
| "json_step stk EColon t = (if t = TColon then Some (Inl (stk, EValue)) else None)"
| "json_step stk EAfter t =
     (case (t, stk) of
        (TComma, FArr vs # st) \<Rightarrow> Some (Inl (stk, EValue))
      | (TComma, FObj ms k # st) \<Rightarrow> Some (Inl (stk, EKey))
      | (TClose False, FArr vs # st) \<Rightarrow> Some (deliver (JArr vs) st)
      | (TClose True, FObj ms k # st) \<Rightarrow> Some (deliver (JObj ms) st)
      | _ \<Rightarrow> None)"

fun json_run :: "frame list \<Rightarrow> expect \<Rightarrow> token list \<Rightarrow> (json \<times> token list) option" where
  "json_run stk ex [] = None"
| "json_run stk ex (t # ts) =
     (case json_step stk ex t of
        None \<Rightarrow> None
      | Some (Inr v) \<Rightarrow> Some (v, ts)
      | Some (Inl (stk', ex')) \<Rightarrow> json_run stk' ex' ts)"

text \<open>
  \<^verbatim>\<open>Decoder.Decode\<close> reads the first value of a text, and what follows it is not looked at; \<^verbatim>\<open>Unmarshal\<close> accepts nothing but
  space after it.
\<close>

definition json_decode :: "string \<Rightarrow> json option" where
  "json_decode s = map_option fst (json_run [] EValue (lex s))"

definition json_unmarshal :: "string \<Rightarrow> json option" where
  "json_unmarshal s = (case json_run [] EValue (lex s) of Some (v, []) \<Rightarrow> Some v | _ \<Rightarrow> None)"


subsection \<open>Every value is read back from its text\<close>

text \<open>
  The text of a value whose strings are UTF-8 and whose numbers are integers, without spaces, and its tokens.
\<close>

fun join :: "'a \<Rightarrow> 'a list list \<Rightarrow> 'a list" where
  "join sep [] = []"
| "join sep [x] = x"
| "join sep (x # xs) = x @ sep # join sep xs"

definition hex_digit :: "nat \<Rightarrow> char" where
  "hex_digit n = char_of (if n < 10 then 48 + n else 87 + n)"

definition quote_char :: "char \<Rightarrow> string" where
  "quote_char c =
     (if c = CHR 0x22 \<or> c = CHR 0x5C then [CHR 0x5C, c]
      else if (of_char c :: nat) < 0x20
        then [CHR 0x5C, CHR ''u'', CHR ''0'', CHR ''0'', hex_digit (of_char c div 16), hex_digit (of_char c mod 16)]
      else [c])"

definition quote :: "string \<Rightarrow> string" where
  "quote s = CHR 0x22 # concat (map quote_char s) @ [CHR 0x22]"

fun print_json :: "json \<Rightarrow> string" where
  "print_json JNull = ''null''"
| "print_json (JBool b) = (if b then ''true'' else ''false'')"
| "print_json (JNum n) = n"
| "print_json (JStr s) = quote s"
| "print_json (JArr vs) = ''['' @ join (CHR '','') (map print_json vs) @ '']''"
| "print_json (JObj ms) = ''{'' @ join (CHR '','') (map (\<lambda>(k, v). quote k @ '':'' @ print_json v) ms) @ ''}''"

fun tokens_of :: "json \<Rightarrow> token list" where
  "tokens_of JNull = [TNull]"
| "tokens_of (JBool b) = [TBool b]"
| "tokens_of (JNum n) = [TNum n]"
| "tokens_of (JStr s) = [TStr s]"
| "tokens_of (JArr vs) = TOpen False # join TComma (map tokens_of vs) @ [TClose False]"
| "tokens_of (JObj ms) = TOpen True # join TComma (map (\<lambda>(k, v). TStr k # TColon # tokens_of v) ms) @ [TClose True]"

fun plain_json :: "json \<Rightarrow> bool" where
  "plain_json (JNum n) \<longleftrightarrow> (\<exists>i. n = Itoa i)"
| "plain_json (JStr s) \<longleftrightarrow> valid_utf8 s"
| "plain_json (JArr vs) \<longleftrightarrow> list_all plain_json vs"
| "plain_json (JObj ms) \<longleftrightarrow> list_all (\<lambda>(k, v). valid_utf8 k \<and> plain_json v) ms"
| "plain_json _ \<longleftrightarrow> True"

fun json_depth :: "json \<Rightarrow> nat" where
  "json_depth (JArr vs) = Suc (foldr max (map json_depth vs) 0)"
| "json_depth (JObj ms) = Suc (foldr max (map (\<lambda>(k, v). json_depth v) ms) 0)"
| "json_depth _ = 0"

lemma foldr_max_bound: "x \<in> set xs \<Longrightarrow> (x :: nat) \<le> foldr max xs 0"
  by (induction xs) (auto simp: le_max_iff_disj)

text \<open>Strings.\<close>

lemma hex_digit_ok: "n < 16 \<Longrightarrow> is_hex_digit (hex_digit n)" "n < 16 \<Longrightarrow> digit_val (hex_digit n) = int n"
  by (auto simp: is_hex_digit_def is_digit_def hex_digit_def digit_val_def lower_char_def Let_def)

lemma scan_quote_char:
  "scan_string SNormal (quote_char c @ s) = map_option (apfst ((@) (quote_char c))) (scan_string SNormal s)"
proof -
  have d: "(of_char c :: nat) div 16 < 16" by (simp add: less_mult_imp_div_less)
  have z: "is_hex_digit (CHR ''0'')" by (simp add: is_hex_digit_def is_digit_def)
  consider "c = CHR 0x22" | "c = CHR 0x5C" | "c \<noteq> CHR 0x22" "c \<noteq> CHR 0x5C" "(of_char c :: nat) < 0x20"
    | "c \<noteq> CHR 0x22" "c \<noteq> CHR 0x5C" "\<not> (of_char c :: nat) < 0x20" by blast
  then show ?thesis
  proof cases
    case 3
    then show ?thesis
      using hex_digit_ok(1) [OF d] hex_digit_ok(1) [of "of_char c mod 16"] z
      by (cases "scan_string SNormal s") (auto simp: quote_char_def)
  qed (cases "scan_string SNormal s"; auto simp: quote_char_def)+
qed

lemma scan_quoted: "scan_string SNormal (concat (map quote_char s) @ CHR 0x22 # r) = Some (concat (map quote_char s), r)"
  by (induction s) (simp_all add: scan_quote_char)

lemma unquote_quote_char:
  assumes "(of_char c :: nat) < 0x80"
  shows "unquote_step (quote_char c @ s) = ([c], length (quote_char c))"
proof -
  have d: "(of_char c :: nat) div 16 < 16" "(of_char c :: nat) mod 16 < 16" using assms by simp_all
  have h: "hex4 ([CHR ''0'', CHR ''0'', hex_digit (of_char c div 16), hex_digit (of_char c mod 16)] @ s) = of_char c"
    using hex_digit_ok(2) [OF d(1)] hex_digit_ok(2) [OF d(2)]
    by (simp add: hex4_def digit_val_def [of "CHR ''0''"] nat_add_distrib nat_mult_distrib)
  show ?thesis
    using assms h by (auto simp: unquote_step_def quote_char_def is_u_escape_def unescape_def utf8_encode_def Let_def)
qed

lemma quote_high: "0x80 \<le> (of_char c :: nat) \<Longrightarrow> quote_char c = [c]"
  by (auto simp: quote_char_def)

lemma unquote_rune:
  assumes "2 \<le> rune_size s"
  shows "unquote_step (take (rune_size s) s @ x) = (take (rune_size s) s, rune_size s)"
proof -
  let ?t = "take (rune_size s) s"
  note b = rune_bytes [OF assms]
  obtain c cs where c: "?t = c # cs" using b(1) assms by (cases ?t) auto
  then have h: "0x80 \<le> (of_char c :: nat)" using b(4) by simp
  have r: "rune_size (c # cs @ x) = rune_size s" using b(2) [of x] c by simp
  have l: "length (c # cs) = rune_size s" using b(1) c by (metis length_take min.absorb2)
  have "unquote_step (c # cs @ x) = (take (rune_size s) (c # cs @ x), rune_size s)"
    using h r assms by (auto simp: unquote_step_def is_u_escape_def)
  with c l show ?thesis by (metis append_Cons append_eq_conv_conj)
qed

lemma unquote_quoted: "valid_utf8 s \<Longrightarrow> unquote_body (concat (map quote_char s)) = s"
proof (induction s rule: valid_utf8.induct)
  case (1 s)
  show ?case
  proof (cases "s = []")
    case False
    with 1(2) have v: "(of_char (hd s) :: nat) < 0x80 \<or> 2 \<le> rune_size s" "valid_utf8 (drop (rune_size s) s)"
      by (simp_all add: valid_utf8.simps [of s])
    note ih = 1(1) [OF False v(2)]
    show ?thesis
    proof (cases "(of_char (hd s) :: nat) < 0x80")
      case True
      obtain c cs where s: "s = c # cs" using False by (cases s) auto
      have "quote_char c \<noteq> []" by (simp add: quote_char_def)
      with True s ih unquote_quote_char [of c "concat (map quote_char cs)"] show ?thesis
        by (subst unquote_body.simps) (simp add: rune_size_ascii)
    next
      case high: False
      then have n: "2 \<le> rune_size s" using v(1) by blast
      let ?t = "take (rune_size s) s" and ?r = "concat (map quote_char (drop (rune_size s) s))"
      have "map quote_char ?t = map (\<lambda>c. [c]) ?t" by (rule map_cong) (use rune_bytes(4) [OF n] quote_high in auto)
      then have "concat (map quote_char ?t) = ?t" by (simp only: concat_map_singleton list.map_ident)
      moreover have "concat (map quote_char s) = concat (map quote_char (?t @ drop (rune_size s) s))" by simp
      ultimately have q: "concat (map quote_char s) = ?t @ ?r" by (simp only: map_append concat_append)
      have "?t \<noteq> []" using n False by simp
      with ih unquote_rune [OF n, of ?r] rune_bytes(1) [OF n] show ?thesis
        unfolding q by (subst unquote_body.simps) simp
    qed
  qed (simp add: unquote_body.simps)
qed

lemma lex_string: "valid_utf8 s \<Longrightarrow> lex (quote s @ r) = TStr s # lex r"
  by (subst lex.simps) (simp add: quote_def is_space_def next_token_def scan_quoted unquote_quoted Let_def)

text \<open>Punctuation and words.\<close>

lemma lex_punct:
  "lex (CHR '','' # r) = TComma # lex r" "lex (CHR '':'' # r) = TColon # lex r"
  "lex (CHR ''{'' # r) = TOpen True # lex r" "lex (CHR ''['' # r) = TOpen False # lex r"
  "lex (CHR ''}'' # r) = TClose True # lex r" "lex (CHR '']'' # r) = TClose False # lex r"
  by (subst lex.simps; simp add: is_space_def next_token_def)+

lemma lex_word:
  "lex (''true'' @ r) = TBool True # lex r" "lex (''false'' @ r) = TBool False # lex r" "lex (''null'' @ r) = TNull # lex r"
  by (subst lex.simps; simp add: is_space_def next_token_def has_prefix_def)+

text \<open>Integers, before what may follow a value.\<close>

definition num_end :: "string \<Rightarrow> bool" where
  "num_end r \<longleftrightarrow> r = [] \<or> hd r = CHR '','' \<or> hd r = CHR '']'' \<or> hd r = CHR ''}''"

lemma num_end_rest:
  assumes "num_end r"
  shows "scan_frac r = Some ([], r)" "scan_exp r = Some ([], r)" "takeWhile is_digit r = []" "dropWhile is_digit r = r"
  using assms by (cases r; auto simp: num_end_def scan_frac_def scan_exp_def is_digit_def)+

lemma scan_int_Itoa: "num_end r \<Longrightarrow> scan_int (Itoa_nat n @ r) = Some (Itoa_nat n, r)"
proof -
  assume r: "num_end r"
  have d: "list_all is_digit (Itoa_nat n)" using Itoa_nat_digits [of _ n] by (auto simp: list_all_iff is_digit_def)
  have ne: "Itoa_nat n \<noteq> []" by (rule Itoa_nat_not_Nil)
  then have h: "is_digit (hd (Itoa_nat n))" using d by (cases "Itoa_nat n") auto
  show ?thesis
  proof (cases "n = 0")
    case True
    then have "Itoa_nat n = ''0''" by (simp add: Itoa_nat.simps char_of_def bit_0)
    then show ?thesis by (simp add: scan_int_def is_digit_def)
  next
    case False
    then have "hd (Itoa_nat n) \<noteq> CHR ''0''" using Itoa_nat_head [of n] by simp
    with d ne h num_end_rest(3,4) [OF r] show ?thesis
      by (simp add: scan_int_def takeWhile_append dropWhile_append list_all_iff)
  qed
qed

lemma lex_number:
  assumes "num_end r"
  shows "lex (Itoa i @ r) = TNum (Itoa i) # lex r"
proof -
  obtain c cs where c: "Itoa_nat (nat \<bar>i\<bar>) = c # cs" using Itoa_nat_not_Nil by (cases "Itoa_nat (nat \<bar>i\<bar>)") auto
  then have d: "is_digit c" using Itoa_nat_digits [of c "nat \<bar>i\<bar>"] by (simp add: is_digit_def)
  have n: "scan_number (Itoa i @ r) = Some (Itoa i, r)"
    using scan_int_Itoa [OF assms, of "nat \<bar>i\<bar>"] num_end_rest [OF assms] c d
    by (cases "i < 0") (auto simp: scan_number_def Itoa_def is_digit_def Let_def)
  have h: "hd (Itoa i @ r) = (if i < 0 then CHR ''-'' else c)" "Itoa i @ r \<noteq> []" using c by (auto simp: Itoa_def)
  then have p: "\<not> has_prefix (Itoa i @ r) ''true''" "\<not> has_prefix (Itoa i @ r) ''false''" "\<not> has_prefix (Itoa i @ r) ''null''"
    using d c by (auto simp: has_prefix_def is_digit_def Itoa_def)
  show ?thesis
    by (subst lex.simps) (use n h p d in \<open>auto simp: is_space_def next_token_def is_digit_def Let_def split: if_splits\<close>)
qed

text \<open>The tokens of a value's text are the value's tokens.\<close>

lemma num_end_simps [simp]:
  "num_end []" "num_end (CHR '','' # r)" "num_end (CHR '']'' # r)" "num_end (CHR ''}'' # r)"
  by (simp_all add: num_end_def)

lemma lex_join:
  assumes "\<And>x r. x \<in> set xs \<Longrightarrow> num_end r \<Longrightarrow> lex (f x @ r) = g x @ lex r" "num_end r"
  shows "lex (join (CHR '','') (map f xs) @ r) = join TComma (map g xs) @ lex r"
  using assms
proof (induction "CHR '',''" "map f xs" arbitrary: xs rule: join.induct)
  case (3 x y zs)
  then obtain a b cs where xs: "xs = a # b # cs" by (cases xs; cases "tl xs") auto
  have "lex (join (CHR '','') (map f (b # cs)) @ r) = join TComma (map g (b # cs)) @ lex r"
    using 3 xs by (intro 3(1)) auto
  with 3(3) [of a] xs show ?case by (simp add: lex_punct)
qed auto

lemma lex_object:
  assumes "\<And>k v r. (k, v) \<in> set ms \<Longrightarrow> num_end r \<Longrightarrow> lex (print_json v @ r) = tokens_of v @ lex r" "\<forall>(k, v) \<in> set ms. valid_utf8 k"
  shows "lex (print_json (JObj ms) @ r) = tokens_of (JObj ms) @ lex r"
proof -
  have "lex (join (CHR '','') (map (\<lambda>(k, v). quote k @ '':'' @ print_json v) ms) @ CHR ''}'' # r) =
      join TComma (map (\<lambda>(k, v). TStr k # TColon # tokens_of v) ms) @ lex (CHR ''}'' # r)"
    using assms by (intro lex_join) (fastforce simp: lex_string lex_punct)+
  then show ?thesis by (simp add: lex_punct)
qed

lemma lex_print: "plain_json v \<Longrightarrow> num_end r \<Longrightarrow> lex (print_json v @ r) = tokens_of v @ lex r"
proof (induction v arbitrary: r rule: json.induct)
  case JNull
  then show ?case using lex_word(3) by simp
next
  case (JBool b)
  then show ?case using lex_word(1,2) by simp
next
  case (JNum n)
  then show ?case using lex_number by auto
next
  case (JStr s)
  then show ?case by (simp add: lex_string)
next
  case (JArr vs)
  have "lex (join (CHR '','') (map print_json vs) @ CHR '']'' # r) = join TComma (map tokens_of vs) @ lex (CHR '']'' # r)"
    using JArr by (intro lex_join) (auto simp: list_all_iff)
  then show ?case by (simp add: lex_punct)
next
  case (JObj ms)
  then show ?case by (intro lex_object) (fastforce simp: list_all_iff)+
qed

text \<open>The parser gives the value back, in whatever it is nested.\<close>

definition json_continue :: "((frame list \<times> expect) + json) \<Rightarrow> token list \<Rightarrow> (json \<times> token list) option" where
  "json_continue d ts = (case d of Inr v \<Rightarrow> Some (v, ts) | Inl (stk, ex) \<Rightarrow> json_run stk ex ts)"

definition reads_value :: "json \<Rightarrow> bool" where
  "reads_value v \<longleftrightarrow>
     (\<forall>stk ex ts. (ex = EValue \<or> ex = EFirst) \<longrightarrow> length stk + json_depth v \<le> maxNestingDepth \<longrightarrow>
        json_run stk ex (tokens_of v @ ts) = json_continue (deliver v stk) ts)"

lemma json_run_array:
  assumes "\<forall>v \<in> set (v # vs). reads_value v \<and> Suc (length stk) + json_depth v \<le> maxNestingDepth" "ex = EValue \<or> ex = EFirst"
  shows "json_run (FArr us # stk) ex (join TComma (map tokens_of (v # vs)) @ TClose False # ts) =
     json_continue (deliver (JArr (us @ v # vs)) stk) ts"
  using assms
proof (induction vs arbitrary: us v ex)
  case Nil
  then show ?case by (auto simp: reads_value_def json_continue_def deliver_def split: sum.splits prod.splits)
next
  case (Cons w vs)
  have "json_run (FArr us # stk) ex (tokens_of v @ TComma # join TComma (map tokens_of (w # vs)) @ TClose False # ts) =
      json_run (FArr (us @ [v]) # stk) EValue (join TComma (map tokens_of (w # vs)) @ TClose False # ts)"
    using Cons.prems by (auto simp: reads_value_def json_continue_def deliver_def)
  with Cons.IH [of w EValue "us @ [v]"] Cons.prems show ?case by simp
qed

lemma json_run_object:
  assumes "\<forall>(k, v) \<in> set (m # ms). reads_value v \<and> Suc (length stk) + json_depth v \<le> maxNestingDepth" "ex = EKey \<or> ex = EFirstKey"
  shows "json_run (FObj us k0 # stk) ex (join TComma (map (\<lambda>(k, v). TStr k # TColon # tokens_of v) (m # ms)) @ TClose True # ts) =
     json_continue (deliver (JObj (us @ m # ms)) stk) ts"
  using assms
proof (induction ms arbitrary: us k0 m ex)
  case Nil
  then show ?case
    by (cases m) (auto simp: reads_value_def json_continue_def deliver_def split: sum.splits prod.splits)
next
  case (Cons n ms)
  obtain k v where m: "m = (k, v)" by (cases m)
  have "json_run (FObj us k0 # stk) ex (TStr k # TColon # tokens_of v @ TComma # ts') =
      json_run (FObj (us @ [m]) k # stk) EKey ts'" for ts'
    using Cons.prems m by (auto simp: reads_value_def json_continue_def deliver_def)
  with Cons.IH [of n EKey "us @ [m]" k] Cons.prems m show ?case by simp
qed

lemma reads_all: "reads_value v"
proof (induction v rule: json.induct)
  case (JArr vs)
  show ?case
  proof (cases vs)
    case Nil
    then show ?thesis by (auto simp: reads_value_def step_value_def json_continue_def split: sum.splits prod.splits)
  next
    case (Cons w ws)
    have "json_run stk ex (tokens_of (JArr vs) @ ts) = json_continue (deliver (JArr vs) stk) ts"
      if "ex = EValue \<or> ex = EFirst" "length stk + json_depth (JArr vs) \<le> maxNestingDepth" for stk ex ts
    proof -
      have "\<forall>v \<in> set (w # ws). reads_value v \<and> Suc (length stk) + json_depth v \<le> maxNestingDepth"
        using JArr Cons that(2) foldr_max_bound [of _ "map json_depth vs"] by fastforce
      from json_run_array [OF this, of EFirst "[]" ts] Cons that show ?thesis by (auto simp: step_value_def)
    qed
    then show ?thesis by (simp add: reads_value_def)
  qed
next
  case (JObj ms)
  show ?case
  proof (cases ms)
    case Nil
    then show ?thesis by (auto simp: reads_value_def step_value_def json_continue_def split: sum.splits prod.splits)
  next
    case (Cons m ns)
    have "json_run stk ex (tokens_of (JObj ms) @ ts) = json_continue (deliver (JObj ms) stk) ts"
      if "ex = EValue \<or> ex = EFirst" "length stk + json_depth (JObj ms) \<le> maxNestingDepth" for stk ex ts
    proof -
      have "\<forall>(k, v) \<in> set (m # ns). reads_value v \<and> Suc (length stk) + json_depth v \<le> maxNestingDepth"
        using JObj Cons that(2) foldr_max_bound [of _ "map (\<lambda>(k, v). json_depth v) ms"] by fastforce
      from json_run_object [OF this, of EFirstKey "[]" "[]" ts] Cons that show ?thesis by (auto simp: step_value_def)
    qed
    then show ?thesis by (simp add: reads_value_def)
  qed
qed (auto simp: reads_value_def step_value_def json_continue_def split: sum.splits prod.splits)

lemma json_run_print: "json_depth v \<le> maxNestingDepth \<Longrightarrow> json_run [] EValue (tokens_of v @ ts) = Some (v, ts)"
  using reads_all [of v] by (simp add: reads_value_def json_continue_def deliver_def)

text \<open>A text that begins with an object is read as that object, whatever follows it.\<close>

theorem json_decode_object:
  assumes "plain_json (JObj ms)" "json_depth (JObj ms) \<le> maxNestingDepth"
  shows "json_decode (print_json (JObj ms) @ r) = Some (JObj ms)"
proof -
  have "lex (print_json (JObj ms) @ r) = tokens_of (JObj ms) @ lex r"
    using assms(1) lex_print by (intro lex_object) (fastforce simp: list_all_iff)+
  with json_run_print [OF assms(2)] show ?thesis by (simp add: json_decode_def)
qed

text \<open>Where nothing follows, the two agree.\<close>

theorem json_unmarshal_print:
  assumes "plain_json v" "json_depth v \<le> maxNestingDepth"
  shows "json_unmarshal (print_json v) = Some v"
  using json_run_print [OF assms(2), of "[]"] lex_print [OF assms(1), of "[]"]
  by (simp add: json_unmarshal_def lex.simps [of "[]"])

end
