(* ===== verification/GoDecode.thy ===== *)
theory GoDecode
  imports GoJSON
begin

text \<open>
  How \<^verbatim>\<open>encoding/json\<close> stores a JSON value into the variables of a Go program: strings, numbers, booleans, structs by the names of
  their fields, and slices. The configuration and the benchmark results are decoded with it.
\<close>


subsection \<open>Decoding into Go values\<close>

text \<open>
  A decoder gives the new value of a variable from JSON and its old value, \<open>None\<close> being an error. \<^verbatim>\<open>null\<close> leaves a variable
  as it is. An error in one field is reported after the whole text was decoded, so the result is the same.
\<close>

definition dec_string :: "json \<Rightarrow> string \<Rightarrow> string option" where
  "dec_string v old = (case v of JStr s \<Rightarrow> Some s | JNull \<Rightarrow> Some old | _ \<Rightarrow> None)"

definition dec_int :: "json \<Rightarrow> int \<Rightarrow> int option" where
  "dec_int v old = (case v of JNum n \<Rightarrow> Atoi n | JNull \<Rightarrow> Some old | _ \<Rightarrow> None)"

definition dec_float :: "json \<Rightarrow> f64 \<Rightarrow> f64 option" where
  "dec_float v old = (case v of JNum n \<Rightarrow> ParseFloat n | JNull \<Rightarrow> Some old | _ \<Rightarrow> None)"

definition dec_bool :: "json \<Rightarrow> bool \<Rightarrow> bool option" where
  "dec_bool v old = (case v of JBool b \<Rightarrow> Some b | JNull \<Rightarrow> Some old | _ \<Rightarrow> None)"

text \<open>
  A field of a struct is found by its name, or else by its name up to case, where U+017F (bytes C5 BF) counts as S
  and U+212A (bytes E2 84 AA) as K. A key that is no field is an error after \<^verbatim>\<open>DisallowUnknownFields\<close> (\<open>strict\<close>), else it is skipped.
\<close>

fun fold_name :: "string \<Rightarrow> string" where
  "fold_name [] = []"
| "fold_name (c # cs) =
     (if c = CHR 0xC5 \<and> take 1 cs = [CHR 0xBF] then CHR ''S'' # fold_name (drop 1 cs)
      else if c = CHR 0xE2 \<and> take 2 cs = [CHR 0x84, CHR 0xAA] then CHR ''K'' # fold_name (drop 2 cs)
      else upper_char c # fold_name cs)"

type_synonym 'r fields = "(string \<times> (json \<Rightarrow> 'r \<Rightarrow> 'r option)) list"

definition find_field :: "'r fields \<Rightarrow> string \<Rightarrow> (json \<Rightarrow> 'r \<Rightarrow> 'r option) option" where
  "find_field fs k =
     (case map_of fs k of
        Some d \<Rightarrow> Some d
      | None \<Rightarrow> map_option snd (find (\<lambda>(n, d). fold_name n = fold_name k) fs))"

fun dec_members :: "bool \<Rightarrow> 'r fields \<Rightarrow> (string \<times> json) list \<Rightarrow> 'r \<Rightarrow> 'r option" where
  "dec_members strict fs [] r = Some r"
| "dec_members strict fs ((k, v) # ms) r =
     (case find_field fs k of
        None \<Rightarrow> if strict then None else dec_members strict fs ms r
      | Some d \<Rightarrow> (case d v r of None \<Rightarrow> None | Some r' \<Rightarrow> dec_members strict fs ms r'))"

definition dec_struct :: "bool \<Rightarrow> 'r fields \<Rightarrow> json \<Rightarrow> 'r \<Rightarrow> 'r option" where
  "dec_struct strict fs v r = (case v of JObj ms \<Rightarrow> dec_members strict fs ms r | JNull \<Rightarrow> Some r | _ \<Rightarrow> None)"

definition field :: "('r \<Rightarrow> 'a) \<Rightarrow> ('a \<Rightarrow> 'r \<Rightarrow> 'r) \<Rightarrow> (json \<Rightarrow> 'a \<Rightarrow> 'a option) \<Rightarrow> json \<Rightarrow> 'r \<Rightarrow> 'r option" where
  "field get put d v r = map_option (\<lambda>x. put x r) (d v (get r))"

text \<open>
  A slice is its elements and those that its memory still holds behind them. An array is decoded into the elements
  that are there, if the same key comes again; an empty array and \<^verbatim>\<open>null\<close> give a new slice.
\<close>

fun dec_elems :: "(json \<Rightarrow> 'a \<Rightarrow> 'a option) \<Rightarrow> 'a \<Rightarrow> json list \<Rightarrow> 'a list \<Rightarrow> 'a list option" where
  "dec_elems d zero [] old = Some []"
| "dec_elems d zero (v # vs) old =
     (case d v (case old of [] \<Rightarrow> zero | x # _ \<Rightarrow> x) of
        None \<Rightarrow> None
      | Some x \<Rightarrow> map_option ((#) x) (dec_elems d zero vs (tl old)))"

definition dec_slice :: "(json \<Rightarrow> 'a \<Rightarrow> 'a option) \<Rightarrow> 'a \<Rightarrow> json \<Rightarrow> 'a list \<times> 'a list \<Rightarrow> ('a list \<times> 'a list) option" where
  "dec_slice d zero v sl =
     (case v of
        JArr vs \<Rightarrow>
          if vs = [] then Some ([], [])
          else (let old = fst sl @ snd sl in map_option (\<lambda>xs. (xs, drop (length vs) old)) (dec_elems d zero vs old))
      | JNull \<Rightarrow> Some ([], [])
      | _ \<Rightarrow> None)"

end
