(* ===== verification/ConfigFile.thy ===== *)
theory ConfigFile
  imports Config GoDecode
begin

text \<open>
  The configuration file: how \<^verbatim>\<open>encoding/json\<close> decodes the text of a file into the struct \<^verbatim>\<open>Config\<close> of \<^verbatim>\<open>internal/config/config.go\<close>, with
  its field names and \<^verbatim>\<open>DisallowUnknownFields\<close>, and \<^verbatim>\<open>Load\<close> on the text. The theory shows that every configuration can be written
  as a file that loads as that configuration.
\<close>


subsection \<open>The fields of the configuration\<close>

text \<open>
  \<^verbatim>\<open>json.Unmarshal\<close> into a fresh string, which \<^verbatim>\<open>null\<close> leaves empty. A type with its own \<^verbatim>\<open>UnmarshalJSON\<close> is given every value, \<^verbatim>\<open>null\<close> too.
\<close>

definition json_unquote :: "json \<Rightarrow> string option" where
  "json_unquote v = dec_string v []"

definition dec_duration :: "json \<Rightarrow> int \<Rightarrow> int option" where
  "dec_duration v old = (case Duration_UnmarshalJSON json_unquote v of Inl _ \<Rightarrow> None | Inr d \<Rightarrow> Some d)"

definition User_fields :: "User fields" where
  "User_fields =
     [(''name'', field u_Name (\<lambda>x u. u\<lparr>u_Name := x\<rparr>) dec_string),
      (''password'', field u_Password (\<lambda>x u. u\<lparr>u_Password := x\<rparr>) dec_string)]"

definition Pool_fields :: "PoolSection fields" where
  "Pool_fields =
     [(''mode'', field po_Mode (\<lambda>x p. p\<lparr>po_Mode := x\<rparr>) dec_string),
      (''max_size'', field po_MaxSize (\<lambda>x p. p\<lparr>po_MaxSize := x\<rparr>) dec_int),
      (''max_waiters'', field po_MaxWaiters (\<lambda>x p. p\<lparr>po_MaxWaiters := x\<rparr>) dec_int),
      (''acquire_timeout'', field po_AcquireTimeout (\<lambda>x p. p\<lparr>po_AcquireTimeout := x\<rparr>) dec_duration),
      (''idle_timeout'', field po_IdleTimeout (\<lambda>x p. p\<lparr>po_IdleTimeout := x\<rparr>) dec_duration)]"

definition Health_fields :: "Health fields" where
  "Health_fields =
     [(''interval'', field h_Interval (\<lambda>x h. h\<lparr>h_Interval := x\<rparr>) dec_duration),
      (''failure_threshold'', field h_FailureThreshold (\<lambda>x h. h\<lparr>h_FailureThreshold := x\<rparr>) dec_int),
      (''base_backoff'', field h_BaseBackoff (\<lambda>x h. h\<lparr>h_BaseBackoff := x\<rparr>) dec_duration),
      (''max_backoff'', field h_MaxBackoff (\<lambda>x h. h\<lparr>h_MaxBackoff := x\<rparr>) dec_duration)]"

definition Fencing_fields :: "Fencing fields" where
  "Fencing_fields =
     [(''mode'', field f_Mode (\<lambda>x f. f\<lparr>f_Mode := x\<rparr>) dec_string),
      (''bounded_ms'', field f_BoundedMs (\<lambda>x f. f\<lparr>f_BoundedMs := x\<rparr>) dec_int)]"

definition Routing_fields :: "string fields" where
  "Routing_fields = [(''policy'', field (\<lambda>p. p) (\<lambda>x p. x) dec_string)]"

definition Observability_fields :: "Observability fields" where
  "Observability_fields =
     [(''metrics_addr'', field o_MetricsAddr (\<lambda>x ob. ob\<lparr>o_MetricsAddr := x\<rparr>) dec_string),
      (''pprof'', field o_Pprof (\<lambda>x ob. ob\<lparr>o_Pprof := x\<rparr>) dec_bool)]"

text \<open>The struct while it is decoded: the configuration and what the memory of its two slices still holds.\<close>

record decoding =
  dc_cfg :: Config
  dc_replicas :: "address list"
  dc_users :: "User list"

definition zero_User :: User where
  "zero_User = \<lparr>u_Name = [], u_Password = []\<rparr>"

definition cfg_field :: "(Config \<Rightarrow> 'a) \<Rightarrow> ('a \<Rightarrow> Config \<Rightarrow> Config) \<Rightarrow> (json \<Rightarrow> 'a \<Rightarrow> 'a option) \<Rightarrow> json \<Rightarrow> decoding \<Rightarrow> decoding option" where
  "cfg_field get put d = field (get \<circ> dc_cfg) (\<lambda>x r. r\<lparr>dc_cfg := put x (dc_cfg r)\<rparr>) d"

definition Config_fields :: "decoding fields" where
  "Config_fields =
     [(''listen'', cfg_field c_Listen (\<lambda>x c. c\<lparr>c_Listen := x\<rparr>) dec_string),
      (''primary'', cfg_field c_Primary (\<lambda>x c. c\<lparr>c_Primary := x\<rparr>) dec_string),
      (''replicas'', field (\<lambda>r. (c_Replicas (dc_cfg r), dc_replicas r))
         (\<lambda>x r. r\<lparr>dc_cfg := (dc_cfg r)\<lparr>c_Replicas := fst x\<rparr>, dc_replicas := snd x\<rparr>) (dec_slice dec_string [])),
      (''users'', field (\<lambda>r. (c_Users (dc_cfg r), dc_users r))
         (\<lambda>x r. r\<lparr>dc_cfg := (dc_cfg r)\<lparr>c_Users := fst x\<rparr>, dc_users := snd x\<rparr>) (dec_slice (dec_struct True User_fields) zero_User)),
      (''pool'', cfg_field c_Pool (\<lambda>x c. c\<lparr>c_Pool := x\<rparr>) (dec_struct True Pool_fields)),
      (''health'', cfg_field c_Health (\<lambda>x c. c\<lparr>c_Health := x\<rparr>) (dec_struct True Health_fields)),
      (''fencing'', cfg_field c_Fencing (\<lambda>x c. c\<lparr>c_Fencing := x\<rparr>) (dec_struct True Fencing_fields)),
      (''routing'', cfg_field c_Policy (\<lambda>x c. c\<lparr>c_Policy := x\<rparr>) (dec_struct True Routing_fields)),
      (''observability'', cfg_field c_Observability (\<lambda>x c. c\<lparr>c_Observability := x\<rparr>) (dec_struct True Observability_fields))]"

definition zero_Config :: Config where
  "zero_Config =
     \<lparr>c_Listen = [], c_Primary = [], c_Replicas = [], c_Users = [],
      c_Pool = \<lparr>po_Mode = [], po_MaxSize = 0, po_MaxWaiters = 0, po_AcquireTimeout = 0, po_IdleTimeout = 0\<rparr>,
      c_Health = \<lparr>h_Interval = 0, h_FailureThreshold = 0, h_BaseBackoff = 0, h_MaxBackoff = 0\<rparr>,
      c_Fencing = \<lparr>f_Mode = [], f_BoundedMs = 0\<rparr>, c_Policy = [],
      c_Observability = \<lparr>o_MetricsAddr = [], o_Pprof = False\<rparr>\<rparr>"

text \<open>\<^verbatim>\<open>Load\<close> on the contents of the file, \<open>None\<close> when it cannot be read. Only the first value of the text is decoded.\<close>

definition Decode :: "string \<Rightarrow> string + Config" where
  "Decode raw =
     (case json_decode raw of
        None \<Rightarrow> Inl ''parse''
      | Some v \<Rightarrow>
          (case dec_struct True Config_fields v \<lparr>dc_cfg = zero_Config, dc_replicas = [], dc_users = []\<rparr> of
             None \<Rightarrow> Inl ''parse''
           | Some r \<Rightarrow> Inr (dc_cfg r)))"

definition decode_file :: "string option \<Rightarrow> string + Config" where
  "decode_file raw = (case raw of None \<Rightarrow> Inl ''read'' | Some r \<Rightarrow> Decode r)"

definition Load_file :: "string option \<Rightarrow> config_err + Config" where
  "Load_file raw = Load (decode_file raw)"


subsection \<open>Writing a configuration\<close>

definition dur_json :: "int \<Rightarrow> json" where
  "dur_json d = Duration_MarshalJSON JStr d"

definition int_json :: "int \<Rightarrow> json" where
  "int_json i = JNum (Itoa i)"

definition User_json :: "User \<Rightarrow> json" where
  "User_json u = JObj [(''name'', JStr (u_Name u)), (''password'', JStr (u_Password u))]"

definition Pool_json :: "PoolSection \<Rightarrow> json" where
  "Pool_json p =
     JObj [(''mode'', JStr (po_Mode p)), (''max_size'', int_json (po_MaxSize p)), (''max_waiters'', int_json (po_MaxWaiters p)),
           (''acquire_timeout'', dur_json (po_AcquireTimeout p)), (''idle_timeout'', dur_json (po_IdleTimeout p))]"

definition Health_json :: "Health \<Rightarrow> json" where
  "Health_json h =
     JObj [(''interval'', dur_json (h_Interval h)), (''failure_threshold'', int_json (h_FailureThreshold h)),
           (''base_backoff'', dur_json (h_BaseBackoff h)), (''max_backoff'', dur_json (h_MaxBackoff h))]"

definition Fencing_json :: "Fencing \<Rightarrow> json" where
  "Fencing_json f = JObj [(''mode'', JStr (f_Mode f)), (''bounded_ms'', int_json (f_BoundedMs f))]"

definition Observability_json :: "Observability \<Rightarrow> json" where
  "Observability_json ob = JObj [(''metrics_addr'', JStr (o_MetricsAddr ob)), (''pprof'', JBool (o_Pprof ob))]"

definition Config_members :: "Config \<Rightarrow> (string \<times> json) list" where
  "Config_members c =
     [(''listen'', JStr (c_Listen c)), (''primary'', JStr (c_Primary c)), (''replicas'', JArr (map JStr (c_Replicas c))),
      (''users'', JArr (map User_json (c_Users c))), (''pool'', Pool_json (c_Pool c)), (''health'', Health_json (c_Health c)),
      (''fencing'', Fencing_json (c_Fencing c)), (''routing'', JObj [(''policy'', JStr (c_Policy c))]),
      (''observability'', Observability_json (c_Observability c))]"

definition config_text :: "Config \<Rightarrow> string" where
  "config_text c = print_json (JObj (Config_members c))"

definition int64 :: "int \<Rightarrow> bool" where
  "int64 i \<longleftrightarrow> - (2 ^ 63) \<le> i \<and> i < 2 ^ 63"

text \<open>The values a Go configuration can hold, with strings that are UTF-8.\<close>

definition go_config :: "Config \<Rightarrow> bool" where
  "go_config c \<longleftrightarrow>
     list_all valid_utf8 ([c_Listen c, c_Primary c, po_Mode (c_Pool c), f_Mode (c_Fencing c), c_Policy c,
       o_MetricsAddr (c_Observability c)] @ c_Replicas c @ map u_Name (c_Users c) @ map u_Password (c_Users c)) \<and>
     list_all int64 [po_MaxSize (c_Pool c), po_MaxWaiters (c_Pool c), po_AcquireTimeout (c_Pool c), po_IdleTimeout (c_Pool c),
       h_Interval (c_Health c), h_FailureThreshold (c_Health c), h_BaseBackoff (c_Health c), h_MaxBackoff (c_Health c),
       f_BoundedMs (c_Fencing c)]"

lemma Atoi_Itoa_int64: "int64 i \<Longrightarrow> Atoi (Itoa i) = Some i"
proof -
  assume i: "int64 i"
  obtain c cs where c: "Itoa_nat (nat \<bar>i\<bar>) = c # cs" using Itoa_nat_not_Nil by (cases "Itoa_nat (nat \<bar>i\<bar>)") auto
  then have "is_digit c" using Itoa_nat_digits [of c "nat \<bar>i\<bar>"] by (simp add: is_digit_def)
  then have "c \<noteq> CHR ''-''" "c \<noteq> CHR ''+''" by (auto simp: is_digit_def)
  with i c parse_Itoa_nat [of "nat \<bar>i\<bar>"] show ?thesis
    by (auto simp: Atoi_def Itoa_def int64_def Let_def)
qed

lemma dec_int_json: "int64 i \<Longrightarrow> dec_int (int_json i) old = Some i"
  by (simp add: dec_int_def int_json_def Atoi_Itoa_int64)

lemma dec_dur_json: "int64 d \<Longrightarrow> dec_duration (dur_json d) old = Some d"
  using Duration_JSON_roundtrip [of json_unquote JStr d]
  by (simp add: dec_duration_def dur_json_def int64_def json_unquote_def dec_string_def)

lemmas dec_defs = find_field_def field_def dec_string_def dec_bool_def dec_struct_def

lemma dec_User_json: "dec_struct True User_fields (User_json u) old = Some u"
  by (simp add: dec_defs User_fields_def User_json_def)

lemma dec_Pool_json:
  "list_all int64 [po_MaxSize p, po_MaxWaiters p, po_AcquireTimeout p, po_IdleTimeout p] \<Longrightarrow>
   dec_struct True Pool_fields (Pool_json p) old = Some p"
  by (simp add: dec_defs Pool_fields_def Pool_json_def dec_int_json dec_dur_json)

lemma dec_Health_json:
  "list_all int64 [h_Interval h, h_FailureThreshold h, h_BaseBackoff h, h_MaxBackoff h] \<Longrightarrow>
   dec_struct True Health_fields (Health_json h) old = Some h"
  by (simp add: dec_defs Health_fields_def Health_json_def dec_int_json dec_dur_json)

lemma dec_Fencing_json: "int64 (f_BoundedMs f) \<Longrightarrow> dec_struct True Fencing_fields (Fencing_json f) old = Some f"
  by (simp add: dec_defs Fencing_fields_def Fencing_json_def dec_int_json)

lemma dec_Observability_json: "dec_struct True Observability_fields (Observability_json ob) old = Some ob"
  by (simp add: dec_defs Observability_fields_def Observability_json_def)

lemma dec_Routing_json: "dec_struct True Routing_fields (JObj [(''policy'', JStr p)]) old = Some p"
  by (simp add: dec_defs Routing_fields_def)

lemma dec_elems_all: "(\<And>x old. d (f x) old = Some x) \<Longrightarrow> dec_elems d zero (map f xs) old = Some xs"
  by (induction xs arbitrary: old) auto

lemma dec_slice_all: "(\<And>x old. d (f x) old = Some x) \<Longrightarrow> dec_slice d zero (JArr (map f xs)) ([], []) = Some (xs, [])"
  by (simp add: dec_slice_def dec_elems_all)

lemma dec_Config:
  assumes "go_config c"
  shows "dec_struct True Config_fields (JObj (Config_members c)) \<lparr>dc_cfg = zero_Config, dc_replicas = [], dc_users = []\<rparr> =
     Some \<lparr>dc_cfg = c, dc_replicas = [], dc_users = []\<rparr>"
proof -
  have s: "dec_slice dec_string [] (JArr (map JStr xs)) ([], []) = Some (xs, [])" for xs
    by (rule dec_slice_all) (simp add: dec_string_def)
  have u: "dec_slice (dec_struct True User_fields) zero_User (JArr (map User_json us)) ([], []) = Some (us, [])" for us
    by (rule dec_slice_all) (simp add: dec_User_json)
  have i: "dec_struct True Pool_fields (Pool_json (c_Pool c)) old1 = Some (c_Pool c)"
    "dec_struct True Health_fields (Health_json (c_Health c)) old2 = Some (c_Health c)"
    "dec_struct True Fencing_fields (Fencing_json (c_Fencing c)) old3 = Some (c_Fencing c)" for old1 old2 old3
    using assms by (simp_all add: go_config_def dec_Pool_json dec_Health_json dec_Fencing_json)
  have e: "dec_struct True Config_fields (JObj ms) r = dec_members True Config_fields ms r" for ms r by (simp add: dec_struct_def)
  show ?thesis
    by (simp add: e) (simp add: Config_members_def Config_fields_def find_field_def cfg_field_def field_def
        s u i dec_Observability_json dec_Routing_json dec_string_def [of "JStr _"] zero_Config_def)
qed

lemma valid_Itoa: "valid_utf8 (Itoa_nat n)"
  using Itoa_nat_digits [of _ n] by (intro valid_utf8_digits) (fastforce simp: list_all_iff)

lemma valid_fmtFrac: "valid_utf8 buf \<Longrightarrow> valid_utf8 (fst (fmtFrac i v pr buf))"
  by (induction i v pr buf rule: fmtFrac.induct) (auto simp: valid_utf8_ascii Let_def split: if_splits)

lemma valid_Duration: "valid_utf8 (Duration_String d)"
proof -
  have m: "valid_utf8 (micro @ ''s'')" by code_simp
  have "valid_utf8 (fmtDuration u)" for u
    using m valid_fmtFrac [of "[]"]
    by (auto simp: fmtDuration_def Let_def valid_utf8_ascii split: prod.splits
        intro!: valid_utf8_append valid_Itoa; (metis fst_conv valid_utf8_Nil)?)
  then show ?thesis by (simp add: Duration_String_def valid_utf8_ascii)
qed

lemma Config_plain: "go_config c \<Longrightarrow> plain_json (JObj (Config_members c))"
  by (auto simp: go_config_def Config_members_def User_json_def Pool_json_def Health_json_def Fencing_json_def
      Observability_json_def int_json_def dur_json_def Duration_MarshalJSON_def valid_Duration list_all_iff
      intro!: valid_utf8_digits)

lemma foldr_max_le: "\<forall>x \<in> set xs. x \<le> n \<Longrightarrow> foldr max xs 0 \<le> (n :: nat)"
  by (induction xs) auto

lemma Config_depth: "json_depth (JObj (Config_members c)) \<le> maxNestingDepth"
proof -
  have "foldr max (map json_depth (map User_json us)) 0 \<le> 3" for us
    by (rule foldr_max_le) (auto simp: User_json_def)
  moreover have "foldr max (map json_depth (map JStr xs)) 0 \<le> 0" for xs
    by (rule foldr_max_le) auto
  ultimately have "json_depth (JObj (Config_members c)) \<le> 5"
    by (auto simp: Config_members_def Pool_json_def Health_json_def Fencing_json_def Observability_json_def int_json_def
        dur_json_def Duration_MarshalJSON_def comp_def)
  then show ?thesis by (simp add: maxNestingDepth_def)
qed


lemma Decode_text: "go_config c \<Longrightarrow> Decode (config_text c @ rest) = Inr c"
  using json_decode_object [OF Config_plain Config_depth, of c rest] dec_Config [of c]
  by (simp add: Decode_def config_text_def)

lemma dec_members_unknown: "(k, v) \<in> set ms \<Longrightarrow> find_field fs k = None \<Longrightarrow> dec_members True fs ms r = None"
  by (induction True fs ms r rule: dec_members.induct) (auto split: option.splits)


subsection \<open>Properties\<close>

text \<open>
  C28. Every configuration can be written as a file: for whatever values the struct can hold, if the strings are UTF-8, the
  text with all fields decodes to exactly that configuration, durations to the nanosecond, so the program starts as if
  it were given the struct. What follows the object in the file has no effect, and is not an error.
\<close>

theorem config_file_roundtrip:
  assumes "go_config c"
  shows "Decode (config_text c @ rest) = Inr c \<and> Load_file (Some (config_text c @ rest)) = Load (Inr c)"
  by (simp add: Load_file_def decode_file_def Decode_text [OF assms])

theorem config_file_roundtrip_witness:
  "Decode (config_text (wit_config\<lparr>c_Health := (c_Health wit_config)\<lparr>h_Interval := 1500\<rparr>\<rparr>) @ ''}'') =
     Inr (wit_config\<lparr>c_Health := (c_Health wit_config)\<lparr>h_Interval := 1500\<rparr>\<rparr>)"
proof (rule config_file_roundtrip [THEN conjunct1])
  show "go_config (wit_config\<lparr>c_Health := (c_Health wit_config)\<lparr>h_Interval := 1500\<rparr>\<rparr>)" by code_simp
qed

text \<open>
  A setting that has no effect is refused: a file whose object has a key that is no field, not even up to case, does not
  load, whatever else it holds.
\<close>

theorem unknown_field_refused:
  assumes "plain_json (JObj ms)" "json_depth (JObj ms) \<le> maxNestingDepth" "(k, v) \<in> set ms" "find_field Config_fields k = None"
  shows "Load_file (Some (print_json (JObj ms) @ rest)) = Inl (ReadErr ''parse'')"
  using json_decode_object [OF assms(1,2), of rest] dec_members_unknown [OF assms(3,4)]
  by (simp add: Load_file_def decode_file_def Decode_def Load_def dec_struct_def)

theorem unknown_field_refused_witness:
  "Load_file (Some (print_json (JObj [(''listen'', JStr '':1''), (''lisen'', JStr '':2'')]) @ [])) = Inl (ReadErr ''parse'')"
proof (rule unknown_field_refused)
  show "(''lisen'', JStr '':2'') \<in> set [(''listen'', JStr '':1''), (''lisen'', JStr '':2'')]" by simp
  show "find_field Config_fields ''lisen'' = None" by code_simp
qed (simp_all add: maxNestingDepth_def valid_utf8_ascii)

end
