(* ===== verification/ProxyServer.thy ===== *)
theory ProxyServer
  imports Serve Metrics ConfigFile
begin

text \<open>
  \<^verbatim>\<open>internal/proxy/proxy.go\<close>, the server that accepts clients and drains them at shutdown, and the wiring
  of \<^verbatim>\<open>cmd/pgpilot/main.go\<close>: its flags, which manager, registry, policy, metrics endpoint and server a
  configuration gives, and what a reload changes. Binding an address is a parameter, the HTTP server behind
  the metrics endpoint is the paths it serves, and signals are the cancellation of the root context.
\<close>


subsection \<open>The server\<close>

definition resolvePolicy :: "Policy option \<Rightarrow> Config option \<Rightarrow> Policy" where
  "resolvePolicy given users =
     (case given of
        Some p \<Rightarrow> p
      | None \<Rightarrow>
          let name = (case users of
                        Some c \<Rightarrow> if c_Policy c \<noteq> [] then c_Policy c else PolicyLeastInFlight
                      | None \<Rightarrow> PolicyLeastInFlight)
          in case router_New name of None \<Rightarrow> PLeastInFlight NewLeastInFlight | Some p \<Rightarrow> p)"

text \<open>
  \<^verbatim>\<open>Config\<close> and \<^verbatim>\<open>Server\<close>, without the logger. A pointer or interface that may be nil is an option; the listener is the address it is bound to.
\<close>

record proxy_Config =
  px_ListenAddr :: string
  px_Users :: "Config option"
  px_Manager :: Manager
  px_Registry :: "Registry option"
  px_Policy :: "Policy option"
  px_Metrics :: "Metrics option"

record proxy_Server =
  sv_cfg :: proxy_Config
  sv_policy :: Policy
  sv_metrics :: Metrics
  sv_sessions :: nat
  sv_listener :: "string option"

definition Server_New :: "proxy_Config \<Rightarrow> proxy_Server" where
  "Server_New cfg =
     (let m = (case px_Metrics cfg of None \<Rightarrow> Metrics_New | Some m \<Rightarrow> m)
      in \<lparr>sv_cfg = cfg, sv_policy = resolvePolicy (px_Policy cfg) (px_Users cfg), sv_metrics = m, sv_sessions = 0,
          sv_listener = None\<rparr>)"

text \<open>\<open>net\<close> is \<^verbatim>\<open>net.Listen\<close>: the address that was bound, or an error.\<close>

definition Server_Listen :: "(string \<Rightarrow> string + string) \<Rightarrow> proxy_Server \<Rightarrow> (string \<times> string) + string \<times> proxy_Server" where
  "Server_Listen net s =
     (case net (px_ListenAddr (sv_cfg s)) of
        Inl e \<Rightarrow> Inl (px_ListenAddr (sv_cfg s), e)
      | Inr addr \<Rightarrow> Inr (addr, s\<lparr>sv_listener := Some addr\<rparr>))"

definition Server_Addr :: "proxy_Server \<Rightarrow> string option" where
  "Server_Addr s = (case sv_listener s of None \<Rightarrow> None | Some addr \<Rightarrow> Some addr)"

text \<open>
  \<^verbatim>\<open>Serve\<close> as a transition system: the accept loop, the goroutine that closes the listener, and one
  goroutine per client. \<open>sr_starting\<close> counts the goroutines that \<^verbatim>\<open>Serve\<close> has added to the wait group and
  that have not entered \<^verbatim>\<open>handle\<close> yet, \<open>sr_running\<close> lists the sessions in progress by their number.
\<close>

datatype accept_loop = Accepting | Draining | ServeReturned

record server_state =
  sr_ctxDone :: bool
  sr_listening :: bool
  sr_loop :: accept_loop
  sr_sessions :: nat
  sr_starting :: nat
  sr_running :: "nat list"
  sr_metrics :: Metrics

datatype server_event =
  SvAccept | SvAcceptErr | SvHandle | SvEnd nat | SvCancel | SvCloseListener | SvReturn

text \<open>\<^verbatim>\<open>handle\<close>: the session's number and the opened counter at its start, the closed counter at its end.\<close>

definition handle_start :: "server_state \<Rightarrow> server_state" where
  "handle_start s =
     (let sid = sr_sessions s + 1
      in s\<lparr>sr_sessions := sid, sr_starting := sr_starting s - 1, sr_running := sr_running s @ [sid],
           sr_metrics := SessionOpened (sr_metrics s)\<rparr>)"

definition handle_end :: "nat \<Rightarrow> server_state \<Rightarrow> server_state" where
  "handle_end sid s = s\<lparr>sr_running := remove1 sid (sr_running s), sr_metrics := SessionClosed (sr_metrics s)\<rparr>"

fun serve_exec :: "server_event \<Rightarrow> server_state \<Rightarrow> server_state option" where
  "serve_exec SvAccept s =
     (if sr_loop s = Accepting \<and> sr_listening s then Some (s\<lparr>sr_starting := sr_starting s + 1\<rparr>) else None)"
| "serve_exec SvAcceptErr s =
     (if sr_loop s = Accepting then Some (if sr_ctxDone s then s\<lparr>sr_loop := Draining\<rparr> else s) else None)"
| "serve_exec SvHandle s = (if 0 < sr_starting s then Some (handle_start s) else None)"
| "serve_exec (SvEnd sid) s = (if sid \<in> set (sr_running s) then Some (handle_end sid s) else None)"
| "serve_exec SvCancel s = Some (s\<lparr>sr_ctxDone := True\<rparr>)"
| "serve_exec SvCloseListener s = (if sr_ctxDone s \<and> sr_listening s then Some (s\<lparr>sr_listening := False\<rparr>) else None)"
| "serve_exec SvReturn s =
     (if sr_loop s = Draining \<and> sr_starting s = 0 \<and> sr_running s = [] then Some (s\<lparr>sr_loop := ServeReturned\<rparr>) else None)"

text \<open>
  \<^verbatim>\<open>Serve\<close> needs a listener; \<open>None\<close> is its error before \<^verbatim>\<open>Listen\<close>. \<open>serve_init\<close> is the state it starts in when the
  server is new: no session was numbered and none counted.
\<close>

definition serve_begin :: "proxy_Server \<Rightarrow> server_state option" where
  "serve_begin s =
     (case sv_listener s of
        None \<Rightarrow> None
      | Some _ \<Rightarrow>
          Some \<lparr>sr_ctxDone = False, sr_listening = True, sr_loop = Accepting, sr_sessions = sv_sessions s, sr_starting = 0,
                sr_running = [], sr_metrics = sv_metrics s\<rparr>)"

definition serve_init :: server_state where
  "serve_init =
     \<lparr>sr_ctxDone = False, sr_listening = True, sr_loop = Accepting, sr_sessions = 0, sr_starting = 0, sr_running = [],
      sr_metrics = Metrics_New\<rparr>"


subsection \<open>The wiring\<close>

definition backendsFrom :: "Config \<Rightarrow> Backend list" where
  "backendsFrom cfg =
     \<lparr>b_name = ''primary'', b_addr = c_Primary cfg\<rparr>
     # map (\<lambda>(i, addr). \<lparr>b_name = ''replica'' @ Itoa (int i + 1), b_addr = addr\<rparr>)
           (zip [0..<length (c_Replicas cfg)] (c_Replicas cfg))"

definition users_map :: "User list \<Rightarrow> (string \<rightharpoonup> string)" where
  "users_map us = foldl (\<lambda>m u. m(u_Name u \<mapsto> u_Password u)) Map.empty us"

record system =
  sy_cfg :: Config
  sy_mgr :: Manager
  sy_pollUser :: User
  sy_reg :: Registry
  sy_policy :: Policy

datatype run_err =
  RunFlag flag_err | RunLevel string | RunConfig config_err | RunNoUser | RunStart | RunPolicy | RunListen "string \<times> string"

text \<open>
  \<^verbatim>\<open>run\<close> up to the start of the server: \<open>RunNoUser\<close> is the panic of indexing an empty user list, \<open>RunStart\<close>
  a registry that cannot start. \<open>n\<close> bounds the threads of a pool, \<open>ctx\<close> names the root context.
\<close>

definition run_setup :: "nat \<Rightarrow> nat \<Rightarrow> string + Config \<Rightarrow> run_err + system" where
  "run_setup n ctx decoded =
     (case Load decoded of
        Inl e \<Rightarrow> Inl (RunConfig e)
      | Inr cfg \<Rightarrow>
          let mgr = NewManager (c_Primary cfg) (users_map (c_Users cfg))
                      \<lparr>mpc_MaxSize = po_MaxSize (c_Pool cfg), mpc_MaxWaiters = po_MaxWaiters (c_Pool cfg),
                       mpc_AcquireTimeout = po_AcquireTimeout (c_Pool cfg),
                       mpc_IdleTimeout = po_IdleTimeout (c_Pool cfg)\<rparr> n
          in case c_Users cfg of
               [] \<Rightarrow> Inl RunNoUser
             | pollUser # _ \<Rightarrow>
                 (case Registry_Start (Registry_New \<lparr>rc_Interval = h_Interval (c_Health cfg),
                         rc_FailureThreshold = h_FailureThreshold (c_Health cfg),
                         rc_BaseBackoff = h_BaseBackoff (c_Health cfg), rc_MaxBackoff = h_MaxBackoff (c_Health cfg)\<rparr>)
                         ctx (backendsFrom cfg) of
                    None \<Rightarrow> Inl RunStart
                  | Some reg \<Rightarrow>
                      (case router_New (c_Policy cfg) of
                         None \<Rightarrow> Inl RunPolicy
                       | Some p \<Rightarrow> Inr \<lparr>sy_cfg = cfg, sy_mgr = mgr, sy_pollUser = pollUser, sy_reg = reg, sy_policy = p\<rparr>)))"

text \<open>
  \<^verbatim>\<open>serveObservability\<close>: the address and the paths of the endpoint, \<open>None\<close> when it is disabled.
\<close>

definition serveObservability :: "Observability \<Rightarrow> (string \<times> string list) option" where
  "serveObservability ob =
     (if o_MetricsAddr ob = [] then None
      else Some (o_MetricsAddr ob,
             ''/metrics'' #
             (if o_Pprof ob
              then [''/debug/pprof/'', ''/debug/pprof/cmdline'', ''/debug/pprof/profile'', ''/debug/pprof/symbol'',
                    ''/debug/pprof/trace'']
              else [])))"

record flags =
  fl_config :: string
  fl_logLevel :: string
  fl_version :: bool

definition default_flags :: flags where
  "default_flags = \<lparr>fl_config = ''pgpilot.json'', fl_logLevel = ''info'', fl_version = False\<rparr>"

definition pgpilot_flags :: "flags flag_set" where
  "pgpilot_flags =
     [''config'' \<mapsto> (False, \<lambda>v fl. Some (fl\<lparr>fl_config := v\<rparr>)),
      ''log-level'' \<mapsto> (False, \<lambda>v fl. Some (fl\<lparr>fl_logLevel := v\<rparr>)),
      ''version'' \<mapsto> (True, \<lambda>v fl. map_option (\<lambda>b. fl\<lparr>fl_version := b\<rparr>) (ParseBool v))]"

text \<open>
  \<^verbatim>\<open>run\<close> up to the call of \<^verbatim>\<open>Serve\<close>. It returns at once after the help text and after printing the version; else
  the system is set up, the endpoint started, and the server built on the parts of the system and bound.
  \<open>files path\<close> is the contents of the file, \<open>None\<close> when it cannot be read.
\<close>

datatype run_out = RunHelp | RunVersion | RunServing system "(string \<times> string list) option" proxy_Server

definition run_start ::
  "nat \<Rightarrow> nat \<Rightarrow> (string \<Rightarrow> string option) \<Rightarrow> (string \<Rightarrow> string + string) \<Rightarrow> string list \<Rightarrow> run_err + run_out"
where
  "run_start n ctx files net args =
     (case flag_parse pgpilot_flags args default_flags of
        Inl FlagHelp \<Rightarrow> Inr RunHelp
      | Inl e \<Rightarrow> Inl (RunFlag e)
      | Inr (fl, _) \<Rightarrow>
          if fl_version fl then Inr RunVersion
          else case Level_UnmarshalText (fl_logLevel fl) of
                 None \<Rightarrow> Inl (RunLevel (fl_logLevel fl))
               | Some _ \<Rightarrow>
                   (case run_setup n ctx (decode_file (files (fl_config fl))) of
                      Inl e \<Rightarrow> Inl e
                    | Inr sys \<Rightarrow>
                        let m = Metrics_New;
                            endpoint = serveObservability (c_Observability (sy_cfg sys));
                            srv = Server_New \<lparr>px_ListenAddr = c_Listen (sy_cfg sys), px_Users = Some (sy_cfg sys),
                                    px_Manager = sy_mgr sys, px_Registry = Some (sy_reg sys), px_Policy = Some (sy_policy sys),
                                    px_Metrics = Some m\<rparr>
                        in case Server_Listen net srv of
                             Inl e \<Rightarrow> Inl (RunListen e)
                           | Inr (addr, srv) \<Rightarrow> Inr (RunServing sys endpoint srv)))"

text \<open>
  The end of \<^verbatim>\<open>run\<close>, after \<^verbatim>\<open>Serve\<close> has returned: it waits for the pollers, and the deferred \<^verbatim>\<open>Close\<close> of the manager
  hands over the pools to be closed. \<open>None\<close> is a wait without end.
\<close>

definition run_end :: "bool \<Rightarrow> poolKey list \<Rightarrow> system \<Rightarrow> (pool_world list \<times> system) option" where
  "run_end ctxDone keys sys =
     (case Registry_Wait ctxDone (sy_reg sys) of
        None \<Rightarrow> None
      | Some reg \<Rightarrow>
          (case Manager_Close (sy_mgr sys) keys of (pools, mgr) \<Rightarrow> Some (pools, sys\<lparr>sy_reg := reg, sy_mgr := mgr\<rparr>)))"

text \<open>\<^verbatim>\<open>reloadOnHUP\<close>, one signal: a configuration that does not load changes nothing.\<close>

definition reload :: "string + Config \<Rightarrow> system \<Rightarrow> system option" where
  "reload decoded sys =
     (case Load decoded of
        Inl _ \<Rightarrow> Some sys
      | Inr cfg \<Rightarrow> map_option (\<lambda>r. sys\<lparr>sy_reg := r\<rparr>) (Reconfigure (sy_reg sys) (backendsFrom cfg)))"


subsection \<open>What the server keeps\<close>

definition server_inv :: "server_state \<Rightarrow> bool" where
  "server_inv s \<longleftrightarrow>
     distinct (sr_running s) \<and> set (sr_running s) \<subseteq> {1..sr_sessions s} \<and>
     m_sessionsOpened (sr_metrics s) = sr_sessions s \<and>
     m_sessionsClosed (sr_metrics s) + length (sr_running s) = sr_sessions s \<and>
     m_sessionsActive (sr_metrics s) = int (length (sr_running s)) \<and>
     (sr_loop s \<noteq> Accepting \<longrightarrow> sr_ctxDone s) \<and>
     (sr_loop s = ServeReturned \<longrightarrow> sr_starting s = 0 \<and> sr_running s = [])"

lemma server_inv_start: "server_inv s \<Longrightarrow> 0 < sr_starting s \<Longrightarrow> server_inv (handle_start s)"
  by (auto simp: server_inv_def handle_start_def SessionOpened_def Let_def)

lemma server_inv_end:
  assumes "server_inv s" "sid \<in> set (sr_running s)"
  shows "server_inv (handle_end sid s)"
proof -
  obtain n where n: "length (sr_running s) = Suc n" using assms(2) by (cases "sr_running s") auto
  have "set (remove1 sid (sr_running s)) \<subseteq> set (sr_running s)" by (rule set_remove1_subset)
  with assms n show ?thesis
    by (auto simp: server_inv_def handle_end_def SessionClosed_def length_remove1)
qed

lemma server_inv_step: "server_inv s \<Longrightarrow> serve_exec e s = Some s' \<Longrightarrow> server_inv s'"
proof (induction e)
  case SvHandle
  then show ?case by (auto split: if_splits intro: server_inv_start)
next
  case (SvEnd sid)
  then show ?case by (auto split: if_splits intro: server_inv_end)
qed (auto simp: server_inv_def split: if_splits)

interpretation sv: step_invariant serve_exec serve_init server_inv
  by unfold_locales (simp add: server_inv_def serve_init_def Metrics_New_def, rule server_inv_step)

lemma drains:
  "sr_loop s = Draining \<Longrightarrow> \<exists>es s'. run_steps serve_exec es s = Some s' \<and> sr_loop s' = ServeReturned \<and>
     length es = 2 * sr_starting s + length (sr_running s) + 1"
proof (induction "2 * sr_starting s + length (sr_running s)" arbitrary: s rule: less_induct)
  case less
  consider (start) "0 < sr_starting s" | (run) "sr_starting s = 0" "sr_running s \<noteq> []" | (idle) "sr_starting s = 0" "sr_running s = []"
    by auto
  then show ?case
  proof cases
    case start
    let ?s = "handle_start s"
    have k: "sr_loop ?s = Draining" "2 * sr_starting ?s + length (sr_running ?s) + 1 = 2 * sr_starting s + length (sr_running s)"
      using less.prems start by (simp_all add: handle_start_def Let_def)
    then obtain es s' where "run_steps serve_exec es ?s = Some s'" "sr_loop s' = ServeReturned"
      "length es = 2 * sr_starting ?s + length (sr_running ?s) + 1" using less.hyps [of ?s] by auto
    with start k(2) show ?thesis by (intro exI [of _ "SvHandle # es"] exI [of _ s']) simp
  next
    case run
    then obtain sid sids where sids: "sr_running s = sid # sids" by (cases "sr_running s") auto
    let ?s = "handle_end sid s"
    have k: "sr_loop ?s = Draining" "2 * sr_starting ?s + length (sr_running ?s) + 1 = 2 * sr_starting s + length (sr_running s)"
      using less.prems sids by (simp_all add: handle_end_def)
    then obtain es s' where "run_steps serve_exec es ?s = Some s'" "sr_loop s' = ServeReturned"
      "length es = 2 * sr_starting ?s + length (sr_running ?s) + 1" using less.hyps [of ?s] by auto
    with sids k(2) show ?thesis by (intro exI [of _ "SvEnd sid # es"] exI [of _ s']) simp
  next
    case idle
    with less.prems show ?thesis by (intro exI [of _ "[SvReturn]"]) simp
  qed
qed


lemma Serve_can_stop:
  assumes "reach serve_exec serve_init s" "sr_loop s \<noteq> ServeReturned"
  shows "\<exists>es s'. run_steps serve_exec es s = Some s' \<and> sr_loop s' = ServeReturned \<and>
           length es \<le> 2 * sr_starting s + length (sr_running s) + 3"
proof (cases "sr_loop s")
  case Accepting
  let ?s = "s\<lparr>sr_ctxDone := True, sr_loop := Draining\<rparr>"
  from drains [of ?s] obtain es s' where "run_steps serve_exec es ?s = Some s'" "sr_loop s' = ServeReturned"
    "length es = 2 * sr_starting s + length (sr_running s) + 1" by auto
  with Accepting show ?thesis by (intro exI [of _ "SvCancel # SvAcceptErr # es"] exI [of _ s']) simp
next
  case Draining
  from drains [OF this] show ?thesis by (elim exE conjE) (intro exI conjI, assumption, assumption, simp)
qed (use assms(2) in simp)


subsection \<open>What the wiring gives\<close>

lemma find_user_None: "name \<notin> u_Name ` set us \<Longrightarrow> find_user us name = None"
  by (induction us) auto

lemma users_map_fold:
  "distinct (map u_Name us) \<Longrightarrow> foldl (\<lambda>m u. m(u_Name u \<mapsto> u_Password u)) m us name =
     (case find_user us name of None \<Rightarrow> m name | Some u \<Rightarrow> Some (u_Password u))"
  by (induction us arbitrary: m) (auto simp: find_user_None split: option.split)

lemma users_map_find: "distinct (map u_Name us) \<Longrightarrow> users_map us name = map_option u_Password (find_user us name)"
  by (simp add: users_map_def users_map_fold split: option.split)

lemma Load_valid:
  assumes "Load decoded = Inr cfg"
  shows "distinct (map u_Name (c_Users cfg))" "c_Users cfg \<noteq> []" "1 \<le> po_MaxSize (c_Pool cfg)"
    "\<exists>p. router_New (c_Policy cfg) = Some p"
proof -
  have v: "validate cfg = None"
    using assms by (auto simp: Load_def Let_def split: sum.splits option.splits)
  then have "check_users [] (c_Users cfg) = None" and u: "c_Users cfg \<noteq> []" and m: "1 \<le> po_MaxSize (c_Pool cfg)"
    and p: "c_Policy cfg \<in> {PolicyRoundRobin, PolicyLeastInFlight, PolicyScored}"
    by (auto simp: validate_def split: if_splits option.splits)
  then show "distinct (map u_Name (c_Users cfg))" using check_users_distinct by blast
  show "c_Users cfg \<noteq> []" "1 \<le> po_MaxSize (c_Pool cfg)" using u m by simp_all
  show "\<exists>p. router_New (c_Policy cfg) = Some p" using p by (auto simp: router_New_def)
qed

lemma run_setup_complete:
  assumes "Load decoded = Inr cfg"
  shows "\<exists>sys. run_setup n ctx decoded = Inr sys \<and> sy_cfg sys = cfg \<and> mg_primary (sy_mgr sys) = c_Primary cfg \<and>
           (\<forall>user. mg_users (sy_mgr sys) user = map_option u_Password (Config_User cfg user)) \<and>
           (\<forall>key u. Config_User cfg (k_user key) = Some u \<longrightarrow> (\<exists>w m'. poolFor (sy_mgr sys) key = (Inr w, m'))) \<and>
           map bs_addr (reg_backends (sy_reg sys)) = c_Primary cfg # c_Replicas cfg \<and>
           map snd (reg_pollers (sy_reg sys)) = c_Primary cfg # c_Replicas cfg \<and>
           router_New (c_Policy cfg) = Some (sy_policy sys)"
proof -
  note v = Load_valid [OF assms]
  obtain p where p: "router_New (c_Policy cfg) = Some p" using v(4) by blast
  obtain u us where u: "c_Users cfg = u # us" using v(2) by (cases "c_Users cfg") auto
  have m: "users_map (c_Users cfg) name = map_option u_Password (Config_User cfg name)" for name
    using users_map_find [OF v(1)] by (simp add: Config_User_def)
  have a: "map (b_addr \<circ> (\<lambda>(i, addr). \<lparr>b_name = ''replica'' @ Itoa (int i + 1), b_addr = addr\<rparr>))
      (zip [0..<length (c_Replicas cfg)] (c_Replicas cfg)) = c_Replicas cfg"
    by (simp add: comp_def case_prod_unfold)
  show ?thesis
    using assms p u m v(3) a
    by (auto simp: run_setup_def Let_def Registry_Start_def Registry_launch_def Registry_New_def NewManager_def poolFor_def
        pool_New_def pool_config_def backendsFrom_def launch_def comp_def case_prod_unfold split: option.splits)
qed

lemma run_start_setup:
  "run_start n ctx files net args = Inr (RunServing sys endpoint srv) \<Longrightarrow> \<exists>decoded. run_setup n ctx decoded = Inr sys"
  by (auto simp: run_start_def Let_def split: sum.splits flag_err.splits prod.splits if_splits option.splits)

lemma run_start_serves:
  "run_start n ctx files net args = Inr (RunServing sys endpoint srv) \<Longrightarrow> serve_begin srv = Some serve_init"
  by (auto simp: run_start_def Server_Listen_def Server_New_def serve_begin_def serve_init_def Let_def
      split: sum.splits flag_err.splits prod.splits if_splits option.splits)


text \<open>Without replicas in its configuration a session only ever talks to the primary.\<close>

definition primary_only :: "Config \<Rightarrow> session_state \<Rightarrow> bool" where
  "primary_only cfg s \<longleftrightarrow>
     list_all (\<lambda>e. case e of LAcquire a c \<Rightarrow> a = c_Primary cfg | LSend t a c full \<Rightarrow> a = c_Primary cfg | _ \<Rightarrow> True) (ss_log s)"

lemma primary_only_calls [simp]:
  "primary_only cfg (tick s) = primary_only cfg s"
  "primary_only cfg (call_discard a c s) = primary_only cfg s"
  "primary_only cfg (call_release a c s) = primary_only cfg s"
  "primary_only cfg (log_ev (LReset c) s) = primary_only cfg s"
  "primary_only cfg (log_ev (LRelay c) s) = primary_only cfg s"
  "primary_only cfg (log_ev (LReject x) s) = primary_only cfg s"
  "primary_only cfg (log_ev (LAcquire (c_Primary cfg) c) s) = primary_only cfg s"
  "primary_only cfg (log_ev (LSend t (c_Primary cfg) c full) s) = primary_only cfg s"
  by (simp_all add: primary_only_def call_discard_def call_release_def)

lemma primary_only_finish [simp]:
  "primary_only cfg (finishBackend cfg env c clean s) = primary_only cfg s"
  "primary_only cfg (releaseBetweenTransactions cfg env c s) = primary_only cfg s"
  by (simp_all add: finishBackend_def releaseBetweenTransactions_def)

lemma primary_only_message:
  "primary_only cfg (snd (tx_message cfg env ty full v s)) = primary_only cfg s"
  by (simp add: tx_message_def tx_extended_def tx_query_def call_acquire_def call_write_def call_relay_def Let_def
      split: option.splits sum.splits bool.splits)

lemma primary_only_loop:
  "primary_only cfg (snd (serveTransaction_loop cfg env msgs v s)) = primary_only cfg s"
proof (induction msgs arbitrary: v s)
  case (Cons m msgs)
  obtain ty full where m: "m = (ty, full)" by (cases m)
  obtain r s1 where r: "tx_message cfg env ty full v s = (r, s1)" by fastforce
  with primary_only_message [of cfg env ty full v s] Cons.IH m show ?case
    by (auto split: tx_result.splits)
qed simp

lemma primary_only_transaction: "primary_only cfg (serveTransaction cfg env c msgs s) = primary_only cfg s"
  using primary_only_loop [of cfg env msgs "\<lparr>tv_held = Some c, tv_pinned = False, tv_clean = False\<rparr>" s]
  by (auto simp: serveTransaction_def split: prod.splits option.splits)

lemma primary_only_serve:
  assumes "serve cfg envs se w r cc msgs s = Some (e, cc', s')" "c_Replicas cfg = []" "primary_only cfg s"
  shows "primary_only cfg s'"
proof (cases "s' = s")
  case False
  with assms(1) serve_cases [of cfg se w r cc msgs s] obtain user d u where
    "serve_user cfg (envs user d) se u cc msgs s = Some (e, cc', s')" by (metis Pair_inject option.inject)
  with assms(2,3) show ?thesis
    by (auto simp: serve_user_def serve_mode_def session_routing_def call_acquire_def primary_only_transaction
        split: prod.splits option.splits sum.splits if_splits)
qed (use assms in simp)


subsection \<open>Properties\<close>

text \<open>
  C14. Shutdown is orderly: in every state any interleaving of clients, the accept loop and cancellation
  can reach, the gauge of active sessions is the number of sessions in progress, sessions are numbered
  without repetition, and when \<^verbatim>\<open>Serve\<close> has returned the context is done, no session is starting or in
  progress, and as many sessions were closed as were opened.
\<close>

theorem Serve_drains:
  assumes "reach serve_exec serve_init s"
  shows "m_sessionsActive (sr_metrics s) = int (length (sr_running s)) \<and> distinct (sr_running s) \<and>
         (sr_loop s = ServeReturned \<longrightarrow>
            sr_ctxDone s \<and> sr_starting s = 0 \<and> sr_running s = [] \<and>
            m_sessionsOpened (sr_metrics s) = m_sessionsClosed (sr_metrics s))"
  using sv.invar_reach [OF assms] by (auto simp: server_inv_def)

theorem Serve_drains_witness:
  "\<exists>s. run_steps serve_exec [SvAccept, SvHandle, SvCancel, SvAcceptErr, SvEnd 1, SvReturn] serve_init = Some s \<and>
     sr_loop s = ServeReturned \<and> m_sessionsOpened (sr_metrics s) = m_sessionsClosed (sr_metrics s)"
proof -
  obtain s where s: "run_steps serve_exec [SvAccept, SvHandle, SvCancel, SvAcceptErr, SvEnd 1, SvReturn] serve_init = Some s"
    "sr_loop s = ServeReturned"
    by (simp add: serve_init_def handle_start_def handle_end_def Let_def)
  from Serve_drains [OF reach_run [OF reach_init s(1)]] s show ?thesis by blast
qed

definition wit_system_cfg :: Config where
  "wit_system_cfg = applyDefaults wit_config"

lemma wit_system_loads: "Load (Inr wit_config) = Inr wit_system_cfg"
  by (simp add: wit_system_cfg_def Load_def wit_config_def applyDefaults_def validate_def ModeSession_def FenceStrict_def Let_def)

lemma wit_file: "decode_file (Some (config_text wit_config)) = Inr wit_config"
proof -
  have "go_config wit_config" by code_simp
  from Decode_text [OF this, of "[]"] show ?thesis by (simp add: decode_file_def)
qed

lemma wit_file_loads: "Load_file (Some (config_text wit_config)) = Inr wit_system_cfg"
  by (simp add: Load_file_def wit_file wit_system_loads)

lemma pgpilot_flag_names:
  "pgpilot_flags ''config'' = Some (False, \<lambda>v fl. Some (fl\<lparr>fl_config := v\<rparr>))"
  "pgpilot_flags ''log-level'' = Some (False, \<lambda>v fl. Some (fl\<lparr>fl_logLevel := v\<rparr>))"
  "plain_name ''config''" "plain_name ''log-level''"
  by (simp_all add: pgpilot_flags_def plain_name_def)

lemma pgpilot_flag_forms:
  "flag_parse pgpilot_flags (''-config'' # path # args) fl = flag_parse pgpilot_flags args (fl\<lparr>fl_config := path\<rparr>)"
  "flag_parse pgpilot_flags (flag_arg ''log-level'' l # args) fl = flag_parse pgpilot_flags args (fl\<lparr>fl_logLevel := l\<rparr>)"
proof -
  note [simp] = pgpilot_flag_names flag_parse_arg [where fs = pgpilot_flags, OF pgpilot_flag_names(3,1)]
    flag_parse_arg [where fs = pgpilot_flags, OF pgpilot_flag_names(4,2)]
  show "flag_parse pgpilot_flags (''-config'' # path # args) fl = flag_parse pgpilot_flags args (fl\<lparr>fl_config := path\<rparr>)"
    using flag_parse_next [where fs = pgpilot_flags, OF pgpilot_flag_names(3,1), of path args fl] by simp
  show "flag_parse pgpilot_flags (flag_arg ''log-level'' l # args) fl = flag_parse pgpilot_flags args (fl\<lparr>fl_logLevel := l\<rparr>)"
    by simp
qed

lemma wit_run_flags:
  "flag_parse pgpilot_flags [''-config'', ''a.json'', flag_arg ''log-level'' ''warn''] default_flags =
     Inr (\<lparr>fl_config = ''a.json'', fl_logLevel = ''warn'', fl_version = False\<rparr>, [])"
  by (simp add: pgpilot_flag_forms default_flags_def)

lemma wit_run_level: "Level_UnmarshalText ''warn'' = Some 4"
  by code_simp

lemma wit_no_endpoint: "serveObservability (c_Observability wit_system_cfg) = None"
  by code_simp

text \<open>
  C22. A configuration that loads gives a program that serves: with flags that parse, do not ask for the version
  and name a valid log level, no step of \<^verbatim>\<open>run\<close> fails after \<^verbatim>\<open>Load\<close> except binding the address, whose error it
  returns. Else the server is bound, ready to accept with nothing counted yet, and works on the parts of the system: the manager knows exactly the users the
  sessions authenticate, with the same passwords, and makes a pool for each of them whatever the database
  and the address; the registry has a state and a running poller for the primary first and each replica in
  order; the policy is the one named; the metrics are served where, and only if, an address is configured.
\<close>

theorem run_start_complete:
  assumes "flag_parse pgpilot_flags args default_flags = Inr (fl, rest)" "\<not> fl_version fl"
    and "Level_UnmarshalText (fl_logLevel fl) = Some level" "Load_file (files (fl_config fl)) = Inr cfg"
  shows "case net (c_Listen cfg) of
           Inl e \<Rightarrow> run_start n ctx files net args = Inl (RunListen (c_Listen cfg, e))
         | Inr addr \<Rightarrow>
             \<exists>sys srv. run_start n ctx files net args = Inr (RunServing sys (serveObservability (c_Observability cfg)) srv) \<and>
               Server_Addr srv = Some addr \<and> serve_begin srv = Some serve_init \<and> sy_cfg sys = cfg \<and>
               px_Users (sv_cfg srv) = Some cfg \<and> px_Manager (sv_cfg srv) = sy_mgr sys \<and>
               px_Registry (sv_cfg srv) = Some (sy_reg sys) \<and> router_New (c_Policy cfg) = Some (sv_policy srv) \<and>
               mg_primary (sy_mgr sys) = c_Primary cfg \<and>
               (\<forall>user. mg_users (sy_mgr sys) user = map_option u_Password (Config_User cfg user)) \<and>
               (\<forall>key u. Config_User cfg (k_user key) = Some u \<longrightarrow> (\<exists>w m'. poolFor (sy_mgr sys) key = (Inr w, m'))) \<and>
               map bs_addr (reg_backends (sy_reg sys)) = c_Primary cfg # c_Replicas cfg \<and>
               map snd (reg_pollers (sy_reg sys)) = c_Primary cfg # c_Replicas cfg"
proof -
  from run_setup_complete [OF assms(4) [unfolded Load_file_def], of n ctx] obtain sys where sys: "run_setup n ctx (decode_file (files (fl_config fl))) = Inr sys"
    "sy_cfg sys = cfg" "router_New (c_Policy cfg) = Some (sy_policy sys)" "mg_primary (sy_mgr sys) = c_Primary cfg"
    "\<forall>user. mg_users (sy_mgr sys) user = map_option u_Password (Config_User cfg user)"
    "\<forall>key u. Config_User cfg (k_user key) = Some u \<longrightarrow> (\<exists>w m'. poolFor (sy_mgr sys) key = (Inr w, m'))"
    "map bs_addr (reg_backends (sy_reg sys)) = c_Primary cfg # c_Replicas cfg"
    "map snd (reg_pollers (sy_reg sys)) = c_Primary cfg # c_Replicas cfg" by auto
  note run = run_start_def Server_Listen_def Server_New_def resolvePolicy_def Let_def
  show ?thesis
  proof (cases "net (c_Listen cfg)")
    case (Inl e)
    with assms sys(1,2) show ?thesis by (simp add: run)
  next
    case (Inr addr)
    with assms sys show ?thesis by (simp add: run Server_Addr_def serve_begin_def serve_init_def)
  qed
qed

theorem run_start_complete_witness:
  "\<exists>sys srv. run_start 4 0 (\<lambda>path. Some (config_text wit_config)) (\<lambda>a. Inr ''[::]:6432'') [''-config'', ''a.json'', flag_arg ''log-level'' ''warn''] =
       Inr (RunServing sys None srv) \<and>
     Server_Addr srv = Some ''[::]:6432'' \<and> mg_users (sy_mgr sys) ''app'' = Some ''pw'' \<and>
     map bs_addr (reg_backends (sy_reg sys)) = [''p:5432'', ''r1:5432''] \<and>
     map snd (reg_pollers (sy_reg sys)) = [''p:5432'', ''r1:5432'']"
proof -
  have c: "Config_User wit_system_cfg ''app'' = Some \<lparr>u_Name = ''app'', u_Password = ''pw''\<rparr>"
    "c_Primary wit_system_cfg = ''p:5432''" "c_Replicas wit_system_cfg = [''r1:5432'']"
    by (simp_all add: Config_User_def wit_system_cfg_def applyDefaults_keeps) (simp_all add: wit_config_def)
  from run_start_complete [OF wit_run_flags, where files = "\<lambda>path. Some (config_text wit_config)" and net = "\<lambda>a. Inr ''[::]:6432''" and n = 4 and ctx = 0
      and level = 4 and cfg = wit_system_cfg]
    wit_file_loads wit_run_level wit_no_endpoint c show ?thesis by auto
qed

text \<open>
  C15. The program can always be stopped: from every state that the server of a started program can reach and
  in which \<^verbatim>\<open>Serve\<close> has not returned, it returns after the cancellation, one failed \<^verbatim>\<open>Accept\<close>, and the end of the
  sessions that were accepted by then; nothing else has to happen, and no session needs to be waited for twice.
  The rest of \<^verbatim>\<open>run\<close> then ends too, whatever the registry and the manager have become by then: no poller is left and
  every pool is handed over to be closed.
\<close>

theorem run_can_return:
  assumes "run_start n ctx files net args = Inr (RunServing sys endpoint srv)" "serve_begin srv = Some s0"
    and "reach serve_exec s0 s" "sr_loop s \<noteq> ServeReturned"
  shows "\<exists>es s'. run_steps serve_exec es s = Some s' \<and> sr_loop s' = ServeReturned \<and>
           length es \<le> 2 * sr_starting s + length (sr_running s) + 3 \<and>
           (\<forall>keys now. \<exists>ended. run_end (sr_ctxDone s') keys now = Some (List.map_filter (mg_pools (sy_mgr now)) keys, ended) \<and>
              reg_pollers (sy_reg ended) = [] \<and> mg_pools (sy_mgr ended) = Map.empty)"
proof -
  have r: "reach serve_exec serve_init s" using assms(1-3) run_start_serves by fastforce
  from Serve_can_stop [OF r assms(4)] obtain es s' where s': "run_steps serve_exec es s = Some s'" "sr_loop s' = ServeReturned"
    "length es \<le> 2 * sr_starting s + length (sr_running s) + 3" by blast
  have "sr_ctxDone s'" using sv.invar_reach [OF reach_run [OF r s'(1)]] s'(2) by (simp add: server_inv_def)
  then have "\<exists>ended. run_end (sr_ctxDone s') keys now = Some (List.map_filter (mg_pools (sy_mgr now)) keys, ended) \<and>
      reg_pollers (sy_reg ended) = [] \<and> mg_pools (sy_mgr ended) = Map.empty" for keys now
    by (simp add: run_end_def Registry_Wait_def Manager_Close_def)
  with s' show ?thesis by blast
qed

theorem run_can_return_witness:
  "\<exists>sys srv s0 s es s' ended.
     run_start 4 0 (\<lambda>path. Some (config_text wit_config)) (\<lambda>a. Inr ''[::]:6432'') [''-config'', ''a.json'', flag_arg ''log-level'' ''warn''] =
       Inr (RunServing sys None srv) \<and> serve_begin srv = Some s0 \<and>
     run_steps serve_exec [SvAccept, SvHandle, SvAccept] s0 = Some s \<and>
     run_steps serve_exec es s = Some s' \<and> sr_loop s' = ServeReturned \<and> run_end (sr_ctxDone s') [] sys = Some ([], ended)"
proof -
  obtain sys where "run_setup 4 0 (Inr wit_config) = Inr sys" "sy_cfg sys = wit_system_cfg"
    using run_setup_complete [OF wit_system_loads, of 4 0] by auto
  then obtain srv where srv: "run_start 4 0 (\<lambda>path. Some (config_text wit_config)) (\<lambda>a. Inr ''[::]:6432'')
      [''-config'', ''a.json'', flag_arg ''log-level'' ''warn''] = Inr (RunServing sys None srv)"
    by (simp add: run_start_def wit_run_flags wit_run_level Server_Listen_def Server_New_def Let_def wit_no_endpoint wit_file)
  note b = run_start_serves [OF srv]
  obtain s where s: "run_steps serve_exec [SvAccept, SvHandle, SvAccept] serve_init = Some s" "sr_loop s \<noteq> ServeReturned"
    by (simp add: serve_init_def handle_start_def Let_def)
  from run_can_return [OF srv b reach_run [OF reach_init s(1)] s(2)] obtain es s' where
    r: "run_steps serve_exec es s = Some s'" "sr_loop s' = ServeReturned"
    "\<And>keys now. \<exists>ended. run_end (sr_ctxDone s') keys now = Some (List.map_filter (mg_pools (sy_mgr now)) keys, ended)" by blast
  obtain ended where e: "run_end (sr_ctxDone s') [] sys = Some ([], ended)" using r(3) [of "[]" sys] by (auto simp: map_filter_simps)
  show ?thesis by (intro exI conjI) (rule srv, rule b, rule s(1), rule r(1), rule r(2), rule e)
qed

text \<open>
  C39. A reload does not turn routing on: the sessions read the configuration the program was started
  with. When that one has no replicas, then after any reload, also of a file that lists replicas (which
  the registry then polls), every connection a session acquires is one of the old primary, from the
  same manager.
\<close>

theorem reload_keeps_primary_only:
  assumes "reload decoded sys = Some sys'" "c_Replicas (sy_cfg sys) = []"
    and "serve (sy_cfg sys') envs se w r cc msgs s = Some (e, cc', s')" "ss_log s = []"
    and "LAcquire a c \<in> set (ss_log s')"
  shows "a = c_Primary (sy_cfg sys) \<and> sy_mgr sys' = sy_mgr sys"
proof -
  have sys: "sy_cfg sys' = sy_cfg sys" "sy_mgr sys' = sy_mgr sys"
    using assms(1) by (auto simp: reload_def split: sum.splits)
  have "primary_only (sy_cfg sys) s'"
    by (rule primary_only_serve [OF assms(3) [unfolded sys(1)] assms(2)]) (simp add: primary_only_def assms(4))
  with assms(5) sys(2) show ?thesis by (auto simp: primary_only_def list_all_iff)
qed

theorem reload_keeps_primary_only_witness:
  "\<exists>sys sys' cc cc' s'. c_Replicas (sy_cfg sys) = [] \<and> reload (Inr wit_config) sys = Some sys' \<and>
     map bs_addr (reg_backends (sy_reg sys')) = [''p:5432'', ''r1:5432''] \<and>
     serve (sy_cfg sys') (\<lambda>u d. wit_env) wit_serve_env (open_writer [])
       \<lparr>rd_data = packet_bytes [0, 3, 0, 0], rd_end = EOF\<rparr> cc [] wit_start = Some (None, cc', s') \<and>
     LAcquire ''p:5432'' 0 \<in> set (ss_log s') \<and> sy_mgr sys' = sy_mgr sys"
proof -
  let ?cfg = "wit_session_cfg\<lparr>c_Replicas := []\<rparr>"
  let ?reg = "\<lparr>reg_cfg = registry_New \<lparr>rc_Interval = 0, rc_FailureThreshold = 0, rc_BaseBackoff = 0, rc_MaxBackoff = 0\<rparr>,
     reg_backends = [], reg_parentCtx = Some 0, reg_cancel = Some 0, reg_pollers = [(0, ''p:5432'')], reg_nextCtx = 2\<rparr>"
  let ?sys = "\<lparr>sy_cfg = ?cfg, sy_mgr = NewManager ''p:5432'' Map.empty \<lparr>mpc_MaxSize = 1, mpc_MaxWaiters = 0,
      mpc_AcquireTimeout = 0, mpc_IdleTimeout = 0\<rparr> 1, sy_pollUser = \<lparr>u_Name = ''app'', u_Password = ''pw''\<rparr>,
     sy_reg = ?reg, sy_policy = PRoundRobin NewRoundRobin\<rparr>"
  obtain reg' where r: "Reconfigure ?reg (backendsFrom wit_system_cfg) = Some reg'"
    "map bs_addr (reg_backends reg') = [''p:5432'', ''r1:5432'']"
    by (simp add: Reconfigure_def stopPollers_def Registry_launch_def launch_def backendsFrom_def wit_system_cfg_def
        applyDefaults_keeps) (simp add: wit_config_def Let_def)
  have l: "reload (Inr wit_config) ?sys = Some (?sys\<lparr>sy_reg := reg'\<rparr>)"
    by (simp add: reload_def wit_system_loads r)
  have "c_Primary ?cfg = ''p:5432''" "po_Mode (c_Pool ?cfg) = ModeSession"
    "Config_User ?cfg ''app'' = Some \<lparr>u_Name = ''app'', u_Password = ''pw''\<rparr>"
    by (simp_all add: Config_User_def wit_session_cfg_def wit_config_def)
  from wit_serve_in [OF this] obtain cc cc' s' where s: "serve ?cfg (\<lambda>u d. wit_env) wit_serve_env (open_writer [])
       \<lparr>rd_data = packet_bytes [0, 3, 0, 0], rd_end = EOF\<rparr> cc [] wit_start = Some (None, cc', s')"
     "ss_log s' = [LAcquire ''p:5432'' 0, LReset 0] @ LRelease ''p:5432'' 0 # []" by blast
  have acq: "LAcquire ''p:5432'' 0 \<in> set (ss_log s')" using s(2) by simp
  have main: "''p:5432'' = c_Primary (sy_cfg ?sys) \<and> sy_mgr (?sys\<lparr>sy_reg := reg'\<rparr>) = sy_mgr ?sys"
  proof (rule reload_keeps_primary_only [OF l _ _ _ acq])
    show "serve (sy_cfg (?sys\<lparr>sy_reg := reg'\<rparr>)) (\<lambda>u d. wit_env) wit_serve_env (open_writer [])
       \<lparr>rd_data = packet_bytes [0, 3, 0, 0], rd_end = EOF\<rparr> cc [] wit_start = Some (None, cc', s')" using s(1) by simp
    show "ss_log wit_start = []" by (simp add: wit_start_def)
  qed simp
  show ?thesis
  proof (intro exI conjI)
    show "reload (Inr wit_config) ?sys = Some (?sys\<lparr>sy_reg := reg'\<rparr>)" by (rule l)
    show "sy_mgr (?sys\<lparr>sy_reg := reg'\<rparr>) = sy_mgr ?sys" using main by (rule conjunct2)
  qed (use r(2) s(1) acq in simp_all)
qed

end
