(* ===== verification/Deployment.thy ===== *)
theory Deployment
  imports ProxyServer
begin

text \<open>
  The parts put together: the environment a session meets in a running proxy. Its snapshots are those of the
  registry that \<^verbatim>\<open>run\<close> started, after any polls of the configured backends; its policy is the one \<^verbatim>\<open>run\<close> made,
  after any calls of the sessions that share it. The theory shows that such an environment is one the
  session's properties ask for, so they hold of the program as it is wired.
\<close>


subsection \<open>A session's environment in a running proxy\<close>

text \<open>
  \<open>polls t a\<close> are the polls of address \<open>a\<close> up to the session's \<open>t\<close>-th call. What is asked of the servers is, when
  the policy is the scored one, that the lag they report is a number of seconds, of either sign and at most
  \<open>2^63\<close>, and of the sessions that fewer than \<open>2^63 - 1\<close> reads are under
  way at once.
\<close>

definition deployed ::
  "(registry_err \<Rightarrow> string) \<Rightarrow> system \<Rightarrow>
   (nat \<Rightarrow> address \<Rightarrow> (int \<times> (string + 'c) \<times> ('c \<Rightarrow> string + string list)) list) \<Rightarrow> env \<Rightarrow> bool"
where
  "deployed show_err sys polls env \<longleftrightarrow>
     (\<forall>t. \<exists>sts1. e_snapshot env t =
        Snapshot sts1 (polled show_err (reg_cfg (sy_reg sys)) (backendsFrom (sy_cfg sys)) (polls t))) \<and>
     (\<forall>t. \<exists>ops out. policy_run Policy_Choose Policy_Release policy_good sane_latency (sy_policy sys) [] ops =
        Some (e_policy env t, out) \<and> length out < 2 ^ 63 - 1) \<and>
     ((\<exists>p. sy_policy sys = PScored p) \<longrightarrow>
        (\<forall>t a role lsn lag. Some (role, lsn, lag) \<in> set (poll_results None (polls t a)) \<longrightarrow> sane_lag lag))"

lemma run_setup_parts:
  assumes "run_setup n ctx decoded = Inr sys"
  shows "Load decoded = Inr (sy_cfg sys)" "router_New (c_Policy (sy_cfg sys)) = Some (sy_policy sys)"
  using assms by (auto simp: run_setup_def Let_def split: sum.splits list.splits option.splits)

lemma run_setup_mgr: "run_setup n ctx decoded = Inr sys \<Longrightarrow> mgr_inv (sy_mgr sys) \<and> mg_pools (sy_mgr sys) = Map.empty"
  using mgr_inv_New by (auto simp: run_setup_def Let_def NewManager_def split: sum.splits list.splits option.splits)

lemma Load_primary: "Load decoded = Inr cfg \<Longrightarrow> c_Primary cfg \<noteq> []"
  by (auto simp: Load_def validate_def Let_def split: sum.splits option.splits if_splits)

lemma backendsFrom_addr: "b_addr ` set (backendsFrom cfg) = insert (c_Primary cfg) (set (c_Replicas cfg))"
proof -
  have "map b_addr (backendsFrom cfg) = c_Primary cfg # c_Replicas cfg"
    by (simp add: backendsFrom_def comp_def case_prod_unfold)
  then show ?thesis by (metis list.set(2) list.set_map)
qed

lemma deployed_env_in:
  assumes "run_setup n ctx decoded = Inr sys" "[] \<notin> set (c_Replicas (sy_cfg sys))" "deployed show_err sys polls env"
  shows "env_in (insert (c_Primary (sy_cfg sys)) (set (c_Replicas (sy_cfg sys)))) env"
proof -
  note parts = run_setup_parts [OF assms(1)]
  have snap: "st \<in> set (e_snapshot env t) \<Longrightarrow> s_Addr st \<in> insert (c_Primary (sy_cfg sys)) (set (c_Replicas (sy_cfg sys)))"
    "st \<in> set (e_snapshot env t) \<Longrightarrow> \<exists>q. sy_policy sys = PScored q \<Longrightarrow> sane_lag (s_LagSeconds st)" for t st
  proof -
    assume st: "st \<in> set (e_snapshot env t)"
    obtain sts1 where s: "st \<in> set (Snapshot sts1 (polled show_err (reg_cfg (sy_reg sys)) (backendsFrom (sy_cfg sys)) (polls t)))"
      using assms(3) st unfolding deployed_def by metis
    from snapshot_addr [OF s] show "s_Addr st \<in> insert (c_Primary (sy_cfg sys)) (set (c_Replicas (sy_cfg sys)))"
      by (simp add: backendsFrom_addr)
    have "sane_lag (Fin 0)" by (simp add: sane_lag_def)
    with snapshot_lag [OF s] assms(3) show "\<exists>q. sy_policy sys = PScored q \<Longrightarrow> sane_lag (s_LagSeconds st)"
      unfolding deployed_def by metis
  qed
  have pol: "(\<exists>q. sy_policy sys = PScored q) \<and> scored_inv p \<and> (\<forall>a. sc_load p a < 2 ^ 63 - 1)" if p: "e_policy env t = PScored p" for t p
  proof -
    obtain ops out where r: "policy_run Policy_Choose Policy_Release policy_good sane_latency (sy_policy sys) [] ops = Some (PScored p, out)"
      "length out < 2 ^ 63 - 1" using assms(3) p unfolding deployed_def by metis
    have "count_list out a \<le> length out" for a by (rule count_le_length)
    with policy_run_scored [OF parts(2) r(1)] r(2) policy_run_kind [OF r(1)] show ?thesis by (auto intro: le_less_trans)
  qed
  show ?thesis
    using snap pol Load_primary [OF parts(1)] assms(2) unfolding env_in_def env_fit_def by fastforce
qed

end
