(* ===== verification/Sharing.thy ===== *)
theory Sharing
  imports Deployment PoolLease
begin

text \<open>
  The sessions of a running proxy on the pools they share, while it serves (the manager is closed only
  after \<^verbatim>\<open>Serve\<close> has returned, when no session is left). Session \<open>i\<close> is goroutine \<open>i\<close> of every pool; its
  calls come in the order of its log, and between them the pools take their own steps. A connection that a
  pool grants to goroutine \<open>i\<close> is the one session \<open>i\<close> logs as acquired. The theory composes what the session
  keeps (\<open>sinv\<close>) with what the pool keeps (\<open>winv\<close>): no call of a session is one the pool does not expect, no
  connection is used by two sessions, and when the sessions are over every connection is back.
\<close>


subsection \<open>Sessions and the manager\<close>

definition session_key :: "(nat \<Rightarrow> string \<times> string) \<Rightarrow> nat \<Rightarrow> address \<Rightarrow> poolKey" where
  "session_key who i a = \<lparr>k_user = fst (who i), k_database = snd (who i), k_addr = a\<rparr>"

text \<open>The manager, and how far each session's log has happened.\<close>

record shared =
  sh_mgr :: Manager
  sh_at :: "nat \<Rightarrow> nat"

definition sh_past :: "(nat \<Rightarrow> session_event list) \<Rightarrow> shared \<Rightarrow> nat \<Rightarrow> session_event list" where
  "sh_past logs st i = take (sh_at st i) (logs i)"

definition sh_next :: "(nat \<Rightarrow> session_event list) \<Rightarrow> shared \<Rightarrow> nat \<Rightarrow> session_event option" where
  "sh_next logs st i = (if sh_at st i < length (logs i) then Some (logs i ! sh_at st i) else None)"

definition advance :: "nat \<Rightarrow> Manager \<Rightarrow> shared \<Rightarrow> shared" where
  "advance i m st = st\<lparr>sh_mgr := m, sh_at := (sh_at st)(i := Suc (sh_at st i))\<rparr>"

text \<open>The steps a pool takes on its own.\<close>

fun pool_internal :: "pool_event \<Rightarrow> bool" where
  "pool_internal (EvAcquire i) = False"
| "pool_internal (EvRelease c) = False"
| "pool_internal (EvDiscard c) = False"
| "pool_internal (EvClose i) = False"
| "pool_internal _ = True"

datatype shared_event = ShCall nat address | ShPool poolKey pool_event | ShSession nat

text \<open>
  A session enters \<^verbatim>\<open>AcquireAt\<close>; a pool steps, and if the step grants a connection the session's next entry must
  be that it acquired this one; a session does what it logs next.
\<close>

fun shared_exec ::
  "(nat \<Rightarrow> string \<times> string) \<Rightarrow> (nat \<Rightarrow> session_event list) \<Rightarrow> nat \<Rightarrow> shared_event \<Rightarrow> shared \<Rightarrow> shared option"
where
  "shared_exec who logs n (ShCall i a) st =
     (if i < n then map_option (\<lambda>m. st\<lparr>sh_mgr := m\<rparr>) (mgr_exec (MAcquire (session_key who i a) i) (sh_mgr st)) else None)"
| "shared_exec who logs n (ShPool k e) st =
     (if \<not> pool_internal e then None
      else case (mg_pools (sh_mgr st) k, Manager_step (sh_mgr st) k e) of
             (Some w, Some m) \<Rightarrow>
               (case granted w (the (mg_pools m k)) of
                  None \<Rightarrow> Some (st\<lparr>sh_mgr := m\<rparr>)
                | Some (i, c) \<Rightarrow>
                    (case sh_next logs st i of
                       Some (LAcquire a c') \<Rightarrow>
                         if i < n \<and> session_key who i a = k \<and> c' = c then Some (advance i m st) else None
                     | _ \<Rightarrow> None))
           | _ \<Rightarrow> None)"
| "shared_exec who logs n (ShSession i) st =
     (if \<not> i < n then None
      else case sh_next logs st i of
             None \<Rightarrow> None
           | Some (LAcquire a c) \<Rightarrow> None
           | Some (LRelease a c) \<Rightarrow> map_option (\<lambda>m. advance i m st) (ReleaseAt (sh_mgr st) (session_key who i a) c)
           | Some (LDiscard a c) \<Rightarrow> map_option (\<lambda>m. advance i m st) (DiscardAt (sh_mgr st) (session_key who i a) c)
           | Some _ \<Rightarrow> Some (advance i (sh_mgr st) st))"

definition shared_init :: "Manager \<Rightarrow> shared" where
  "shared_init m = \<lparr>sh_mgr = m, sh_at = (\<lambda>_. 0)\<rparr>"


subsection \<open>What a session holds\<close>

lemma log_held_append: "log_held (xs @ ys) \<Longrightarrow> log_held xs"
  by (induction ys rule: rev_induct) (auto simp: log_held_snoc simp flip: append_assoc)

lemma log_held_returned: "log_held lg \<Longrightarrow> tally ev_returned lg \<subseteq># tally ev_acquired lg"
proof (induction lg rule: rev_induct)
  case (snoc e lg)
  then have l: "tally ev_returned lg \<subseteq># tally ev_acquired lg" "uses_held lg e" by (simp_all add: log_held_snoc)
  have "add_mset x (tally ev_returned lg) \<subseteq># tally ev_acquired lg" if "x \<in># held lg" for x
    using that l(1) by (metis held_def insert_subset_eq_iff mset_subset_eq_single subset_mset.le_diff_conv2 union_commute add_mset_add_single)
  with l show ?case by (cases e) (auto simp: uses_held_def intro: subset_mset.order_trans [OF l(1)])
qed simp

lemma held_snoc:
  assumes "log_held (lg @ [e])"
  shows "held (lg @ [e]) + ev_returned e = held lg + ev_acquired e"
proof -
  have r: "tally ev_returned (lg @ [e]) \<subseteq># tally ev_acquired (lg @ [e])" "tally ev_returned lg \<subseteq># tally ev_acquired lg"
    using log_held_returned [OF assms] log_held_returned [OF log_held_append [OF assms]] by blast+
  have "held (lg @ [e]) + tally ev_returned (lg @ [e]) = tally ev_acquired (lg @ [e])"
    using r(1) by (simp add: held_def)
  moreover have "held lg + tally ev_returned lg = tally ev_acquired lg" using r(2) by (simp add: held_def)
  ultimately have "held (lg @ [e]) + ev_returned e + tally ev_returned lg = held lg + ev_acquired e + tally ev_returned lg"
    by (simp add: ac_simps)
  then show ?thesis by simp
qed

definition leased :: "(nat \<Rightarrow> string \<times> string) \<Rightarrow> nat \<Rightarrow> poolKey \<Rightarrow> session_event list \<Rightarrow> conn multiset" where
  "leased who i k lg = image_mset snd (filter_mset (\<lambda>x. session_key who i (fst x) = k) (held lg))"

lemma leased_snoc:
  assumes "log_held (lg @ [e])"
  shows "leased who i k (lg @ [e]) + image_mset snd (filter_mset (\<lambda>x. session_key who i (fst x) = k) (ev_returned e)) =
         leased who i k lg + image_mset snd (filter_mset (\<lambda>x. session_key who i (fst x) = k) (ev_acquired e))"
  unfolding leased_def using held_snoc [OF assms] by (metis filter_union_mset image_mset_union)

lemma leased_simps:
  assumes "log_held (lg @ [e])"
  shows "e = LAcquire a c \<Longrightarrow> leased who i k (lg @ [e]) = leased who i k lg + (if session_key who i a = k then {#c#} else {#})"
    "e = LRelease a c \<or> e = LDiscard a c \<Longrightarrow> leased who i k (lg @ [e]) + (if session_key who i a = k then {#c#} else {#}) = leased who i k lg"
    "ev_acquired e = {#} \<Longrightarrow> ev_returned e = {#} \<Longrightarrow> leased who i k (lg @ [e]) = leased who i k lg"
  using leased_snoc [OF assms, of who i k] by auto

lemma leased_held: "(a, c) \<in># held lg \<Longrightarrow> c \<in># leased who i (session_key who i a) lg"
  by (force simp: leased_def)

lemma sum_update:
  fixes f :: "nat \<Rightarrow> 'a multiset"
  assumes "i < n" "\<And>j. j \<noteq> i \<Longrightarrow> f' j = f j"
  shows "(\<Sum>j<n. f' j) + f i = (\<Sum>j<n. f j) + f' i"
proof -
  have "(\<Sum>j\<in>{..<n} - {i}. f' j) = (\<Sum>j\<in>{..<n} - {i}. f j)" by (rule sum.cong) (use assms(2) in auto)
  with sum.remove [of "{..<n}" i f] sum.remove [of "{..<n}" i f'] assms(1) show ?thesis by (simp add: ac_simps)
qed


lemma multiset_balance:
  fixes p :: "'a multiset"
  assumes "S' + f = S + f'" "f' + r = f + g" "p + r = S + g"
  shows "p = S'"
proof (rule multiset_eqI)
  fix x
  have "count S' x + count f x = count S x + count f' x" "count f' x + count r x = count f x + count g x"
    "count p x + count r x = count S x + count g x"
    using assms by (metis count_union)+
  then show "count p x = count S' x" by linarith
qed


subsection \<open>The invariant of the composition\<close>

definition pool_out :: "Manager \<Rightarrow> poolKey \<Rightarrow> conn list" where
  "pool_out m k = (case mg_pools m k of None \<Rightarrow> [] | Some w \<Rightarrow> w_out w)"

text \<open>What a pool has handed out is what the sessions of its key hold, each connection by one of them.\<close>

definition shared_inv :: "(nat \<Rightarrow> string \<times> string) \<Rightarrow> (nat \<Rightarrow> session_event list) \<Rightarrow> nat \<Rightarrow> shared \<Rightarrow> bool" where
  "shared_inv who logs n st \<longleftrightarrow>
     mgr_inv (sh_mgr st) \<and> (\<forall>k. mset (pool_out (sh_mgr st) k) = (\<Sum>i<n. leased who i k (sh_past logs st i)))"

lemma pool_out_set_pool [simp]: "pool_out (set_pool k w m) k' = (if k' = k then w_out w else pool_out m k')"
  by (simp add: pool_out_def set_pool_def)

lemma pool_out_distinct: "mgr_inv m \<Longrightarrow> distinct (pool_out m k)"
  by (auto simp: pool_out_def mgr_inv_def split: option.split dest!: pool_reachable_inv winv_leases(1))

lemma sh_past_advance:
  assumes "sh_next logs st i = Some e"
  shows "sh_past logs (advance i m st) j = (if j = i then sh_past logs st i @ [e] else sh_past logs st j)"
  using assms by (auto simp: sh_past_def sh_next_def advance_def take_Suc_conv_app_nth split: if_splits)

lemma sh_next_uses:
  assumes "log_held (logs i)" "sh_next logs st i = Some e"
  shows "log_held (sh_past logs st i @ [e])" "uses_held (sh_past logs st i) e"
proof -
  have "logs i = (sh_past logs st i @ [e]) @ drop (Suc (sh_at st i)) (logs i)"
    using assms(2) by (auto simp: sh_past_def sh_next_def id_take_nth_drop split: if_splits)
  with assms(1) show "log_held (sh_past logs st i @ [e])" by (metis log_held_append)
  then show "uses_held (sh_past logs st i) e" by (simp add: log_held_snoc)
qed

lemma shared_inv_advance:
  assumes inv: "shared_inv who logs n st" and i: "i < n" "log_held (logs i)" "sh_next logs st i = Some e" and m: "mgr_inv m"
    and out: "\<And>k. mset (pool_out m k) + image_mset snd (filter_mset (\<lambda>x. session_key who i (fst x) = k) (ev_returned e)) =
           mset (pool_out (sh_mgr st) k) + image_mset snd (filter_mset (\<lambda>x. session_key who i (fst x) = k) (ev_acquired e))"
  shows "shared_inv who logs n (advance i m st)"
proof -
  let ?st = "advance i m st"
  have "mset (pool_out m k) = (\<Sum>j<n. leased who j k (sh_past logs ?st j))" for k
  proof -
    let ?f = "\<lambda>j. leased who j k (sh_past logs st j)" and ?f' = "\<lambda>j. leased who j k (sh_past logs ?st j)"
    let ?sel = "\<lambda>M. image_mset snd (filter_mset (\<lambda>x. session_key who i (fst x) = k) M)"
    have s: "(\<Sum>j<n. ?f' j) + ?f i = (\<Sum>j<n. ?f j) + ?f' i"
      using i(1) by (rule sum_update) (simp add: sh_past_advance [OF i(3)])
    have l: "?f' i + ?sel (ev_returned e) = ?f i + ?sel (ev_acquired e)"
      using leased_snoc [OF sh_next_uses(1) [OF i(2,3)]] by (simp add: sh_past_advance [OF i(3)])
    have p: "mset (pool_out m k) + ?sel (ev_returned e) = (\<Sum>j<n. ?f j) + ?sel (ev_acquired e)"
      using inv out [of k] by (simp add: shared_inv_def)
    show ?thesis by (rule multiset_balance [OF s l p])
  qed
  with m show ?thesis by (simp add: shared_inv_def advance_def)
qed

text \<open>A connection that a session holds is one its pool has handed out, so the pool takes it back.\<close>

lemma shared_inv_held:
  assumes "shared_inv who logs n st" "i < n" "(a, c) \<in># held (sh_past logs st i)"
  shows "c \<in> set (pool_out (sh_mgr st) (session_key who i a))"
proof -
  have "c \<in># leased who i (session_key who i a) (sh_past logs st i)" using assms(3) by (rule leased_held)
  with assms(2) have "c \<in># (\<Sum>j<n. leased who j (session_key who i a) (sh_past logs st j))"
    by (auto simp: set_mset_sum)
  with assms(1) show ?thesis unfolding shared_inv_def by (metis set_mset_mset)
qed

lemma pool_takes_back:
  assumes "mgr_inv m" "c \<in> set (pool_out m k)"
  shows "\<exists>m'. ReleaseAt m k c = Some m' \<and> mgr_inv m' \<and> (\<forall>k'. pool_out m' k' = (if k' = k then remove1 c (pool_out m k) else pool_out m k'))"
    and "\<exists>m'. DiscardAt m k c = Some m' \<and> mgr_inv m' \<and> (\<forall>k'. pool_out m' k' = (if k' = k then remove1 c (pool_out m k) else pool_out m k'))"
proof -
  from assms(2) obtain w where w: "mg_pools m k = Some w" "c \<in> set (w_out w)"
    by (cases "mg_pools m k") (auto simp: pool_out_def)
  then have o: "pool_out m k = w_out w" by (simp add: pool_out_def)
  from w assms(1) have inv: "winv (pool_config (mg_poolCfg m)) w" by (auto simp: mgr_inv_def dest: pool_reachable_inv)
  from winv_out(1) [OF inv w(2)] obtain w1 where
    w1: "Pool_Release c (w\<lparr>w_out := remove1 c (w_out w)\<rparr>) = Some w1" by blast
  then have r: "ReleaseAt m k c = Some (set_pool k w1 m)" using w by (simp add: ReleaseAt_def lookup_pool_def)
  from mgr_exec_inv [OF assms(1), of "MRelease k c" "set_pool k w1 m"] r have "mgr_inv (set_pool k w1 m)" by simp
  with r Pool_Release_out [OF w1] o show "\<exists>m'. ReleaseAt m k c = Some m' \<and> mgr_inv m' \<and> (\<forall>k'. pool_out m' k' = (if k' = k then remove1 c (pool_out m k) else pool_out m k'))"
    by simp
  let ?w2 = "Pool_Discard c (w\<lparr>w_out := remove1 c (w_out w)\<rparr>)"
  have d: "DiscardAt m k c = Some (set_pool k ?w2 m)" using w by (simp add: DiscardAt_def lookup_pool_def)
  from mgr_exec_inv [OF assms(1), of "MDiscard k c" "set_pool k ?w2 m"] d have "mgr_inv (set_pool k ?w2 m)" by simp
  with d o show "\<exists>m'. DiscardAt m k c = Some m' \<and> mgr_inv m' \<and> (\<forall>k'. pool_out m' k' = (if k' = k then remove1 c (pool_out m k) else pool_out m k'))"
    by simp
qed

lemma session_step:
  assumes inv: "shared_inv who logs n st" and i: "i < n" "log_held (logs i)" "sh_next logs st i = Some e" "ev_acquired e = {#}"
  shows "\<exists>st'. shared_exec who logs n (ShSession i) st = Some st' \<and> shared_inv who logs n st'"
proof -
  have m: "mgr_inv (sh_mgr st)" using inv by (simp add: shared_inv_def)
  note adv = shared_inv_advance [OF inv i(1-3)] and uses = sh_next_uses(2) [OF i(2,3)]
  have taken: "mset xs' + (if k = k0 then {#c#} else {#}) = mset xs"
    if "c \<in> set xs0" "xs' = (if k = k0 then remove1 c xs0 else xs)" "k = k0 \<Longrightarrow> xs = xs0" for xs' xs xs0 :: "conn list" and k k0 :: poolKey and c
    using that by auto
  show ?thesis
  proof (cases e)
    case (LRelease a c)
    with uses have "(a, c) \<in># held (sh_past logs st i)" by (simp add: uses_held_def)
    from shared_inv_held [OF inv i(1) this] have c: "c \<in> set (pool_out (sh_mgr st) (session_key who i a))" .
    from pool_takes_back(1) [OF m c] obtain m' where m': "ReleaseAt (sh_mgr st) (session_key who i a) c = Some m'" "mgr_inv m'"
      "\<And>k. pool_out m' k = (if k = session_key who i a then remove1 c (pool_out (sh_mgr st) (session_key who i a)) else pool_out (sh_mgr st) k)" by blast
    have "shared_inv who logs n (advance i m' st)"
      by (rule adv [OF m'(2)]) (use c in \<open>auto simp: LRelease m'(3)\<close>)
    with m'(1) i show ?thesis by (simp add: LRelease)
  next
    case (LDiscard a c)
    with uses have "(a, c) \<in># held (sh_past logs st i)" by (simp add: uses_held_def)
    from shared_inv_held [OF inv i(1) this] have c: "c \<in> set (pool_out (sh_mgr st) (session_key who i a))" .
    from pool_takes_back(2) [OF m c] obtain m' where m': "DiscardAt (sh_mgr st) (session_key who i a) c = Some m'" "mgr_inv m'"
      "\<And>k. pool_out m' k = (if k = session_key who i a then remove1 c (pool_out (sh_mgr st) (session_key who i a)) else pool_out (sh_mgr st) k)" by blast
    have "shared_inv who logs n (advance i m' st)"
      by (rule adv [OF m'(2)]) (use c in \<open>auto simp: LDiscard m'(3)\<close>)
    with m'(1) i show ?thesis by (simp add: LDiscard)
  qed (use i adv [OF m] in \<open>auto\<close>)
qed

lemma AcquireAt_out: "AcquireAt m k i = Some (Inr m') \<Longrightarrow> pool_out m' k' = pool_out m k'"
  by (auto simp: AcquireAt_def poolFor_def Let_def pool_out_def set_pool_def set_thread_def pool_init_def
      split: option.splits sum.splits if_splits)

lemma shared_call:
  assumes "shared_inv who logs n st" "shared_exec who logs n (ShCall i a) st = Some st'"
  shows "shared_inv who logs n st'"
proof -
  from assms(2) obtain m where m: "mgr_exec (MAcquire (session_key who i a) i) (sh_mgr st) = Some m" "st' = st\<lparr>sh_mgr := m\<rparr>"
    by (auto simp del: mgr_exec.simps split: if_splits)
  have "pool_out m k = pool_out (sh_mgr st) k" for k
    using m(1) by (auto simp: AcquireAt_out split: option.splits sum.splits)
  with assms(1) mgr_exec_inv [OF _ m(1)] show ?thesis by (simp add: m(2) shared_inv_def sh_past_def)
qed

lemma shared_pool:
  assumes inv: "shared_inv who logs n st" and held: "\<And>i. i < n \<Longrightarrow> log_held (logs i)"
    and step: "shared_exec who logs n (ShPool k e) st = Some st'"
  shows "shared_inv who logs n st'"
proof -
  from step obtain w m where e: "pool_internal e" and w: "mg_pools (sh_mgr st) k = Some w"
    and m: "Manager_step (sh_mgr st) k e = Some m"
    by (auto split: if_splits option.splits)
  from m w obtain w' where w': "pool_exec (pool_config (mg_poolCfg (sh_mgr st))) e w = Some w'" "m = set_pool k w' (sh_mgr st)"
    by (auto simp: Manager_step_def simp del: pool_exec.simps)
  have mi: "mgr_inv m" using mgr_exec_inv [of "sh_mgr st" "MStep k e" m] inv m by (simp add: shared_inv_def)
  have old: "pool_out (sh_mgr st) k = w_out w" using w by (simp add: pool_out_def)
  have at: "the (mg_pools m k) = w'" by (simp add: w'(2) set_pool_def)
  have "\<not> gives_back e" using e by (cases e) auto
  note out = granted_out [OF w'(1) this]
  show ?thesis
  proof (cases "granted w w'")
    case None
    with out old w'(2) have "pool_out m k' = pool_out (sh_mgr st) k'" for k' by simp
    moreover from step e w m at None have "st' = st\<lparr>sh_mgr := m\<rparr>" by simp
    ultimately show ?thesis using inv mi by (simp add: shared_inv_def sh_past_def)
  next
    case (Some g)
    then obtain i c where g: "granted w w' = Some (i, c)" by (cases g) simp
    with step e w m at obtain a where a: "sh_next logs st i = Some (LAcquire a c)" "i < n" "session_key who i a = k" "st' = advance i m st"
      by (auto split: option.splits session_event.splits if_splits)
    have "shared_inv who logs n (advance i m st)"
      by (rule shared_inv_advance [OF inv a(2) held [OF a(2)] a(1) mi]) (use out old g w'(2) a(3) in auto)
    with a(4) show ?thesis by simp
  qed
qed

lemma shared_step:
  assumes inv: "shared_inv who logs n st" and held: "\<And>i. i < n \<Longrightarrow> log_held (logs i)"
    and step: "shared_exec who logs n ev st = Some st'"
  shows "shared_inv who logs n st'"
proof (cases ev)
  case (ShSession i)
  with step obtain e where "i < n" "sh_next logs st i = Some e" "ev_acquired e = {#}"
    by (auto split: if_splits option.splits session_event.splits)
  with session_step [OF inv _ held] step ShSession show ?thesis by (metis option.inject)
qed (use shared_call [OF inv] shared_pool [OF inv held] step in blast)+

interpretation sh: step_invariant "shared_exec who logs n" "shared_init m"
    "\<lambda>st. (\<forall>i<n. log_held (logs i)) \<and> mgr_inv m \<and> mg_pools m = Map.empty \<longrightarrow> shared_inv who logs n st" for who logs n m
proof
  have "leased who i k [] = {#}" for i k by (simp add: leased_def held_def)
  then show "(\<forall>i<n. log_held (logs i)) \<and> mgr_inv m \<and> mg_pools m = Map.empty \<longrightarrow> shared_inv who logs n (shared_init m)"
    by (simp add: shared_inv_def shared_init_def sh_past_def pool_out_def)
qed (use shared_step in blast)


subsection \<open>What the sessions get of it\<close>

lemma shared_exclusive:
  assumes "shared_inv who logs n st" "i < n" "j < n" "who i = who j"
    and "(a, c) \<in># held (sh_past logs st i)" "(a, c) \<in># held (sh_past logs st j)"
  shows "i = j"
proof (rule ccontr)
  assume ij: "i \<noteq> j"
  let ?k = "session_key who i a" and ?f = "\<lambda>x. leased who x (session_key who i a) (sh_past logs st x)"
  have "c \<in># ?f i" "c \<in># ?f j"
    using leased_held [OF assms(5), of who i] leased_held [OF assms(6), of who j] assms(4) by (simp_all add: session_key_def)
  then have "2 \<le> count (?f i) c + count (?f j) c" by (metis add_mono count_greater_eq_one_iff one_add_one)
  also have "\<dots> = (\<Sum>x\<in>{i, j}. count (?f x) c)" using ij by simp
  also have "\<dots> \<le> (\<Sum>x<n. count (?f x) c)" by (rule sum_mono2) (use assms(2,3) in auto)
  also have "\<dots> = count (mset (pool_out (sh_mgr st) ?k)) c" using assms(1) by (simp add: shared_inv_def count_sum)
  finally show False
    using pool_out_distinct [of "sh_mgr st" ?k] assms(1) by (simp add: shared_inv_def distinct_count_atmost_1 split: if_splits)
qed

lemma shared_over:
  assumes "shared_inv who logs n st" "\<And>i. i < n \<Longrightarrow> sh_next logs st i = None \<and> tally ev_acquired (logs i) = tally ev_returned (logs i)"
  shows "pool_out (sh_mgr st) k = []"
proof -
  have "leased who i k (sh_past logs st i) = {#}" if "i < n" for i
    using assms(2) [OF that] by (auto simp: sh_next_def sh_past_def leased_def held_def split: if_splits)
  then have "(\<Sum>i<n. leased who i k (sh_past logs st i)) = {#}" by simp
  with assms(1) show ?thesis by (metis shared_inv_def mset_zero_iff)
qed

end
