(* ===== verification/Bench.thy ===== *)
theory Bench
  imports Metrics
begin

text \<open>
  The benchmark harness: \<^verbatim>\<open>internal/bench/bench.go\<close>, \<^verbatim>\<open>workload.go\<close> and \<^verbatim>\<open>run.go\<close>, and of \<^verbatim>\<open>cmd/loadgen/main.go\<close> what
  it computes from two scrapes of the proxy's metrics. The database driver pgx is not modelled: the
  environment of a worker says which of its statements fail and how long they take. Products and sums of
  floats are rounded one by one, as on amd64, where the compiler does not fuse them.
\<close>


subsection \<open>Statistics\<close>

record Result =
  r_Target :: string
  r_Duration :: int
  r_Transactions :: int
  r_Errors :: int
  r_TPS :: f64
  r_Mean :: int
  r_P50 :: int
  r_P95 :: int
  r_P99 :: int
  r_FenceFallbackRate :: f64

definition Percentile :: "int list \<Rightarrow> f64 \<Rightarrow> int" where
  "Percentile xs p =
     (let n = int (length xs)
      in if n = 0 then 0
         else let rank = go_int (f64_add (f64_mul (f64_of_int n) p) (f64_round (999999 / 1000000)));
                  rank = (if rank < 1 then 1 else rank);
                  rank = (if rank > n then n else rank)
              in xs ! nat (rank - 1))"

definition int_quot :: "int \<Rightarrow> int \<Rightarrow> int" where
  "int_quot a b = (if 0 \<le> a then a div b else - ((- a) div b))"

definition Summarize :: "string \<Rightarrow> int list \<Rightarrow> int \<Rightarrow> int \<Rightarrow> Result" where
  "Summarize target latencies errs wall =
     (let xs = sort latencies;
          sum = foldl (\<lambda>s l. signed_take_bit 63 (s + l)) 0 xs;
          n = int (length xs)
      in \<lparr>r_Target = target, r_Duration = wall, r_Transactions = n, r_Errors = errs,
          r_TPS = (if 0 < wall then f64_div (f64_of_int n) (Seconds wall) else Fin 0),
          r_Mean = (if 0 < n then int_quot sum n else 0),
          r_P50 = Percentile xs (f64_round (50 / 100)),
          r_P95 = Percentile xs (f64_round (95 / 100)),
          r_P99 = Percentile xs (f64_round (99 / 100)),
          r_FenceFallbackRate = Fin 0\<rparr>)"


subsection \<open>Workload\<close>

record Workload =
  wl_Duration :: int
  wl_Connections :: int
  wl_WriteRatio :: f64
  wl_Rows :: int

definition isWrite :: "Workload \<Rightarrow> int \<Rightarrow> bool" where
  "isWrite w n =
     (if f64_le (wl_WriteRatio w) (Fin 0) then False
      else if f64_le (Fin 1) (wl_WriteRatio w) then True
      else go_int (f64_mul (f64_of_int (n + 1)) (wl_WriteRatio w)) \<noteq> go_int (f64_mul (f64_of_int n) (wl_WriteRatio w)))"



subsection \<open>A run\<close>

datatype bench_stmt = ReadSQL int | WriteSQL int

text \<open>
  One turn of a worker: whether the deadline has passed at its start, the random number drawn, which
  statements fail, whether the deadline has passed when one did, and the time the statement took.
\<close>

record turn =
  tn_done :: bool
  tn_rand :: int
  tn_fails :: "bench_stmt \<Rightarrow> bool"
  tn_doneAfter :: bool
  tn_elapsed :: int

definition turn_stmt :: "Workload \<Rightarrow> int \<Rightarrow> turn \<Rightarrow> bench_stmt" where
  "turn_stmt w n t = (let rowID = tn_rand t + 1 in if isWrite w n then WriteSQL rowID else ReadSQL rowID)"

fun worker_loop :: "Workload \<Rightarrow> int \<Rightarrow> int list \<Rightarrow> int \<Rightarrow> turn list \<Rightarrow> int list \<times> int" where
  "worker_loop w n lat errs [] = (lat, errs)"
| "worker_loop w n lat errs (t # ts) =
     (if tn_done t then (lat, errs)
      else if tn_fails t (turn_stmt w n t)
        then (if tn_doneAfter t then (lat, errs) else worker_loop w (n + 1) lat (errs + 1) ts)
      else worker_loop w (n + 1) (lat @ [tn_elapsed t]) errs ts)"

datatype bench_err = BenchConnections int | BenchRows int | BenchParse | BenchConnect

text \<open>
  \<^verbatim>\<open>Run\<close>: \<open>parses\<close> and \<open>connects\<close> say whether pgx accepts the connection string and opens its pool, \<open>turns i\<close> is
  what worker \<open>i\<close> meets, \<open>wall\<close> the time until the last worker is done.
\<close>

definition bench_Run ::
  "bool \<Rightarrow> bool \<Rightarrow> string \<Rightarrow> Workload \<Rightarrow> (nat \<Rightarrow> turn list) \<Rightarrow> int \<Rightarrow> bench_err + Result"
where
  "bench_Run parses connects target w turns wall =
     (if wl_Connections w < 1 then Inl (BenchConnections (wl_Connections w))
      else if wl_Rows w < 1 then Inl (BenchRows (wl_Rows w))
      else if \<not> parses then Inl BenchParse
      else if \<not> connects then Inl BenchConnect
      else let outs = map (\<lambda>i. worker_loop w 0 [] 0 (turns i)) [0..<nat (wl_Connections w)]
           in Inr (Summarize target (concat (map fst outs)) (sum_list (map snd outs)) wall))"


subsection \<open>The fence-fallback rate\<close>

record fallbackCounters =
  fc_replicaReads :: f64
  fc_fallbacks :: f64

text \<open>\<^verbatim>\<open>strings.Fields\<close> on ASCII text, with the field read so far.\<close>

fun str_fields :: "string \<Rightarrow> string \<Rightarrow> string list" where
  "str_fields cur [] = (if cur = [] then [] else [cur])"
| "str_fields cur (c # cs) =
     (if (of_char c :: nat) \<in> {9, 10, 11, 12, 13, 32}
      then (if cur = [] then str_fields [] cs else cur # str_fields [] cs)
      else str_fields (cur @ [c]) cs)"

definition metricValue :: "string \<Rightarrow> string \<Rightarrow> f64" where
  "metricValue body series_name =
     (case find (\<lambda>line. has_prefix line series_name) (str_split body (CHR 0x0A)) of
        None \<Rightarrow> Fin 0
      | Some line \<Rightarrow>
          let fields = str_fields [] line
          in if length fields < 2 then Fin 0
             else (case ParseFloat (last fields) of None \<Rightarrow> Fin 0 | Some v \<Rightarrow> v))"

text \<open>\<^verbatim>\<open>scrapeFallback\<close>; \<open>None\<close> is a request or a body that failed.\<close>

definition scrapeFallback :: "string \<Rightarrow> string option \<Rightarrow> fallbackCounters" where
  "scrapeFallback url response =
     (if url = [] then \<lparr>fc_replicaReads = Fin 0, fc_fallbacks = Fin 0\<rparr>
      else case response of
             None \<Rightarrow> \<lparr>fc_replicaReads = Fin 0, fc_fallbacks = Fin 0\<rparr>
           | Some body \<Rightarrow>
               \<lparr>fc_replicaReads = metricValue body ''pgpilot_routing_decisions_total{reason=\"read\",target=\"replica\"}'',
                fc_fallbacks = metricValue body ''pgpilot_fence_fallbacks_total''\<rparr>)"

definition fallbackRate :: "fallbackCounters \<Rightarrow> fallbackCounters \<Rightarrow> f64" where
  "fallbackRate before after =
     (let fell = f64_sub (fc_fallbacks after) (fc_fallbacks before);
          reads = f64_add (f64_sub (fc_replicaReads after) (fc_replicaReads before)) fell
      in if f64_le reads (Fin 0) then Fin 0 else f64_div fell reads)"


subsection \<open>Lemmas\<close>

text \<open>The computed rank is the exact one: the float error stays below the millionth that the sum leaves.\<close>

lemma rank_exact:
  assumes n: "0 < n" "n < 2 ^ 30" and k: "1 \<le> k" "k < (100 :: int)"
  shows "go_int (f64_add (f64_mul (f64_of_int n) (f64_round (of_int k / 100))) (f64_round (999999 / 1000000))) =
         \<lceil>of_int (n * k) / (100 :: rat)\<rceil>"
proof -
  let ?p = "of_int k / 100 :: rat" and ?c = "999999 / 1000000 :: rat" and ?x = "of_int (n * k) / 100 :: rat"
  have P: "pow2 (- 22) = 1 / 4194304" "pow2 (- 23) = 1 / 8388608" "pow2 (- 54) = 1 / 18014398509481984"
    "pow2 31 = 2147483648" "pow2 32 = 4294967296" "pow2 0 = 1" by (simp_all add: pow2_def)
  have tiny: "pow2 (-1022) \<le> r" if "1 / 1000 \<le> r" for r
  proof -
    have "pow2 (-1022) \<le> pow2 (- 10)" by (rule pow2_mono) simp
    also have "\<dots> = 1 / 1024" by (simp add: pow2_def)
    finally show ?thesis using that by linarith
  qed
  have nn: "1 \<le> (of_int n :: rat)" "of_int n < (1073741824 :: rat)"
    using n by (simp_all flip: of_int_less_numeral_iff)
  have n30: "0 \<le> n" "n < 2 ^ 53" using n by simp_all
  have kk: "1 \<le> (of_int k :: rat)" "of_int k \<le> (99 :: rat)" using k by simp_all
  from f64_round_err_bound [of ?p 0] tiny [of ?p] kk obtain p where
    p: "f64_round ?p = Fin p" "\<bar>p - ?p\<bar> \<le> 1 / 18014398509481984" by (auto simp: P)
  from f64_round_err_bound [of ?c 0] tiny [of ?c] obtain c where
    c: "f64_round ?c = Fin c" "\<bar>c - ?c\<bar> \<le> 1 / 18014398509481984" by (auto simp: P)
  have np: "\<bar>of_int n * p - ?x\<bar> \<le> 1 / 16777216"
  proof -
    have "of_int n * p - ?x = of_int n * (p - ?p)" by (simp add: algebra_simps)
    then have "\<bar>of_int n * p - ?x\<bar> = of_int n * \<bar>p - ?p\<bar>" using nn by (simp add: abs_mult)
    also have "\<dots> \<le> 1073741824 * (1 / 18014398509481984)" by (intro mult_mono p(2)) (use nn in auto)
    finally show ?thesis by simp
  qed
  have x: "1 / 100 \<le> ?x" "?x < 1073741824"
  proof -
    have "1 * 1 \<le> (of_int n * of_int k :: rat)" using nn kk by (intro mult_mono) auto
    then show "1 / 100 \<le> ?x" by simp
    have "of_int n * of_int k \<le> (of_int n * 99 :: rat)" using nn kk by (intro mult_left_mono) auto
    with nn(2) have "of_int n * of_int k < (107374182400 :: rat)" by linarith
    then show "?x < 1073741824" by simp
  qed
  have "1 / 1000 \<le> of_int n * p" "of_int n * p < 2147483648" using np x by linarith+
  then have "pow2 (-1022) \<le> of_int n * p" "of_int n * p < pow2 31" by (simp_all add: tiny P)
  from f64_round_err_bound [OF this] obtain m where
    m: "f64_round (of_int n * p) = Fin m" "\<bar>m - of_int n * p\<bar> \<le> 1 / 8388608" by (auto simp: P)
  have "1 / 1000 \<le> m + c" "m + c < 4294967296" using np x m(2) c(2) by linarith+
  then have "pow2 (-1022) \<le> m + c" "m + c < pow2 32" by (simp_all add: tiny P)
  from f64_round_err_bound [OF this] obtain s where
    s: "f64_round (m + c) = Fin s" "\<bar>s - (m + c)\<bar> \<le> 1 / 4194304" by (auto simp: P)
  have err: "\<bar>s - (?x + ?c)\<bar> < 1 / 1000000"
    using np m(2) c(2) s(2) by linarith
  have fl: "\<lfloor>s\<rfloor> = \<lceil>?x\<rceil>"
  proof -
    obtain q j where qj: "n * k = 100 * q + j" "0 \<le> j" "j < 100"
      by (metis mult_div_mod_eq pos_mod_bound pos_mod_sign zero_less_numeral)
    then have X: "?x = of_int q + of_int j / 100" by simp
    show ?thesis
    proof (cases "j = 0")
      case True
      with X have "?x = of_int q" by simp
      moreover from this err have "of_int q \<le> s" "s < of_int q + 1" by linarith+
      ultimately show ?thesis by (simp only: ceiling_of_int floor_eq_iff simp_thms)
    next
      case False
      with qj have j: "1 \<le> (of_int j :: rat)" "of_int j \<le> (99 :: rat)" by simp_all
      have "\<lceil>?x\<rceil> = q + 1" unfolding X using j by (simp add: ceiling_eq_iff)
      moreover from X err j have "of_int q + 1 \<le> s" "s < of_int q + 2" by linarith+
      then have "\<lfloor>s\<rfloor> = q + 1" by (simp add: floor_eq_iff)
      ultimately show ?thesis by simp
    qed
  qed
  have "0 \<le> s" "s < 4294967296" using err x by linarith+
  then have "rat_trunc s = \<lfloor>s\<rfloor>" "\<lfloor>s\<rfloor> < 2 ^ 63" "0 \<le> \<lfloor>s\<rfloor>" by (auto simp: rat_trunc_def floor_less_iff)
  with fl show ?thesis by (simp add: f64_of_int_exact [OF n30] p m c s go_int_def)
qed

text \<open>The percentile \<open>k\<close> of a sample: a value of it that at least \<open>k\<close> per cent do not exceed, and fewer are below.\<close>

definition is_quantile :: "int \<Rightarrow> int list \<Rightarrow> int \<Rightarrow> bool" where
  "is_quantile k xs v \<longleftrightarrow>
     v \<in> set xs \<and> k * int (length xs) \<le> 100 * int (length (filter (\<lambda>x. x \<le> v) xs)) \<and>
     100 * int (length (filter (\<lambda>x. x < v) xs)) < k * int (length xs)"

lemma sorted_rank:
  fixes ys :: "int list"
  assumes "sorted ys" "i < length ys"
  shows "Suc i \<le> length (filter (\<lambda>y. y \<le> ys ! i) ys)" "length (filter (\<lambda>y. y < ys ! i) ys) \<le> i"
proof -
  have "filter (\<lambda>y. y \<le> ys ! i) (take (Suc i) ys) = take (Suc i) ys"
    using assms by (auto simp: filter_id_conv in_set_conv_nth less_Suc_eq_le intro!: sorted_nth_mono)
  moreover have "length (filter P ys) = length (filter P (take j ys)) + length (filter P (drop j ys))" for P j
    by (metis append_take_drop_id filter_append length_append)
  ultimately show "Suc i \<le> length (filter (\<lambda>y. y \<le> ys ! i) ys)"
    using assms(2) by (metis Suc_leI le_add1 length_take min.absorb2)
  have "filter (\<lambda>y. y < ys ! i) (drop i ys) = []"
    using assms by (auto simp: filter_empty_conv in_set_conv_nth not_less intro!: sorted_nth_mono)
  then have "length (filter (\<lambda>y. y < ys ! i) ys) = length (filter (\<lambda>y. y < ys ! i) (take i ys))"
    by (metis append_Nil2 append_take_drop_id filter_append)
  also have "\<dots> \<le> length (take i ys)" by (rule length_filter_le)
  finally show "length (filter (\<lambda>y. y < ys ! i) ys) \<le> i" by simp
qed

lemma Percentile_quantile:
  assumes n: "xs \<noteq> []" "length xs < 2 ^ 30" and k: "1 \<le> k" "k < 100"
  shows "is_quantile k xs (Percentile (sort xs) (f64_round (of_int k / 100)))"
proof -
  let ?n = "int (length xs)"
  define m where "m = \<lceil>of_int (?n * k) / (100 :: rat)\<rceil>"
  have n': "0 < ?n" "?n < 2 ^ 30" using n by simp_all
  have "m = - (- (?n * k) div 100)"
    using ceiling_divide_eq_div [of "?n * k" 100, where ?'a = rat] by (simp add: m_def)
  then have mi: "?n * k \<le> 100 * m" "100 * (m - 1) < ?n * k" by presburger+
  have nk: "?n * 1 \<le> ?n * k" "?n * k \<le> ?n * 100" using k n' by (intro mult_left_mono; simp)+
  have "0 < 100 * m" using mi(1) nk(1) n' by linarith
  moreover have "100 * (m - 1) < 100 * ?n" using mi(2) nk(2) by linarith
  ultimately have b: "1 \<le> m" "m \<le> ?n" by simp_all
  from b have i: "nat (m - 1) < length (sort xs)" "Suc (nat (m - 1)) = nat m" by (auto simp: nat_less_iff)
  have P: "Percentile (sort xs) (f64_round (of_int k / 100)) = sort xs ! nat (m - 1)"
    using rank_exact [OF n' k] b n(1) by (simp add: Percentile_def Let_def m_def)
  note sr = sorted_rank [OF sorted_sort i(1)]
  have "length (filter Q (sort xs)) = length (filter Q xs)" for Q by (simp add: filter_sort)
  with sr i(2) b have "m \<le> int (length (filter (\<lambda>x. x \<le> sort xs ! nat (m - 1)) xs))"
    "int (length (filter (\<lambda>x. x < sort xs ! nat (m - 1)) xs)) \<le> m - 1" by simp_all
  moreover have "sort xs ! nat (m - 1) \<in> set xs" using nth_mem [OF i(1)] by simp
  ultimately show ?thesis using mi by (simp add: P is_quantile_def mult.commute)
qed

lemma f64_of_int_diff:
  assumes "0 \<le> a" "a \<le> b" "b < 2 ^ 53"
  shows "f64_sub (f64_of_int b) (f64_of_int a) = Fin (of_int (b - a))"
proof -
  have "f64_of_int b = Fin (of_int b)" "f64_of_int a = Fin (of_int a)" "f64_of_int (b - a) = Fin (of_int (b - a))"
    using assms by (simp_all only: f64_of_int_exact)
  moreover have "f64_sub (Fin (of_int b)) (Fin (of_int a)) = f64_of_int (b - a)"
    by (simp add: f64_sub_def f64_of_int_def)
  ultimately show ?thesis by (simp only:)
qed

text \<open>A fraction of two machine counts is rounded into the unit interval, and only zero to zero.\<close>

lemma f64_fraction:
  assumes "0 \<le> a" "a \<le> b" "0 < b" "b < (2 :: int) ^ 53"
  shows "\<exists>v. f64_div (Fin (of_int a)) (Fin (of_int b)) = Fin v \<and> 0 \<le> v \<and> v \<le> 1 \<and>
           \<bar>v - of_int a / of_int b\<bar> \<le> 1 / 2 ^ 53 \<and> (v = 0 \<longleftrightarrow> a = 0)"
proof (cases "a = 0")
  case True
  with assms show ?thesis by (simp add: f64_round_def)
next
  case False
  let ?q = "of_int a / of_int b :: rat"
  have q: "?q \<le> 1" "0 < ?q" using assms False by simp_all
  from f64_round_le [of ?q 1 0] q obtain v where v: "f64_round ?q = Fin v" "0 \<le> v" "v \<le> 1"
    by (auto simp: pow2_def)
  note b = ilog2_bounds [OF q(2)]
  have "1 / 2 ^ 53 \<le> ?q"
  proof -
    have "(of_int b :: rat) \<le> 2 ^ 53" using assms(4) by (metis less_imp_le of_int_le_iff of_int_numeral of_int_power)
    then have "1 / 2 ^ 53 \<le> 1 / (of_int b :: rat)" using assms(3) by (simp add: field_simps)
    also have "\<dots> \<le> ?q" using False assms by (simp add: divide_right_mono)
    finally show ?thesis .
  qed
  moreover have "pow2 (- 53) = 1 / 2 ^ 53" by (simp add: pow2_def)
  ultimately have "pow2 (- 53) < pow2 (ilog2 ?q + 1)" using b(2) by linarith
  then have e: "- 53 \<le> ilog2 ?q" using pow2_strict_mono by fastforce
  have "pow2 (ilog2 ?q) < pow2 1" using b(1) q(1) by (simp add: pow2_def [of 1])
  then have e1: "ilog2 ?q < 1" by (rule pow2_strict_mono)
  have err: "\<bar>v - ?q\<bar> \<le> pow2 (ilog2 ?q - 53)"
    using f64_round_err [OF b] e e1 v(1) by auto
  have "pow2 (ilog2 ?q - 53) \<le> pow2 (- 53)" using e1 by (intro pow2_mono) simp
  moreover have "pow2 (ilog2 ?q - 53) < pow2 (ilog2 ?q)"
  proof -
    have "pow2 (ilog2 ?q) = pow2 (ilog2 ?q - 53) * 2 ^ 53"
      using pow2_add [of "ilog2 ?q - 53" 53] by (simp add: pow2_def [of 53])
    then show ?thesis using pow2_pos [of "ilog2 ?q - 53"] by simp
  qed
  ultimately have "v \<noteq> 0" "\<bar>v - ?q\<bar> \<le> 1 / 2 ^ 53"
    using err b(1) q by (auto simp: pow2_def [of "- 53"])
  with v False assms show ?thesis by auto
qed


subsection \<open>Properties\<close>

text \<open>
  The percentiles of a summary are exact although they are computed with floats: for up to a billion
  transactions, in any order, P50, P95 and P99 are latencies that were measured, that at least 50, 95
  or 99 per cent of the transactions did not exceed, while fewer were faster.
\<close>

theorem Summarize_quantiles:
  assumes "latencies \<noteq> []" "length latencies < 2 ^ 30"
  shows "is_quantile 50 latencies (r_P50 (Summarize target latencies errs wall)) \<and>
         is_quantile 95 latencies (r_P95 (Summarize target latencies errs wall)) \<and>
         is_quantile 99 latencies (r_P99 (Summarize target latencies errs wall))"
  using Percentile_quantile [OF assms, of 50] Percentile_quantile [OF assms, of 95] Percentile_quantile [OF assms, of 99]
  by (simp add: Summarize_def Let_def)

theorem Summarize_quantiles_witness:
  "is_quantile 95 [30, 10, 20] (r_P95 (Summarize ''direct'' [30, 10, 20] 0 1000))"
  by (rule Summarize_quantiles [THEN conjunct2, THEN conjunct1]) simp_all

text \<open>
  The fence-fallback rate is a fraction: for counters that do not go back and stay below \<open>2^53\<close>, it is the
  share of the run's reads that fell back, within \<open>2^-53\<close>, between 0 and 1, and zero only when none did.
\<close>

theorem fallbackRate_fraction:
  assumes "0 \<le> r0" "r0 \<le> r1" "0 \<le> f0" "f0 \<le> f1" "r1 < 2 ^ 53" "f1 < 2 ^ 53" "(r1 - r0) + (f1 - f0) < (2 :: int) ^ 53"
    and "0 < (r1 - r0) + (f1 - f0)"
  shows "\<exists>v. fallbackRate \<lparr>fc_replicaReads = f64_of_int r0, fc_fallbacks = f64_of_int f0\<rparr>
                \<lparr>fc_replicaReads = f64_of_int r1, fc_fallbacks = f64_of_int f1\<rparr> = Fin v \<and> 0 \<le> v \<and> v \<le> 1 \<and>
           \<bar>v - of_int (f1 - f0) / of_int ((r1 - r0) + (f1 - f0))\<bar> \<le> 1 / 2 ^ 53 \<and> (v = 0 \<longleftrightarrow> f1 = f0)"
proof -
  let ?fell = "f1 - f0" and ?reads = "(r1 - r0) + (f1 - f0)"
  have "f64_add (Fin (of_int (r1 - r0))) (Fin (of_int ?fell)) = f64_of_int ?reads"
    by (simp add: f64_of_int_def)
  also have "\<dots> = Fin (of_int ?reads)" using assms by (intro f64_of_int_exact) simp_all
  finally have add: "f64_add (Fin (of_int (r1 - r0))) (Fin (of_int ?fell)) = Fin (of_int ?reads)" .
  have pos: "\<not> f64_le (Fin (of_int ?reads)) (Fin 0)" using assms(8) by (simp flip: of_int_add of_int_diff)
  have "fallbackRate \<lparr>fc_replicaReads = f64_of_int r0, fc_fallbacks = f64_of_int f0\<rparr>
      \<lparr>fc_replicaReads = f64_of_int r1, fc_fallbacks = f64_of_int f1\<rparr> = f64_div (Fin (of_int ?fell)) (Fin (of_int ?reads))"
    using f64_of_int_diff [of r0 r1] f64_of_int_diff [of f0 f1] assms(1-6) pos
    by (simp only: fallbackRate_def fallbackCounters.simps Let_def add if_False)
  with f64_fraction [of ?fell ?reads] assms show ?thesis by auto
qed

theorem fallbackRate_fraction_witness:
  "\<exists>v. fallbackRate \<lparr>fc_replicaReads = f64_of_int 0, fc_fallbacks = f64_of_int 0\<rparr>
          \<lparr>fc_replicaReads = f64_of_int 3, fc_fallbacks = f64_of_int 1\<rparr> = Fin v \<and> v \<noteq> 0 \<and> \<bar>v - 1 / 4\<bar> \<le> 1 / 2 ^ 53"
  using fallbackRate_fraction [of 0 3 0 1] by auto

end
