(* ===== verification/Report.thy ===== *)
theory Report
  imports Bench GoDecode "HOL-Library.List_Lexorder" "HOL-Library.Char_ord"
begin

text \<open>
  The benchmark report: \<^verbatim>\<open>internal/bench/chart.go\<close>, which draws a bar chart as SVG text, and of
  \<^verbatim>\<open>cmd/benchreport/main.go\<close> the grouping of the result files, the order of the targets, the table and the two
  charts, and its \<^verbatim>\<open>run\<close> with its flags. Listing the directory, the contents of a file, and whether a file can be
  written are parameters.
\<close>


subsection \<open>Formatting\<close>

text \<open>\<^verbatim>\<open>%.0f\<close> and \<^verbatim>\<open>%.1f\<close>: the exact value, rounded once, halves to even.\<close>

fun fmt_fixed :: "bool \<Rightarrow> f64 \<Rightarrow> string" where
  "fmt_fixed tenths (Fin v) =
     (if v < 0 then ''-'' else []) @
     (if tenths
      then (let n = nat (round_half_even (\<bar>v\<bar> * 10)) in Itoa_nat (n div 10) @ ''.'' @ Itoa_nat (n mod 10))
      else Itoa_nat (nat (round_half_even \<bar>v\<bar>)))"
| "fmt_fixed tenths PInf = ''+Inf''"
| "fmt_fixed tenths NInf = ''-Inf''"
| "fmt_fixed tenths NaN = ''NaN''"

definition trimNum :: "f64 \<Rightarrow> string" where
  "trimNum v = trim_suffix (fmt_fixed True v) ''.0''"

definition esc_char :: "char \<Rightarrow> string" where
  "esc_char c = (if c = CHR ''&'' then ''&amp;'' else if c = CHR ''<'' then ''&lt;'' else if c = CHR ''>'' then ''&gt;'' else [c])"

definition esc :: "string \<Rightarrow> string" where
  "esc s = concat (map esc_char s)"

definition max1 :: "int \<Rightarrow> int" where
  "max1 n = (if n < 1 then 1 else n)"

text \<open>An element of the drawing: its name and attributes, and its text if it has one.\<close>

definition attr :: "string \<times> string \<Rightarrow> string" where
  "attr kv = '' '' @ fst kv @ ''=\"'' @ snd kv @ ''\"''"

definition element :: "string \<Rightarrow> (string \<times> string) list \<Rightarrow> string" where
  "element name attrs = ''<'' @ name @ concat (map attr attrs) @ ''/>''"

definition text_element :: "(string \<times> string) list \<Rightarrow> string \<Rightarrow> string" where
  "text_element attrs s = ''<text'' @ concat (map attr attrs) @ ''>'' @ s @ ''</text>''"


subsection \<open>The chart\<close>

record Series =
  se_Name :: string
  se_Values :: "f64 list"

definition chartColors :: "string list" where
  "chartColors = [''#4c78a8'', ''#f58518'', ''#54a24b'', ''#e45756'', ''#72b7b2'']"

definition plotW :: int where "plotW = 760 - 60 - 20"
definition plotH :: int where "plotH = 420 - 50 - 90"

definition chart_max :: "Series list \<Rightarrow> f64" where
  "chart_max ss =
     (let m = foldl (\<lambda>m v. if f64_lt m v then v else m) (Fin 0) (concat (map se_Values ss))
      in if f64_le m (Fin 0) then Fin 1 else m)"

definition grid_line :: "f64 \<Rightarrow> nat \<Rightarrow> string" where
  "grid_line mx i =
     (let frac = f64_div (f64_of_int (int i)) (Fin 4);
          y = 50 + plotH - go_int (f64_mul frac (f64_of_int plotH))
      in element ''line'' [(''x1'', Itoa 60), (''y1'', Itoa y), (''x2'', Itoa (60 + plotW)), (''y2'', Itoa y), (''stroke'', ''#eee'')] @
         text_element [(''x'', Itoa (60 - 6)), (''y'', Itoa (y + 4)), (''text-anchor'', ''end''), (''fill'', ''#777'')]
           (trimNum (f64_mul mx frac)))"

text \<open>The rectangle of series \<open>si\<close> of \<open>nSeries\<close> in group \<open>gi\<close> of \<open>nGroups\<close>: left, top, width, height.\<close>

definition chart_bar :: "f64 \<Rightarrow> int \<Rightarrow> int \<Rightarrow> int \<Rightarrow> int \<Rightarrow> f64 \<Rightarrow> int \<times> int \<times> int \<times> int" where
  "chart_bar mx nGroups nSeries gi si v =
     (let groupW = plotW div nGroups;
          barW = int_quot (groupW - 4 * (nSeries + 1)) (max1 nSeries);
          gx = 60 + gi * groupW;
          bh = go_int (f64_mul (f64_div v mx) (f64_of_int plotH))
      in (gx + 4 + si * (barW + 4), 50 + plotH - bh, barW, bh))"

text \<open>The value a bar shows: a series may have fewer values than there are groups.\<close>

definition chart_value :: "Series list \<Rightarrow> nat \<Rightarrow> nat \<Rightarrow> f64" where
  "chart_value ss gi si = (let vs = se_Values (ss ! si) in if gi < length vs then vs ! gi else Fin 0)"

definition chart_group :: "f64 \<Rightarrow> string list \<Rightarrow> Series list \<Rightarrow> nat \<Rightarrow> string" where
  "chart_group mx groups ss gi =
     (let groupW = plotW div int (length groups); gx = 60 + int gi * groupW
      in concat (map (\<lambda>si.
           let (bx, by', barW, bh) =
                 chart_bar mx (int (length groups)) (int (length ss)) (int gi) (int si) (chart_value ss gi si)
           in element ''rect'' [(''x'', Itoa bx), (''y'', Itoa by'), (''width'', Itoa barW), (''height'', Itoa bh),
                (''fill'', chartColors ! (si mod length chartColors))]) [0..<length ss]) @
         text_element [(''x'', Itoa (gx + groupW div 2)), (''y'', Itoa (50 + plotH + 18)), (''text-anchor'', ''middle''),
           (''fill'', ''#333'')] (esc (groups ! gi)))"

definition chart_legend :: "Series list \<Rightarrow> nat \<Rightarrow> string" where
  "chart_legend ss si =
     (let x = 60 + int si * 140; ly = 420 - 24
      in element ''rect'' [(''x'', Itoa x), (''y'', Itoa (ly - 10)), (''width'', ''12''), (''height'', ''12''),
           (''fill'', chartColors ! (si mod length chartColors))] @
         text_element [(''x'', Itoa (x + 18)), (''y'', Itoa ly), (''fill'', ''#333'')] (esc (se_Name (ss ! si))))"

definition BarChartSVG :: "string \<Rightarrow> string \<Rightarrow> string list \<Rightarrow> Series list \<Rightarrow> string" where
  "BarChartSVG title yUnit groups ss =
     (let mx = chart_max ss;
          frame =
            ''<svg xmlns=\"http://www.w3.org/2000/svg\" viewBox=\"0 0 760 420\" font-family=\"sans-serif\" font-size=\"12\">'' @
            element ''rect'' [(''width'', Itoa 760), (''height'', Itoa 420), (''fill'', ''white'')] @
            text_element [(''x'', Itoa 60), (''y'', ''24''), (''font-size'', ''16''), (''font-weight'', ''bold'')] (esc title) @
            (if yUnit \<noteq> []
             then text_element [(''x'', ''8''), (''y'', Itoa (50 - 8)), (''font-size'', ''11''), (''fill'', ''#555'')] (esc yUnit)
             else []) @
            element ''line'' [(''x1'', Itoa 60), (''y1'', Itoa 50), (''x2'', Itoa 60), (''y2'', Itoa (50 + plotH)), (''stroke'', ''#ccc'')] @
            element ''line'' [(''x1'', Itoa 60), (''y1'', Itoa (50 + plotH)), (''x2'', Itoa (60 + plotW)), (''y2'', Itoa (50 + plotH)),
              (''stroke'', ''#ccc'')] @
            concat (map (grid_line mx) [0..<5])
      in if groups = [] then frame @ ''</svg>''
         else frame @ concat (map (chart_group mx groups ss) [0..<length groups]) @
              concat (map (chart_legend ss) [0..<length ss]) @ ''</svg>'')"


subsection \<open>The report\<close>

definition targetOrder :: "string list" where
  "targetOrder = [''direct'', ''pgbouncer'', ''pgpilot-strict'', ''pgpilot-relaxed'', ''pgpilot'']"

fun target_rank :: "nat \<Rightarrow> string list \<Rightarrow> string \<Rightarrow> nat" where
  "target_rank i [] t = length targetOrder"
| "target_rank i (name # names) t = (if t = name then i else target_rank (i + 1) names t)"

definition sortTargets :: "Result list \<Rightarrow> Result list" where
  "sortTargets rs = sort_key (\<lambda>r. target_rank 0 targetOrder (r_Target r)) rs"

text \<open>\<^verbatim>\<open>filepath.Base\<close>, and the scenario a file belongs to.\<close>

definition file_base :: "string \<Rightarrow> string" where
  "file_base path =
     (if path = [] then ''.''
      else let p = rev (dropWhile (\<lambda>c. c = CHR ''/'') (rev path))
           in if p = [] then ''/'' else rev (takeWhile (\<lambda>c. c \<noteq> CHR ''/'') (rev p)))"

definition scenario_of :: "string \<Rightarrow> string option" where
  "scenario_of f =
     (case str_cut (trim_suffix (file_base f) ''.json'') ''__'' of (sc, _, ok) \<Rightarrow> if ok then Some sc else None)"

text \<open>Decoding a result, and reading it from a file: \<open>contents f\<close> is an error or the text of file \<open>f\<close>.\<close>

definition Result_fields :: "Result fields" where
  "Result_fields =
     [(''target'', field r_Target (\<lambda>x r. r\<lparr>r_Target := x\<rparr>) dec_string),
      (''duration'', field r_Duration (\<lambda>x r. r\<lparr>r_Duration := x\<rparr>) dec_int),
      (''transactions'', field r_Transactions (\<lambda>x r. r\<lparr>r_Transactions := x\<rparr>) dec_int),
      (''errors'', field r_Errors (\<lambda>x r. r\<lparr>r_Errors := x\<rparr>) dec_int),
      (''tps'', field r_TPS (\<lambda>x r. r\<lparr>r_TPS := x\<rparr>) dec_float),
      (''mean'', field r_Mean (\<lambda>x r. r\<lparr>r_Mean := x\<rparr>) dec_int),
      (''p50'', field r_P50 (\<lambda>x r. r\<lparr>r_P50 := x\<rparr>) dec_int),
      (''p95'', field r_P95 (\<lambda>x r. r\<lparr>r_P95 := x\<rparr>) dec_int),
      (''p99'', field r_P99 (\<lambda>x r. r\<lparr>r_P99 := x\<rparr>) dec_int),
      (''fence_fallback_rate'', field r_FenceFallbackRate (\<lambda>x r. r\<lparr>r_FenceFallbackRate := x\<rparr>) dec_float)]"

definition zero_Result :: Result where
  "zero_Result =
     \<lparr>r_Target = [], r_Duration = 0, r_Transactions = 0, r_Errors = 0, r_TPS = Fin 0, r_Mean = 0, r_P50 = 0, r_P95 = 0,
      r_P99 = 0, r_FenceFallbackRate = Fin 0\<rparr>"

definition read_result :: "(string \<Rightarrow> string + string) \<Rightarrow> string \<Rightarrow> string + Result" where
  "read_result contents f =
     (case contents f of
        Inl e \<Rightarrow> Inl e
      | Inr raw \<Rightarrow>
          (case Option.bind (json_unmarshal raw) (\<lambda>v. dec_struct False Result_fields v zero_Result) of
             None \<Rightarrow> Inl (''parse '' @ f)
           | Some r \<Rightarrow> Inr r))"

text \<open>The loop of \<^verbatim>\<open>load\<close>; \<open>read f\<close> is what reading and decoding file \<open>f\<close> gives.\<close>

fun load_loop ::
  "(string \<Rightarrow> string + Result) \<Rightarrow> string list \<Rightarrow> (string \<rightharpoonup> Result list) \<Rightarrow> string list
   \<Rightarrow> string + (string \<rightharpoonup> Result list) \<times> string list"
where
  "load_loop read [] scenarios order = Inr (scenarios, order)"
| "load_loop read (f # fs) scenarios order =
     (case scenario_of f of
        None \<Rightarrow> load_loop read fs scenarios order
      | Some sc \<Rightarrow>
          (case read f of
             Inl e \<Rightarrow> Inl e
           | Inr r \<Rightarrow>
               load_loop read fs (scenarios(sc \<mapsto> map_get scenarios [] sc @ [r]))
                 (if scenarios sc = None then order @ [sc] else order)))"

definition load_results ::
  "(string \<Rightarrow> string + Result) \<Rightarrow> string list \<Rightarrow> string + (string \<rightharpoonup> Result list) \<times> string list"
where
  "load_results read files = load_loop read (sort files) Map.empty []"

definition dur :: "int \<Rightarrow> string" where
  "dur d = Duration_String (Duration_Round d 10000)"

definition ms :: "int \<Rightarrow> f64" where
  "ms d = f64_div (f64_of_int d) (f64_of_int 1000000)"

definition em_dash :: string where
  "em_dash = [CHR 0xE2, CHR 0x80, CHR 0x94]"

definition markdownTable :: "Result list \<Rightarrow> string" where
  "markdownTable rs =
     ''| target | tps | p50 | p95 | p99 | fence-fallback |'' @ [CHR 0x0A] @
     ''| --- | ---: | ---: | ---: | ---: | ---: |'' @ [CHR 0x0A] @
     concat (map (\<lambda>r.
       let fallback = (if f64_lt (Fin 0) (r_FenceFallbackRate r)
                       then fmt_fixed True (f64_mul (r_FenceFallbackRate r) (Fin 100)) @ ''%'' else em_dash)
       in ''| '' @ r_Target r @ '' | '' @ fmt_fixed False (r_TPS r) @ '' | '' @ dur (r_P50 r) @ '' | '' @ dur (r_P95 r) @
          '' | '' @ dur (r_P99 r) @ '' | '' @ fallback @ '' |'' @ [CHR 0x0A]) rs)"

definition throughputChart :: "string \<Rightarrow> Result list \<Rightarrow> string" where
  "throughputChart scenario rs =
     BarChartSVG (''Throughput '' @ em_dash @ '' '' @ scenario) ''transactions/sec'' (map r_Target rs)
       [\<lparr>se_Name = ''tps'', se_Values = map r_TPS rs\<rparr>]"

definition latencyChart :: "string \<Rightarrow> Result list \<Rightarrow> string" where
  "latencyChart scenario rs =
     BarChartSVG (''Latency '' @ em_dash @ '' '' @ scenario) ''milliseconds'' (map r_Target rs)
       [\<lparr>se_Name = ''p50'', se_Values = map (ms \<circ> r_P50) rs\<rparr>, \<lparr>se_Name = ''p95'', se_Values = map (ms \<circ> r_P95) rs\<rparr>,
        \<lparr>se_Name = ''p99'', se_Values = map (ms \<circ> r_P99) rs\<rparr>]"

definition report_section :: "(string \<rightharpoonup> Result list) \<Rightarrow> string \<Rightarrow> string" where
  "report_section scenarios sc =
     (let results = sortTargets (map_get scenarios [] sc)
      in ''## '' @ sc @ [CHR 0x0A, CHR 0x0A] @ markdownTable results @ [CHR 0x0A] @
         ''![throughput](throughput-'' @ sc @ ''.svg)'' @ [CHR 0x0A, CHR 0x0A] @
         ''![latency](latency-'' @ sc @ ''.svg)'' @ [CHR 0x0A, CHR 0x0A])"


text \<open>
  \<^verbatim>\<open>run\<close>. The files it writes are listed with their names in the output directory; \<open>wr name\<close> is the error of writing one,
  if any. \<open>glob\<close> is what listing the directory gives.
\<close>

record report_flags =
  rf_in :: string
  rf_out :: string

definition report_flag_set :: "report_flags flag_set" where
  "report_flag_set =
     [''in'' \<mapsto> (False, \<lambda>v fl. Some (fl\<lparr>rf_in := v\<rparr>)), ''out'' \<mapsto> (False, \<lambda>v fl. Some (fl\<lparr>rf_out := v\<rparr>))]"

definition default_report_flags :: report_flags where
  "default_report_flags = \<lparr>rf_in = ''bench/results'', rf_out = ''bench/results''\<rparr>"

datatype report_err = RepGlob string | RepNoFiles string | RepLoad string | RepWrite string

definition throughput_file :: "string \<Rightarrow> string" where
  "throughput_file sc = ''throughput-'' @ sc @ ''.svg''"

definition latency_file :: "string \<Rightarrow> string" where
  "latency_file sc = ''latency-'' @ sc @ ''.svg''"

fun report_loop ::
  "(string \<Rightarrow> string option) \<Rightarrow> (string \<rightharpoonup> Result list) \<Rightarrow> string list \<Rightarrow> string \<Rightarrow> (string \<times> string) list
   \<Rightarrow> (report_err + string) \<times> (string \<times> string) list"
where
  "report_loop wr scenarios [] md written = (Inr md, written)"
| "report_loop wr scenarios (sc # order) md written =
     (let results = sortTargets (map_get scenarios [] sc)
      in case wr (throughput_file sc) of
           Some e \<Rightarrow> (Inl (RepWrite e), written)
         | None \<Rightarrow>
             (let written1 = written @ [(throughput_file sc, throughputChart sc results)]
              in case wr (latency_file sc) of
                   Some e \<Rightarrow> (Inl (RepWrite e), written1)
                 | None \<Rightarrow>
                     report_loop wr scenarios order (md @ report_section scenarios sc)
                       (written1 @ [(latency_file sc, latencyChart sc results)])))"

definition report_run ::
  "report_flags \<Rightarrow> string + string list \<Rightarrow> (string \<Rightarrow> string + string) \<Rightarrow> (string \<Rightarrow> string option)
   \<Rightarrow> report_err option \<times> (string \<times> string) list"
where
  "report_run fl glob contents wr =
     (case glob of
        Inl e \<Rightarrow> (Some (RepGlob e), [])
      | Inr files \<Rightarrow>
          if files = [] then (Some (RepNoFiles (rf_in fl)), [])
          else case load_results (read_result contents) files of
                 Inl e \<Rightarrow> (Some (RepLoad e), [])
               | Inr (scenarios, order) \<Rightarrow>
                   (case report_loop wr scenarios order (''# Benchmark results'' @ [CHR 0x0A, CHR 0x0A]) [] of
                      (Inl e, written) \<Rightarrow> (Some e, written)
                    | (Inr md, written) \<Rightarrow>
                        (case wr ''results.md'' of
                           Some e \<Rightarrow> (Some (RepWrite e), written)
                         | None \<Rightarrow> (None, written @ [(''results.md'', md)]))))"


subsection \<open>Lemmas\<close>

lemma esc_plain: "CHR ''<'' \<notin> set (esc s)" "CHR ''>'' \<notin> set (esc s)"
  by (induction s) (auto simp: esc_def esc_char_def)

lemma f64_lt_Fin: "f64_lt (Fin a) (Fin b) = (a < b)" by simp

text \<open>A value between zero and the largest one gets a bar no higher than the plot.\<close>

lemma bar_height:
  assumes "0 \<le> v" "v \<le> m" "0 < m"
  shows "0 \<le> go_int (f64_mul (f64_div (Fin v) (Fin m)) (f64_of_int plotH))"
    "go_int (f64_mul (f64_div (Fin v) (Fin m)) (f64_of_int plotH)) \<le> plotH"
proof -
  have h: "f64_of_int plotH = Fin 280" by (subst f64_of_int_exact) (simp_all add: plotH_def)
  have "0 \<le> v / m" "v / m \<le> of_int 1 * pow2 0" using assms by (simp_all add: pow2_def)
  from f64_round_le [OF this] obtain q where q: "f64_round (v / m) = Fin q" "0 \<le> q" "q \<le> 1" by (auto simp: pow2_def)
  have "0 \<le> q * 280" "q * 280 \<le> of_int 280 * pow2 0" using q by (simp_all add: pow2_def)
  from f64_round_le [OF this] obtain b where b: "f64_round (q * 280) = Fin b" "0 \<le> b" "b \<le> 280" by (auto simp: pow2_def)
  then have "\<lfloor>b\<rfloor> \<le> 280" "0 \<le> \<lfloor>b\<rfloor>" by (simp_all add: floor_le_iff)
  moreover have "f64_mul (f64_div (Fin v) (Fin m)) (f64_of_int plotH) = Fin b" using assms q(1) b(1) by (simp add: h)
  ultimately show "0 \<le> go_int (f64_mul (f64_div (Fin v) (Fin m)) (f64_of_int plotH))"
    "go_int (f64_mul (f64_div (Fin v) (Fin m)) (f64_of_int plotH)) \<le> plotH"
    using b(2) by (simp_all add: go_int_def rat_trunc_def plotH_def)
qed

lemma foldl_max_Fin:
  "\<forall>v \<in> set vs. \<exists>x. v = Fin x \<Longrightarrow>
   \<exists>b. foldl (\<lambda>m v. if f64_lt m v then v else m) (Fin a) vs = Fin b \<and> a \<le> b \<and> (\<forall>x. Fin x \<in> set vs \<longrightarrow> x \<le> b)"
proof (induction vs arbitrary: a)
  case (Cons v vs)
  then obtain x where x: "v = Fin x" by auto
  from Cons.IH [of "max a x"] Cons.prems obtain b where
    "foldl (\<lambda>m v. if f64_lt m v then v else m) (Fin (max a x)) vs = Fin b" "max a x \<le> b" "\<forall>y. Fin y \<in> set vs \<longrightarrow> y \<le> b" by auto
  with x show ?case by (intro exI [of _ b]) (auto simp: max_def split: if_splits)
qed simp

lemma chart_max_bound:
  assumes "\<forall>s \<in> set ss. \<forall>v \<in> set (se_Values s). \<exists>x. v = Fin x"
  shows "\<exists>m. chart_max ss = Fin m \<and> 0 < m \<and> (\<forall>s \<in> set ss. \<forall>x. Fin x \<in> set (se_Values s) \<longrightarrow> x \<le> m)"
proof -
  from foldl_max_Fin [of "concat (map se_Values ss)" 0] assms obtain b where
    b: "foldl (\<lambda>m v. if f64_lt m v then v else m) (Fin 0) (concat (map se_Values ss)) = Fin b"
    "\<forall>x. Fin x \<in> set (concat (map se_Values ss)) \<longrightarrow> x \<le> b" by auto
  show ?thesis
  proof (cases "b \<le> 0")
    case True
    with b show ?thesis by (intro exI [of _ 1]) (force simp: chart_max_def)
  next
    case False
    with b show ?thesis by (intro exI [of _ b]) (auto simp: chart_max_def)
  qed
qed

text \<open>The bars of a group lie side by side within it.\<close>

lemma bar_columns:
  assumes "0 < n" "4 * (n + 1) \<le> g" "0 \<le> si" "si < n"
  shows "0 \<le> int_quot (g - 4 * (n + 1)) (max1 n)" "4 + si * (int_quot (g - 4 * (n + 1)) (max1 n) + 4) + int_quot (g - 4 * (n + 1)) (max1 n) \<le> g"
proof -
  define b where "b = (g - 4 * (n + 1)) div n"
  have q: "int_quot (g - 4 * (n + 1)) (max1 n) = b" using assms(1,2) by (simp add: int_quot_def max1_def b_def)
  have b: "0 \<le> b" "n * b \<le> g - 4 * (n + 1)" using assms(1,2)
    by (simp_all add: b_def pos_imp_zdiv_nonneg_iff) (metis mult.commute div_mult_mod_eq add.commute le_add_same_cancel1 pos_mod_sign assms(1))
  have "(si + 1) * (b + 4) \<le> n * (b + 4)" using assms(4) b(1) by (intro mult_right_mono) simp_all
  with b q show "0 \<le> int_quot (g - 4 * (n + 1)) (max1 n)"
    "4 + si * (int_quot (g - 4 * (n + 1)) (max1 n) + 4) + int_quot (g - 4 * (n + 1)) (max1 n) \<le> g"
    by (simp_all add: algebra_simps)
qed

lemma bar_width_negative:
  assumes "0 < n"
  shows "int_quot (g - 4 * (n + 1)) (max1 n) < 0 \<longleftrightarrow> g + n \<le> 4 * (n + 1)"
proof (cases "4 * (n + 1) \<le> g")
  case True
  with bar_columns(1) [OF assms True, of 0] assms show ?thesis by simp
next
  case False
  then have "int_quot (g - 4 * (n + 1)) (max1 n) = - ((4 * (n + 1) - g) div n)"
    using assms by (simp add: int_quot_def max1_def)
  moreover have "0 < (4 * (n + 1) - g) div n \<longleftrightarrow> n \<le> 4 * (n + 1) - g"
    using assms pos_imp_zdiv_pos_iff by blast
  ultimately show ?thesis by linarith
qed

lemma chart_value_bound:
  assumes "\<forall>s \<in> set ss. \<forall>v \<in> set (se_Values s). \<exists>x. v = Fin x \<and> 0 \<le> x" "si < length ss"
  obtains x m where "chart_value ss gi si = Fin x" "0 \<le> x" "chart_max ss = Fin m" "0 < m" "x \<le> m"
proof -
  obtain m where m: "chart_max ss = Fin m" "0 < m" "\<forall>s \<in> set ss. \<forall>x. Fin x \<in> set (se_Values s) \<longrightarrow> x \<le> m"
    using chart_max_bound [of ss] assms(1) by blast
  show thesis
  proof (cases "gi < length (se_Values (ss ! si))")
    case True
    then have "se_Values (ss ! si) ! gi \<in> set (se_Values (ss ! si))" "ss ! si \<in> set ss" using assms(2) by simp_all
    with assms(1) obtain x where "se_Values (ss ! si) ! gi = Fin x" "0 \<le> x" by blast
    moreover from this(1) m(3) \<open>ss ! si \<in> set ss\<close> \<open>_ \<in> set (se_Values (ss ! si))\<close> have "x \<le> m" by metis
    ultimately show thesis using that [of x m] m(1,2) True by (simp add: chart_value_def)
  next
    case False
    with that [of 0 m] m show thesis by (simp add: chart_value_def)
  qed
qed

text \<open>What the grouping keeps of the files read so far.\<close>

definition results_of :: "(string \<Rightarrow> string + Result) \<Rightarrow> string list \<Rightarrow> string \<Rightarrow> Result list" where
  "results_of read fs sc = map (\<lambda>f. projr (read f)) (filter (\<lambda>f. scenario_of f = Some sc) fs)"

lemma load_loop_groups:
  assumes "load_loop read fs m order = Inr (m', order')" "distinct order" "set order = dom m"
  shows "distinct order' \<and> set order' = dom m' \<and> (\<forall>sc. map_get m' [] sc = map_get m [] sc @ results_of read fs sc) \<and>
         (\<exists>new. order' = order @ new) \<and> (\<forall>f \<in> set fs. scenario_of f \<noteq> None \<longrightarrow> (\<exists>r. read f = Inr r)) \<and>
         dom m' = dom m \<union> {sc. \<exists>f \<in> set fs. scenario_of f = Some sc}"
  using assms
proof (induction fs arbitrary: m order)
  case (Cons f fs)
  show ?case
  proof (cases "scenario_of f")
    case None
    with Cons.IH [of m order] Cons.prems show ?thesis by (auto simp: results_of_def)
  next
    case (Some sc)
    with Cons.prems obtain r where r: "read f = Inr r" by (cases "read f") auto
    let ?m = "m(sc \<mapsto> map_get m [] sc @ [r])" and ?o = "if m sc = None then order @ [sc] else order"
    have o: "distinct ?o" "set ?o = dom ?m" using Cons.prems(2,3) by (auto simp: domIff)
    have "load_loop read fs ?m ?o = Inr (m', order')" using Cons.prems(1) Some r by simp
    note ih = Cons.IH [OF this o]
    have "map_get m' [] sc' = map_get m [] sc' @ results_of read (f # fs) sc'" for sc'
      using ih Some r by (simp add: results_of_def map_get_def)
    moreover have "\<exists>new. order' = order @ new" using ih by (auto split: if_splits)
    moreover have "dom m' = insert sc (dom m) \<union> {sc. \<exists>f \<in> set fs. scenario_of f = Some sc}"
      using ih by (simp only: dom_fun_upd option.simps if_False)
    then have "dom m' = dom m \<union> {sc. \<exists>f \<in> set (f # fs). scenario_of f = Some sc}" using Some by auto
    ultimately show ?thesis using ih Some r by simp
  qed
qed (auto simp: results_of_def)


text \<open>The files of one scenario, and the loop over all of them when nothing fails.\<close>

definition scenario_files :: "(string \<rightharpoonup> Result list) \<Rightarrow> string \<Rightarrow> (string \<times> string) list" where
  "scenario_files scenarios sc =
     (let results = sortTargets (map_get scenarios [] sc)
      in [(throughput_file sc, throughputChart sc results), (latency_file sc, latencyChart sc results)])"

lemma report_loop_writes:
  "(\<And>name. wr name = None) \<Longrightarrow>
   report_loop wr scenarios order md written =
     (Inr (md @ concat (map (report_section scenarios) order)), written @ concat (map (scenario_files scenarios) order))"
  by (induction order arbitrary: md written) (simp_all add: Let_def scenario_files_def)

lemma scenario_file_names:
  "throughput_file a = throughput_file b \<longleftrightarrow> a = b" "latency_file a = latency_file b \<longleftrightarrow> a = b"
  "throughput_file a \<noteq> latency_file b" "latency_file b \<noteq> throughput_file a" "throughput_file a \<noteq> ''results.md''" "latency_file a \<noteq> ''results.md''"
  by (simp_all add: throughput_file_def latency_file_def)

lemma scenario_files_distinct:
  "distinct order \<Longrightarrow> distinct (map fst (concat (map (scenario_files scenarios) order) @ [(''results.md'', md)]))"
  by (induction order) (auto simp: scenario_files_def Let_def scenario_file_names)

lemma load_loop_reads:
  "(\<And>f. f \<in> set fs \<Longrightarrow> scenario_of f \<noteq> None \<Longrightarrow> \<exists>r. read f = Inr r) \<Longrightarrow> \<exists>m' order'. load_loop read fs m order = Inr (m', order')"
proof (induction fs arbitrary: m order)
  case (Cons f fs)
  then have ih: "\<exists>m' order'. load_loop read fs m order = Inr (m', order')" for m order by simp
  from Cons.prems [of f] ih show ?case by (cases "scenario_of f") auto
qed simp


subsection \<open>Properties\<close>

text \<open>
  C31. The bars of a chart and its frame. When every value is a finite number that is not negative, every bar drawn,
  that of a missing value included, stands on its axis and does not leave the plot upwards. When a group has at
  least the four pixels for each gap between its bars, every bar also lies within its group and the plot, and the
  next bar of the group begins four pixels after it. And a bar is given a negative width exactly when a group is
  so narrow that the gaps need at least a pixel for each series more than it has.
\<close>

theorem chart_bars_fit:
  assumes "\<forall>s \<in> set ss. \<forall>v \<in> set (se_Values s). \<exists>x. v = Fin x \<and> 0 \<le> x" "gi < length groups" "si < length ss"
    and "groupW = plotW div int (length groups)" "nSeries = int (length ss)"
    and "chart_bar (chart_max ss) (int (length groups)) nSeries (int gi) (int si) (chart_value ss gi si) = (bx, ty, barW, bh)"
  shows "50 \<le> ty \<and> ty \<le> 50 + plotH \<and> ty + bh = 50 + plotH \<and>
         (4 * (nSeries + 1) \<le> groupW \<longrightarrow>
            60 + int gi * groupW < bx \<and> 0 \<le> barW \<and> bx + barW \<le> 60 + (int gi + 1) * groupW \<and>
            60 + (int gi + 1) * groupW \<le> 60 + plotW \<and>
            (\<forall>v. fst (chart_bar (chart_max ss) (int (length groups)) nSeries (int gi) (int si + 1) v) = bx + barW + 4)) \<and>
         (barW < 0 \<longleftrightarrow> groupW + nSeries \<le> 4 * (nSeries + 1))"
proof -
  obtain x m where m: "chart_value ss gi si = Fin x" "0 \<le> x" "chart_max ss = Fin m" "0 < m" "x \<le> m"
    using chart_value_bound [OF assms(1,3)] .
  note bh = bar_height [OF m(2,5,4)]
  have n: "0 < nSeries" "int si < nSeries" using assms(3,5) by auto
  have bar: "bx = 60 + int gi * groupW + 4 + int si * (barW + 4)" "barW = int_quot (groupW - 4 * (nSeries + 1)) (max1 nSeries)"
    "ty = 50 + plotH - bh" "bh = go_int (f64_mul (f64_div (Fin x) (Fin m)) (f64_of_int plotH))"
    using assms(4,6) m(1,3) by (auto simp: chart_bar_def Let_def)
  have horizontal: "60 + int gi * groupW < bx \<and> 0 \<le> barW \<and> bx + barW \<le> 60 + (int gi + 1) * groupW" if "4 * (nSeries + 1) \<le> groupW"
  proof -
    note bw = bar_columns [OF n(1) that _ n(2), folded bar(2)]
    have "0 < barW * int si + (4 + int si * 4)" using bw(1) mult_nonneg_nonneg [of barW "int si"] by linarith
    with bw show ?thesis by (simp add: bar(1) algebra_simps)
  qed
  have l: "0 < int (length groups)" using assms(2) by linarith
  then have "0 \<le> groupW" by (simp add: assms(4) plotW_def pos_imp_zdiv_nonneg_iff)
  then have "(int gi + 1) * groupW \<le> int (length groups) * groupW"
    using assms(2) by (intro mult_right_mono) auto
  also have "\<dots> \<le> plotW" unfolding assms(4) using l
    by (metis add.commute le_add_same_cancel1 mult.commute div_mult_mod_eq pos_mod_sign)
  finally have "60 + (int gi + 1) * groupW \<le> 60 + plotW" by simp
  moreover have "fst (chart_bar (chart_max ss) (int (length groups)) nSeries (int gi) (int si + 1) v) = bx + barW + 4" for v
    using bar(1,2) assms(4) by (simp add: chart_bar_def Let_def algebra_simps)
  moreover have "barW < 0 \<longleftrightarrow> groupW + nSeries \<le> 4 * (nSeries + 1)"
    using bar_width_negative [OF n(1), of groupW] bar(2) by simp
  ultimately show ?thesis using horizontal bh bar(3,4) by simp
qed

theorem chart_bars_fit_witness:
  "fst (chart_bar (chart_max [\<lparr>se_Name = ''tps'', se_Values = [Fin 3, Fin 1]\<rparr>]) 2 1 1 0 (Fin 1)) +
   fst (snd (snd (chart_bar (chart_max [\<lparr>se_Name = ''tps'', se_Values = [Fin 3, Fin 1]\<rparr>]) 2 1 1 0 (Fin 1)))) \<le> 60 + 2 * 340"
proof -
  let ?ss = "[\<lparr>se_Name = ''tps'', se_Values = [Fin 3, Fin 1]\<rparr>]"
  obtain bx ty barW bh where b: "chart_bar (chart_max ?ss) 2 1 1 0 (Fin 1) = (bx, ty, barW, bh)"
    by (cases "chart_bar (chart_max ?ss) 2 1 1 0 (Fin 1)")
  from chart_bars_fit [of ?ss 1 "[''a'', ''b'']" 0 340 1 bx ty barW bh] b
  have "bx + barW \<le> 60 + 2 * 340" by (simp add: plotW_def chart_value_def)
  then show ?thesis by (simp add: b)
qed

text \<open>
  The report groups what was measured: when every file can be read, the scenarios are those of the file
  names, each listed once, and under each are the results of exactly its files, in the order of their names.
  Sorting them by target then keeps them all, and keeps the order within a target.
\<close>

theorem load_results_groups:
  assumes "load_results read files = Inr (scenarios, order)"
  shows "distinct order \<and> set order = {sc. \<exists>f \<in> set files. scenario_of f = Some sc} \<and>
         (\<forall>sc. map_get scenarios [] sc = results_of read (sort files) sc \<and>
               mset (sortTargets (map_get scenarios [] sc)) = mset (results_of read files sc) \<and>
               (\<forall>t. filter (\<lambda>r. target_rank 0 targetOrder (r_Target r) = t) (sortTargets (map_get scenarios [] sc)) =
                    filter (\<lambda>r. target_rank 0 targetOrder (r_Target r) = t) (results_of read (sort files) sc)))"
proof -
  note g = load_loop_groups [OF assms [unfolded load_results_def]]
  have r: "map_get scenarios [] sc = results_of read (sort files) sc" for sc using g by simp
  have "mset (results_of read (sort files) sc) = mset (results_of read files sc)" for sc
    by (simp add: results_of_def mset_filter)
  moreover have "filter (\<lambda>r. k r = t) (sort_key k rs) = filter (\<lambda>r. k r = t) rs" for k :: "Result \<Rightarrow> nat" and t rs
    by (rule sort_key_stable)
  ultimately show ?thesis using g by (simp add: r sortTargets_def)
qed

theorem load_results_groups_witness:
  "\<exists>scenarios order. load_results (\<lambda>f. Inr (Summarize f [] 0 0)) [''r/b__direct.json'', ''r/a__direct.json'', ''r/b__pgpilot.json''] =
       Inr (scenarios, order) \<and> set order = {''a'', ''b''} \<and>
     map r_Target (map_get scenarios [] ''b'') = [''r/b__direct.json'', ''r/b__pgpilot.json'']"
proof -
  let ?read = "\<lambda>f. Inr (Summarize f [] 0 0) :: string + Result"
  let ?fs = "[''r/b__direct.json'', ''r/a__direct.json'', ''r/b__pgpilot.json'']"
  have sc: "scenario_of ''r/b__direct.json'' = Some ''b''" "scenario_of ''r/a__direct.json'' = Some ''a''"
    "scenario_of ''r/b__pgpilot.json'' = Some ''b''" by code_simp+
  have st: "sort ?fs = [''r/a__direct.json'', ''r/b__direct.json'', ''r/b__pgpilot.json'']" by code_simp
  obtain m ord where r: "load_results ?read ?fs = Inr (m, ord)"
    by (simp add: load_results_def st sc)
  note g = load_results_groups [OF r]
  have o: "set ord = {''a'', ''b''}" using g [THEN conjunct2, THEN conjunct1] by (simp add: sc) blast
  have "results_of ?read (sort ?fs) ''b'' = [Summarize ''r/b__direct.json'' [] 0 0, Summarize ''r/b__pgpilot.json'' [] 0 0]"
    unfolding results_of_def st by (simp add: sc)
  moreover have "map_get m [] ''b'' = results_of ?read (sort ?fs) ''b''" using g by blast
  moreover have "r_Target (Summarize f l e w) = f" for f l e w by (simp add: Summarize_def Let_def)
  ultimately have t: "map r_Target (map_get m [] ''b'') = [''r/b__direct.json'', ''r/b__pgpilot.json'']"
    by (simp only: list.map)
  show ?thesis by (intro exI conjI) (rule r, rule o, rule t)
qed

text \<open>
  The report is complete and loses nothing: when the directory has files, those that name a scenario can be
  read and every file can be written, \<^verbatim>\<open>run\<close> succeeds. It writes the two charts of each scenario and last
  \<^verbatim>\<open>results.md\<close> with a section for each; no file is written twice, so no scenario overwrites another's charts.
\<close>

theorem report_run_complete:
  assumes "files \<noteq> []" "\<forall>f \<in> set files. scenario_of f \<noteq> None \<longrightarrow> (\<exists>r. read_result contents f = Inr r)" "\<forall>name. wr name = None"
  shows "\<exists>scenarios order md written. load_results (read_result contents) files = Inr (scenarios, order) \<and>
           report_run fl (Inr files) contents wr = (None, written @ [(''results.md'', md)]) \<and>
           written = concat (map (scenario_files scenarios) order) \<and>
           md = ''# Benchmark results'' @ [CHR 0x0A, CHR 0x0A] @ concat (map (report_section scenarios) order) \<and>
           distinct (map fst (written @ [(''results.md'', md)]))"
proof -
  obtain m ord where l: "load_results (read_result contents) files = Inr (m, ord)"
    using load_loop_reads [of "sort files" "read_result contents" Map.empty "[]"] assms(2) by (auto simp: load_results_def)
  have d: "distinct ord" using load_loop_groups [OF l [unfolded load_results_def]] by simp
  have loop: "report_loop wr m ord md [] = (Inr (md @ concat (map (report_section m) ord)), concat (map (scenario_files m) ord))" for md
    using report_loop_writes [of wr m ord md "[]"] assms(3) by simp
  show ?thesis
    by (intro exI conjI) (rule l, simp add: report_run_def assms(1,3) l loop, rule refl, simp, rule scenario_files_distinct [OF d])
qed

definition wit_result :: json where
  "wit_result = JObj [(''target'', JStr ''direct''), (''transactions'', JNum (Itoa 391314)), (''p50'', JNum (Itoa 602833))]"

lemma wit_result_read:
  "read_result (\<lambda>f. Inr (print_json wit_result)) f = Inr (zero_Result\<lparr>r_Target := ''direct'', r_Transactions := 391314, r_P50 := 602833\<rparr>)"
proof -
  have "json_unmarshal (print_json wit_result) = Some wit_result"
    by (rule json_unmarshal_print) (auto simp: wit_result_def valid_utf8_ascii maxNestingDepth_def)
  moreover have "dec_struct False Result_fields wit_result zero_Result =
      Some (zero_Result\<lparr>r_Target := ''direct'', r_Transactions := 391314, r_P50 := 602833\<rparr>)"
    by (simp add: wit_result_def dec_struct_def Result_fields_def find_field_def field_def dec_string_def dec_int_def Atoi_Itoa)
  ultimately show ?thesis by (simp add: read_result_def)
qed

theorem report_run_complete_witness:
  "\<exists>md written. report_run default_report_flags (Inr [''r/b__direct.json'']) (\<lambda>f. Inr (print_json wit_result)) (\<lambda>name. None) =
     (None, written @ [(''results.md'', md)])"
  using report_run_complete [of "[''r/b__direct.json'']" "\<lambda>f. Inr (print_json wit_result)" "\<lambda>name. None" default_report_flags]
    wit_result_read by auto

end
