(* ===== verification/Loadgen.thy ===== *)
theory Loadgen
  imports Report Utf8
begin

text \<open>
  The command \<^verbatim>\<open>cmd/loadgen/main.go\<close> around the benchmark harness: its flags, the two modes, and the line it prints;
  and \<^verbatim>\<open>SetupSchema\<close> of \<^verbatim>\<open>internal/bench/run.go\<close>. The driver pgx, the network and the clock are parameters; the JSON form of the
  output is the result that is handed to the encoder.
\<close>


subsection \<open>Seeding the table\<close>

definition setup_stmts :: "int \<Rightarrow> string list" where
  "setup_stmts rows =
     [''DROP TABLE IF EXISTS loadgen_accounts'',
      ''CREATE TABLE loadgen_accounts (id int PRIMARY KEY, balance bigint NOT NULL)'',
      ''INSERT INTO loadgen_accounts SELECT g, (g * 100) FROM generate_series(1, '' @ Itoa rows @ '') g'']"

text \<open>The statements that were executed, and the one that failed if one did.\<close>

fun exec_stmts :: "(string \<Rightarrow> bool) \<Rightarrow> string list \<Rightarrow> string list \<times> string option" where
  "exec_stmts ok [] = ([], None)"
| "exec_stmts ok (s # ss) =
     (if ok s then (case exec_stmts ok ss of (done, failed) \<Rightarrow> (s # done, failed)) else ([], Some s))"

datatype setup_err = SetupParse | SetupConnect | SetupStmt string

definition SetupSchema :: "bool \<Rightarrow> bool \<Rightarrow> (string \<Rightarrow> bool) \<Rightarrow> int \<Rightarrow> string list \<times> setup_err option" where
  "SetupSchema parses connects ok rows =
     (if \<not> parses then ([], Some SetupParse)
      else if \<not> connects then ([], Some SetupConnect)
      else case exec_stmts ok (setup_stmts rows) of (done, failed) \<Rightarrow> (done, map_option SetupStmt failed))"


subsection \<open>The output\<close>

definition loadgen_dur :: "int \<Rightarrow> string" where
  "loadgen_dur d = Duration_String (Duration_Round d 10000)"

definition pad_right :: "nat \<Rightarrow> string \<Rightarrow> string" where
  "pad_right w s = s @ replicate (w - rune_count s) (CHR '' '')"

datatype loadgen_output = OutJSON Result | OutText string

definition output_result :: "Result \<Rightarrow> bool \<Rightarrow> loadgen_output" where
  "output_result res asJSON =
     (if asJSON then OutJSON res
      else OutText
        (pad_right 10 (r_Target res) @ ''  tps='' @ fmt_fixed False (r_TPS res) @ ''  p50='' @ loadgen_dur (r_P50 res) @
         ''  p95='' @ loadgen_dur (r_P95 res) @ ''  p99='' @ loadgen_dur (r_P99 res) @ ''  mean='' @ loadgen_dur (r_Mean res) @
         ''  ok='' @ Itoa (r_Transactions res) @ ''  err='' @ Itoa (r_Errors res) @
         (if f64_lt (Fin 0) (r_FenceFallbackRate res)
          then ''  fence-fallback='' @ fmt_fixed True (f64_mul (r_FenceFallbackRate res) (Fin 100)) @ ''%'' else []) @
         [CHR 0x0A]))"


subsection \<open>The command\<close>

record loadgen_flags =
  lg_conn :: string
  lg_mode :: string
  lg_rows :: int
  lg_duration :: int
  lg_conns :: int
  lg_writeRatio :: f64
  lg_target :: string
  lg_metricsURL :: string
  lg_json :: bool

text \<open>The default ratio is the float nearest to a tenth.\<close>

definition default_loadgen_flags :: loadgen_flags where
  "default_loadgen_flags =
     \<lparr>lg_conn = [], lg_mode = ''run'', lg_rows = 100000, lg_duration = 30 * 10 ^ 9, lg_conns = 16,
      lg_writeRatio = f64_round (1 / 10), lg_target = ''pgpilot'', lg_metricsURL = [], lg_json = False\<rparr>"

definition loadgen_flag_set :: "loadgen_flags flag_set" where
  "loadgen_flag_set =
     [''conn'' \<mapsto> (False, \<lambda>v fl. Some (fl\<lparr>lg_conn := v\<rparr>)),
      ''mode'' \<mapsto> (False, \<lambda>v fl. Some (fl\<lparr>lg_mode := v\<rparr>)),
      ''rows'' \<mapsto> (False, \<lambda>v fl. map_option (\<lambda>i. fl\<lparr>lg_rows := i\<rparr>) (ParseInt0 v)),
      ''duration'' \<mapsto> (False, \<lambda>v fl. map_option (\<lambda>d. fl\<lparr>lg_duration := d\<rparr>) (ParseDuration v)),
      ''conns'' \<mapsto> (False, \<lambda>v fl. map_option (\<lambda>i. fl\<lparr>lg_conns := i\<rparr>) (ParseInt0 v)),
      ''write-ratio'' \<mapsto> (False, \<lambda>v fl. map_option (\<lambda>x. fl\<lparr>lg_writeRatio := x\<rparr>) (ParseFloat v)),
      ''target'' \<mapsto> (False, \<lambda>v fl. Some (fl\<lparr>lg_target := v\<rparr>)),
      ''metrics-url'' \<mapsto> (False, \<lambda>v fl. Some (fl\<lparr>lg_metricsURL := v\<rparr>)),
      ''json'' \<mapsto> (True, \<lambda>v fl. map_option (\<lambda>b. fl\<lparr>lg_json := b\<rparr>) (ParseBool v))]"

text \<open>
  What the command meets: whether pgx accepts a connection string, connects, and executes a statement; the
  turns of the workers and the time they take; and the two answers of the metrics endpoint.
\<close>

record loadgen_env =
  le_parses :: "string \<Rightarrow> bool"
  le_connects :: "string \<Rightarrow> bool"
  le_ok :: "string \<Rightarrow> bool"
  le_turns :: "nat \<Rightarrow> turn list"
  le_wall :: int
  le_before :: "string option"
  le_after :: "string option"

datatype loadgen_err = LgConnRequired | LgSetup setup_err | LgRun bench_err | LgUnknownMode string

datatype loadgen_out = LgFlagExit flag_err | LgSeeded int | LgOutput loadgen_output

text \<open>\<^verbatim>\<open>run\<close>; \<^verbatim>\<open>flag.Parse\<close> ends the process on a flag it does not accept.\<close>

definition loadgen_run :: "loadgen_env \<Rightarrow> string list \<Rightarrow> loadgen_err + loadgen_out" where
  "loadgen_run env args =
     (case flag_parse loadgen_flag_set args default_loadgen_flags of
        Inl e \<Rightarrow> Inr (LgFlagExit e)
      | Inr (fl, _) \<Rightarrow>
          if lg_conn fl = [] then Inl LgConnRequired
          else if lg_mode fl = ''setup'' then
            (case snd (SetupSchema (le_parses env (lg_conn fl)) (le_connects env (lg_conn fl)) (le_ok env) (lg_rows fl)) of
               Some e \<Rightarrow> Inl (LgSetup e)
             | None \<Rightarrow> Inr (LgSeeded (lg_rows fl)))
          else if lg_mode fl = ''run'' then
            (let before = scrapeFallback (lg_metricsURL fl) (le_before env)
             in case bench_Run (le_parses env (lg_conn fl)) (le_connects env (lg_conn fl)) (lg_target fl)
                       \<lparr>wl_Duration = lg_duration fl, wl_Connections = lg_conns fl, wl_WriteRatio = lg_writeRatio fl,
                        wl_Rows = lg_rows fl\<rparr> (le_turns env) (le_wall env) of
                  Inl e \<Rightarrow> Inl (LgRun e)
                | Inr res \<Rightarrow>
                    let after = scrapeFallback (lg_metricsURL fl) (le_after env)
                    in Inr (LgOutput (output_result (res\<lparr>r_FenceFallbackRate := fallbackRate before after\<rparr>) (lg_json fl))))
          else Inl (LgUnknownMode (lg_mode fl)))"

subsection \<open>Properties\<close>

definition loadgen_args :: "loadgen_flags \<Rightarrow> string \<Rightarrow> (string \<times> string) list" where
  "loadgen_args fl ratio =
     [(''conn'', lg_conn fl), (''mode'', lg_mode fl), (''rows'', Itoa (lg_rows fl)),
      (''duration'', Duration_String (lg_duration fl)), (''conns'', Itoa (lg_conns fl)), (''write-ratio'', ratio),
      (''target'', lg_target fl), (''metrics-url'', lg_metricsURL fl), (''json'', if lg_json fl then ''true'' else ''false'')]"

lemma int64_text:
  assumes "- (2 ^ 63) \<le> i" "i < 2 ^ 63"
  shows "ParseInt0 (Itoa i) = Some i" "ParseDuration (Duration_String i) = Some i"
  using ParseInt0_Itoa [OF assms] ParseDuration_String [OF assms] by simp_all

text \<open>
  Written as flags, with the numbers and the duration as Go prints them and any text of the ratio, every option is
  read back, also one that contains \<^verbatim>\<open>=\<close>, begins with a dash or is empty.
\<close>

lemma loadgen_flags_roundtrip:
  assumes "- (2 ^ 63) \<le> lg_rows fl" "lg_rows fl < 2 ^ 63" "- (2 ^ 63) \<le> lg_conns fl" "lg_conns fl < 2 ^ 63"
    and "- (2 ^ 63) \<le> lg_duration fl" "lg_duration fl < 2 ^ 63" "ParseFloat ratio = Some (lg_writeRatio fl)"
  shows "flag_parse loadgen_flag_set (map (\<lambda>(n, v). flag_arg n v) (loadgen_args fl ratio)) start = Inr (fl, [])"
proof -
  note [simp] = int64_text [OF assms(1,2)] int64_text [OF assms(3,4)] int64_text [OF assms(5,6)] assms(7)
  have b: "ParseBool (if lg_json fl then ''true'' else ''false'') = Some (lg_json fl)" by (simp add: ParseBool_def)
  have "set_flags loadgen_flag_set (loadgen_args fl ratio) start = Some fl"
    by (simp add: loadgen_args_def loadgen_flag_set_def b del: if_split)
  moreover have "list_all (plain_name \<circ> fst) (loadgen_args fl ratio)" by (simp add: loadgen_args_def plain_name_def)
  ultimately show ?thesis using flag_parse_written [of loadgen_flag_set _ start fl "[]"] by simp
qed

text \<open>
  What a worker is to bring home, without its loop: its attempts are the turns before the deadline, numbered, up to one
  that failed because of it; those that failed are its errors and the others its transactions.
\<close>

definition attempts :: "Workload \<Rightarrow> turn list \<Rightarrow> (nat \<times> turn) list" where
  "attempts w ts =
     takeWhile (\<lambda>(n, t). \<not> tn_done t \<and> \<not> (tn_fails t (turn_stmt w (int n) t) \<and> tn_doneAfter t)) (enumerate 0 ts)"

definition worker_latencies :: "Workload \<Rightarrow> turn list \<Rightarrow> int list" where
  "worker_latencies w ts = map (tn_elapsed \<circ> snd) (filter (\<lambda>(n, t). \<not> tn_fails t (turn_stmt w (int n) t)) (attempts w ts))"

definition worker_errors :: "Workload \<Rightarrow> turn list \<Rightarrow> int" where
  "worker_errors w ts = int (length (filter (\<lambda>(n, t). tn_fails t (turn_stmt w (int n) t)) (attempts w ts)))"

lemma worker_loop_from:
  "worker_loop w (int n) lat errs ts =
     (let as = takeWhile (\<lambda>(n, t). \<not> tn_done t \<and> \<not> (tn_fails t (turn_stmt w (int n) t) \<and> tn_doneAfter t)) (enumerate n ts)
      in (lat @ map (tn_elapsed \<circ> snd) (filter (\<lambda>(n, t). \<not> tn_fails t (turn_stmt w (int n) t)) as),
          errs + int (length (filter (\<lambda>(n, t). tn_fails t (turn_stmt w (int n) t)) as))))"
proof (induction ts arbitrary: n lat errs)
  case (Cons t ts)
  have "int (Suc n) = int n + 1" by simp
  note ih = Cons.IH [of "Suc n", unfolded this]
  show ?case by (auto simp: Let_def ih)
qed simp

lemma worker_loop_counts: "worker_loop w 0 [] 0 ts = (worker_latencies w ts, worker_errors w ts)"
  using worker_loop_from [of w 0 "[]" 0 ts]
  by (simp add: worker_latencies_def worker_errors_def attempts_def Let_def)

definition lg_workload :: "loadgen_flags \<Rightarrow> Workload" where
  "lg_workload fl =
     \<lparr>wl_Duration = lg_duration fl, wl_Connections = lg_conns fl, wl_WriteRatio = lg_writeRatio fl, wl_Rows = lg_rows fl\<rparr>"

text \<open>
  C29. The command measures what it was asked to: in run mode, for whatever options are written as flags, with at least one
  connection and one row and a database that can be reached, it prints a result under the target's label that
  counts every transaction and every error of every worker, and whose percentiles are those of all the
  latencies together.
\<close>

theorem loadgen_run_measures:
  assumes "- (2 ^ 63) \<le> lg_duration fl" "lg_duration fl < 2 ^ 63" "ParseFloat ratio = Some (lg_writeRatio fl)"
    and "1 \<le> lg_conns fl" "lg_conns fl < 2 ^ 63" "1 \<le> lg_rows fl" "lg_rows fl < 2 ^ 63"
    and "lg_mode fl = ''run''" "lg_conn fl \<noteq> []" "le_parses env (lg_conn fl)" "le_connects env (lg_conn fl)"
    and "lats = concat (map (\<lambda>i. worker_latencies (lg_workload fl) (le_turns env i)) [0..<nat (lg_conns fl)])" "lats \<noteq> []" "length lats < 2 ^ 30"
  shows "\<exists>res. loadgen_run env (map (\<lambda>(n, v). flag_arg n v) (loadgen_args fl ratio)) = Inr (LgOutput (output_result res (lg_json fl))) \<and>
           r_Target res = lg_target fl \<and> r_Transactions res = int (length lats) \<and>
           r_Errors res = (\<Sum>i\<leftarrow>[0..<nat (lg_conns fl)]. worker_errors (lg_workload fl) (le_turns env i)) \<and>
           is_quantile 50 lats (r_P50 res) \<and> is_quantile 95 lats (r_P95 res) \<and> is_quantile 99 lats (r_P99 res)"
proof -
  let ?rate = "fallbackRate (scrapeFallback (lg_metricsURL fl) (le_before env)) (scrapeFallback (lg_metricsURL fl) (le_after env))"
  let ?errs = "\<Sum>i\<leftarrow>[0..<nat (lg_conns fl)]. worker_errors (lg_workload fl) (le_turns env i)"
  let ?res = "Summarize (lg_target fl) lats ?errs (le_wall env) \<lparr>r_FenceFallbackRate := ?rate\<rparr>"
  have "flag_parse loadgen_flag_set (map (\<lambda>(n, v). flag_arg n v) (loadgen_args fl ratio)) default_loadgen_flags = Inr (fl, [])"
    using assms(1-7) by (intro loadgen_flags_roundtrip) simp_all
  then have "loadgen_run env (map (\<lambda>(n, v). flag_arg n v) (loadgen_args fl ratio)) = Inr (LgOutput (output_result ?res (lg_json fl)))"
    using assms by (simp add: loadgen_run_def bench_Run_def worker_loop_counts lg_workload_def comp_def Let_def)
  moreover have "r_Target ?res = lg_target fl" "r_Transactions ?res = int (length lats)"
    "r_Errors ?res = ?errs" by (simp_all add: Summarize_def Let_def)
  moreover have "is_quantile 50 lats (r_P50 ?res)" "is_quantile 95 lats (r_P95 ?res)" "is_quantile 99 lats (r_P99 ?res)"
    using Percentile_quantile [OF assms(13,14), of 50] Percentile_quantile [OF assms(13,14), of 95] Percentile_quantile [OF assms(13,14), of 99]
    by (simp_all add: Summarize_def Let_def)
  ultimately show ?thesis by (intro exI [of _ ?res] conjI)
qed

definition wit_loadgen_flags :: loadgen_flags where
  "wit_loadgen_flags = default_loadgen_flags\<lparr>lg_conn := ''host=db'', lg_conns := 1, lg_writeRatio := Fin 0\<rparr>"

definition wit_loadgen_env :: loadgen_env where
  "wit_loadgen_env =
     \<lparr>le_parses = (\<lambda>_. True), le_connects = (\<lambda>_. True), le_ok = (\<lambda>_. True),
      le_turns = (\<lambda>_. [\<lparr>tn_done = False, tn_rand = 7, tn_fails = (\<lambda>_. False), tn_doneAfter = False, tn_elapsed = 500\<rparr>]),
      le_wall = 1000, le_before = None, le_after = None\<rparr>"

theorem loadgen_run_measures_witness:
  "\<exists>res. loadgen_run wit_loadgen_env (map (\<lambda>(n, v). flag_arg n v) (loadgen_args wit_loadgen_flags ''0'')) =
       Inr (LgOutput (output_result res False)) \<and> r_Transactions res = 1 \<and> is_quantile 99 [500] (r_P99 res)"
proof -
  have r: "ParseFloat ''0'' = Some (lg_writeRatio wit_loadgen_flags)"
    by (simp add: wit_loadgen_flags_def ParseFloat_def go_defs f64_round_def)
  have l: "[500] = concat (map (\<lambda>i. worker_latencies (lg_workload wit_loadgen_flags) (le_turns wit_loadgen_env i))
        [0..<nat (lg_conns wit_loadgen_flags)])"
    by (simp add: worker_latencies_def attempts_def wit_loadgen_flags_def wit_loadgen_env_def)
  have f: "lg_json wit_loadgen_flags = False" "lg_duration wit_loadgen_flags = 30 * 10 ^ 9" "lg_conns wit_loadgen_flags = 1"
    "lg_rows wit_loadgen_flags = 100000" "lg_mode wit_loadgen_flags = ''run''" "lg_conn wit_loadgen_flags \<noteq> []"
    "le_parses wit_loadgen_env c" "le_connects wit_loadgen_env c" for c
    by (simp_all add: wit_loadgen_flags_def default_loadgen_flags_def wit_loadgen_env_def)
  from loadgen_run_measures [OF _ _ r _ _ _ _ _ _ _ _ l] obtain res where
    "loadgen_run wit_loadgen_env (map (\<lambda>(n, v). flag_arg n v) (loadgen_args wit_loadgen_flags ''0'')) =
       Inr (LgOutput (output_result res False))" "r_Transactions res = 1" "is_quantile 99 [500] (r_P99 res)"
    by (auto simp: f)
  then show ?thesis by blast
qed

end
