(* ===== verification/FaultProxy.thy ===== *)
theory FaultProxy
  imports Relay
begin

text \<open>
  \<^verbatim>\<open>internal/faultproxy/faultproxy.go\<close>, the forwarder with which the tests put faults between the proxy and a
  backend, as a transition system: the accept loop, one goroutine per client, the goroutine that calls
  \<^verbatim>\<open>Close\<close>, and the controls of the test. A step is a critical section of the mutex, or what a goroutine
  does between two of them. Connections are numbered in the order in which they are opened.
\<close>


subsection \<open>Copying\<close>

text \<open>
  \<^verbatim>\<open>pipe\<close> on the chunks its reads return, each with the latency in force when it arrives; the loop ends with
  the chunks (the read that fails) or with a failed write. The result has the time slept.
\<close>

fun fault_pipe :: "bool \<Rightarrow> (byte list \<times> int) list \<Rightarrow> writer \<Rightarrow> int \<times> writer" where
  "fault_pipe delay [] dst = (0, dst)"
| "fault_pipe delay ((buf, d) # chunks) dst =
     (if buf = [] then fault_pipe delay chunks dst
      else let pause = (if delay \<and> 0 < d then d else 0)
           in case write_bytes buf dst of
                (Some _, dst1) \<Rightarrow> (pause, dst1)
              | (None, dst1) \<Rightarrow> (case fault_pipe delay chunks dst1 of (t, dst2) \<Rightarrow> (pause + t, dst2)))"


subsection \<open>State\<close>

type_synonym fconn = nat

text \<open>Where the goroutine of a client is in \<^verbatim>\<open>handle\<close>: the comments name what comes next.\<close>

datatype fault_handler =
  HDial fconn                    \<comment> \<open>dial the backend\<close>
| HTrackClient fconn fconn       \<comment> \<open>track the client\<close>
| HTrackBackend fconn fconn      \<comment> \<open>track the backend\<close>
| HPiping fconn fconn            \<comment> \<open>wait for the first pipe\<close>
| HOneDone fconn fconn           \<comment> \<open>close both\<close>
| HClosed fconn fconn            \<comment> \<open>wait for the second pipe\<close>
| HUntrackClient fconn fconn     \<comment> \<open>untrack the client\<close>
| HUntrackBackend fconn          \<comment> \<open>untrack the backend\<close>
| HDone

datatype fault_accept = AccLoop | AccGot fconn | AccEnded

datatype fault_closer = ClNone | ClMarked | ClListener | ClSever "fconn list" | ClReturned

record fault_proxy =
  fp_latency :: int
  fp_blackhole :: bool
  fp_live :: "fconn list"
  fp_closed :: bool
  fp_listening :: bool
  fp_accept :: fault_accept
  fp_handlers :: "fault_handler list"
  fp_pending :: "fconn list"
  fp_closer :: fault_closer
  fp_next :: fconn
  fp_shut :: "fconn set"

definition fault_New :: fault_proxy where
  "fault_New =
     \<lparr>fp_latency = 0, fp_blackhole = False, fp_live = [], fp_closed = False, fp_listening = True,
      fp_accept = AccLoop, fp_handlers = [], fp_pending = [], fp_closer = ClNone, fp_next = 0, fp_shut = {}\<rparr>"


subsection \<open>Operations\<close>

definition SetLatency :: "int \<Rightarrow> fault_proxy \<Rightarrow> fault_proxy" where
  "SetLatency d p = p\<lparr>fp_latency := d\<rparr>"

definition Blackhole :: "bool \<Rightarrow> fault_proxy \<Rightarrow> fault_proxy" where
  "Blackhole on p = p\<lparr>fp_blackhole := on\<rparr>"

text \<open>\<^verbatim>\<open>Sever\<close>: the live connections are listed under the lock and closed after it.\<close>

definition Sever_locked :: "fault_proxy \<Rightarrow> fault_proxy" where
  "Sever_locked p = p\<lparr>fp_pending := fp_pending p @ fp_live p\<rparr>"

definition shut :: "fconn set \<Rightarrow> fault_proxy \<Rightarrow> fault_proxy" where
  "shut cs p = p\<lparr>fp_shut := fp_shut p \<union> cs\<rparr>"

definition track :: "fconn \<Rightarrow> fault_proxy \<Rightarrow> fault_proxy" where
  "track c p = (if \<not> fp_closed p then p\<lparr>fp_live := (if c \<in> set (fp_live p) then fp_live p else fp_live p @ [c])\<rparr> else p)"

definition untrack :: "fconn \<Rightarrow> fault_proxy \<Rightarrow> fault_proxy" where
  "untrack c p = p\<lparr>fp_live := removeAll c (fp_live p)\<rparr>"

text \<open>The accept loop: a client arrives; then the blackhole flag decides what becomes of it.\<close>

definition acceptLoop_accept :: "bool \<Rightarrow> fault_proxy \<Rightarrow> fault_proxy option" where
  "acceptLoop_accept ok p =
     (if fp_accept p \<noteq> AccLoop then None
      else if ok then (if fp_listening p then Some (p\<lparr>fp_accept := AccGot (fp_next p), fp_next := fp_next p + 1\<rparr>) else None)
      else if fp_listening p then None else Some (p\<lparr>fp_accept := AccEnded\<rparr>))"

definition acceptLoop_dispatch :: "fault_proxy \<Rightarrow> fault_proxy option" where
  "acceptLoop_dispatch p =
     (case fp_accept p of
        AccGot c \<Rightarrow>
          Some (if fp_blackhole p then shut {c} (p\<lparr>fp_accept := AccLoop\<rparr>)
                else p\<lparr>fp_accept := AccLoop, fp_handlers := fp_handlers p @ [HDial c]\<rparr>)
      | _ \<Rightarrow> None)"

text \<open>
  \<^verbatim>\<open>handle\<close>, the next step of a goroutine. \<open>ok\<close> is whether the dial succeeds; \<open>peer\<close> whether a pipe ends because
  one of the two peers closes or resets its connection. It also ends when the proxy itself has closed one.
\<close>

fun handle_step :: "bool \<Rightarrow> bool \<Rightarrow> fault_handler \<Rightarrow> fault_proxy \<Rightarrow> (fault_handler \<times> fault_proxy) option" where
  "handle_step ok peer (HDial c) p =
     (if ok then Some (HTrackClient c (fp_next p), p\<lparr>fp_next := fp_next p + 1\<rparr>) else Some (HDone, shut {c} p))"
| "handle_step ok peer (HTrackClient c b) p = Some (HTrackBackend c b, track c p)"
| "handle_step ok peer (HTrackBackend c b) p = Some (HPiping c b, track b p)"
| "handle_step ok peer (HPiping c b) p =
     (if peer \<or> c \<in> fp_shut p \<or> b \<in> fp_shut p then Some (HOneDone c b, p) else None)"
| "handle_step ok peer (HOneDone c b) p = Some (HClosed c b, shut {c, b} p)"
| "handle_step ok peer (HClosed c b) p = Some (HUntrackClient c b, p)"
| "handle_step ok peer (HUntrackClient c b) p = Some (HUntrackBackend b, untrack c p)"
| "handle_step ok peer (HUntrackBackend b) p = Some (HDone, untrack b p)"
| "handle_step ok peer HDone p = None"

definition all_done :: "fault_proxy \<Rightarrow> bool" where
  "all_done p \<longleftrightarrow> fp_accept p = AccEnded \<and> list_all (\<lambda>h. h = HDone) (fp_handlers p)"

text \<open>
  \<^verbatim>\<open>Close\<close>: mark, close the listener, sever, wait for the goroutines. A further call finds the proxy marked and
  returns at once, also while the first one still waits.
\<close>

definition Close_step :: "fault_proxy \<Rightarrow> fault_proxy option" where
  "Close_step p =
     (case fp_closer p of
        ClNone \<Rightarrow> Some (p\<lparr>fp_closed := True, fp_closer := ClMarked\<rparr>)
      | ClMarked \<Rightarrow> Some (p\<lparr>fp_listening := False, fp_closer := ClListener\<rparr>)
      | ClListener \<Rightarrow> Some (p\<lparr>fp_closer := ClSever (fp_live p)\<rparr>)
      | ClSever (c # cs) \<Rightarrow> Some (shut {c} (p\<lparr>fp_closer := ClSever cs\<rparr>))
      | ClSever [] \<Rightarrow> if all_done p then Some (p\<lparr>fp_closer := ClReturned\<rparr>) else None
      | ClReturned \<Rightarrow> None)"

definition Close_again :: "fault_proxy \<Rightarrow> fault_proxy option" where
  "Close_again p = (if fp_closed p then Some p else None)"

datatype fault_event =
  FpSetLatency int | FpBlackhole bool | FpSever | FpSeverClose | FpAccept bool | FpDispatch
| FpHandle nat bool bool | FpClose | FpCloseAgain

fun fault_exec :: "fault_event \<Rightarrow> fault_proxy \<Rightarrow> fault_proxy option" where
  "fault_exec (FpSetLatency d) p = Some (SetLatency d p)"
| "fault_exec (FpBlackhole on) p = Some (Blackhole on p)"
| "fault_exec FpSever p = Some (Sever_locked p)"
| "fault_exec FpSeverClose p =
     (case fp_pending p of [] \<Rightarrow> None | c # cs \<Rightarrow> Some (shut {c} (p\<lparr>fp_pending := cs\<rparr>)))"
| "fault_exec (FpAccept ok) p = acceptLoop_accept ok p"
| "fault_exec FpDispatch p = acceptLoop_dispatch p"
| "fault_exec (FpHandle i ok peer) p =
     (if i < length (fp_handlers p)
      then map_option (\<lambda>(h, p1). p1\<lparr>fp_handlers := (fp_handlers p1)[i := h]\<rparr>) (handle_step ok peer (fp_handlers p ! i) p)
      else None)"
| "fault_exec FpClose p = Close_step p"
| "fault_exec FpCloseAgain p = Close_again p"

lemmas fault_defs = SetLatency_def Blackhole_def Sever_locked_def shut_def track_def untrack_def acceptLoop_accept_def
  acceptLoop_dispatch_def Close_step_def Close_again_def


subsection \<open>The invariant\<close>

text \<open>The connections a goroutine still has to close, and those it may have in the live map.\<close>

fun owned :: "fault_handler \<Rightarrow> fconn set" where
  "owned (HDial c) = {c}"
| "owned (HTrackClient c b) = {c, b}"
| "owned (HTrackBackend c b) = {c, b}"
| "owned (HPiping c b) = {c, b}"
| "owned (HOneDone c b) = {c, b}"
| "owned _ = {}"

fun tracked :: "fault_handler \<Rightarrow> fconn set" where
  "tracked (HTrackBackend c b) = {c}"
| "tracked (HPiping c b) = {c, b}"
| "tracked (HOneDone c b) = {c, b}"
| "tracked (HClosed c b) = {c, b}"
| "tracked (HUntrackClient c b) = {c, b}"
| "tracked (HUntrackBackend b) = {b}"
| "tracked _ = {}"

fun accepted :: "fault_accept \<Rightarrow> fconn set" where
  "accepted (AccGot c) = {c}"
| "accepted _ = {}"

definition fault_inv :: "fault_proxy \<Rightarrow> bool" where
  "fault_inv p \<longleftrightarrow>
     (\<forall>c < fp_next p. c \<in> fp_shut p \<or> c \<in> accepted (fp_accept p) \<or> (\<exists>h \<in> set (fp_handlers p). c \<in> owned h)) \<and>
     (\<forall>c \<in> set (fp_live p). \<exists>h \<in> set (fp_handlers p). c \<in> tracked h) \<and>
     (fp_closer p = ClReturned \<longrightarrow> all_done p)"

lemma bex_update:
  assumes "\<exists>h \<in> set hs. P h" "i < length hs" "P (hs ! i) \<Longrightarrow> P h'"
  shows "\<exists>h \<in> set (hs[i := h']). P h"
proof -
  from assms(1) obtain j where j: "j < length hs" "P (hs ! j)" by (auto simp: in_set_conv_nth)
  with assms(2,3) have "P (hs[i := h'] ! j)" by (cases "j = i") auto
  with j(1) show ?thesis by (metis length_list_update nth_mem)
qed

text \<open>What a step of a goroutine keeps: it gives up only connections it has shut, and only what it untracks.\<close>

lemma handle_step_sets:
  assumes "handle_step ok peer h p = Some (h', p')"
  shows "{..<fp_next p'} \<subseteq> {..<fp_next p} \<union> owned h' \<and> fp_shut p \<subseteq> fp_shut p' \<and> owned h \<subseteq> owned h' \<union> fp_shut p' \<and>
         set (fp_live p') \<subseteq> set (fp_live p) \<union> tracked h' \<and> tracked h \<inter> set (fp_live p') \<subseteq> tracked h' \<and>
         fp_handlers p' = fp_handlers p \<and> fp_accept p' = fp_accept p \<and> fp_closer p' = fp_closer p \<and> h \<noteq> HDone"
  using assms by (cases h) (auto simp: fault_defs split: if_splits)

lemma fault_inv_handle:
  assumes "fault_inv p" "i < length (fp_handlers p)" "handle_step ok peer (fp_handlers p ! i) p = Some (h, p1)"
  shows "fault_inv (p1\<lparr>fp_handlers := (fp_handlers p1)[i := h]\<rparr>)"
proof -
  note st = handle_step_sets [OF assms(3)]
  have h: "h \<in> set ((fp_handlers p)[i := h])" using assms(2) by (rule set_update_memI)
  have 1: "c \<in> fp_shut p1 \<or> c \<in> accepted (fp_accept p1) \<or> (\<exists>h \<in> set ((fp_handlers p)[i := h]). c \<in> owned h)"
    if c: "c < fp_next p1" for c
  proof (cases "c < fp_next p \<and> c \<notin> fp_shut p1 \<and> c \<notin> accepted (fp_accept p1)")
    case True
    with assms(1) st have "\<exists>h \<in> set (fp_handlers p). c \<in> owned h" by (auto simp: fault_inv_def)
    then have "\<exists>h \<in> set ((fp_handlers p)[i := h]). c \<in> owned h"
      by (rule bex_update) (use True st assms(2) in auto)
    then show ?thesis by simp
  qed (use c st h in auto)
  have 2: "\<exists>h \<in> set ((fp_handlers p)[i := h]). c \<in> tracked h" if c: "c \<in> set (fp_live p1)" for c
  proof (cases "c \<in> set (fp_live p)")
    case True
    with assms(1) have "\<exists>h \<in> set (fp_handlers p). c \<in> tracked h" by (simp add: fault_inv_def)
    then show ?thesis by (rule bex_update) (use c st assms(2) in auto)
  qed (use c st h in auto)
  have "\<not> all_done p" using st assms(2) by (auto simp: all_done_def list_all_length)
  with assms(1) st 1 2 show ?thesis by (simp add: fault_inv_def)
qed

lemma fault_inv_step: "fault_inv p \<Longrightarrow> fault_exec e p = Some p' \<Longrightarrow> fault_inv p'"
proof (induction e p rule: fault_exec.induct)
  case (7 i ok peer p)
  then show ?case by (auto split: if_splits intro: fault_inv_handle)
next
  case (5 ok p)
  then show ?case
    by (auto simp: fault_inv_def fault_defs all_done_def less_Suc_eq split: if_splits)
next
  case (6 p)
  then show ?case
    by (auto simp: fault_inv_def fault_defs all_done_def split: if_splits fault_accept.splits)
next
  case (8 p)
  then show ?case
    by (auto simp: fault_inv_def fault_defs all_done_def split: if_splits fault_closer.splits list.splits)
qed (auto simp: fault_inv_def fault_defs all_done_def split: list.splits if_splits)

interpretation fp: step_invariant fault_exec fault_New fault_inv
proof
  show "fault_inv fault_New" by (simp add: fault_inv_def fault_New_def)
qed (rule fault_inv_step)


subsection \<open>Properties\<close>

text \<open>
  C30. After the call of \<^verbatim>\<open>Close\<close> that closes the proxy has returned nothing is left behind, whatever faults were injected and however the goroutines
  ran: the accept loop and every client's goroutine have ended, every connection that was ever accepted or
  dialled has been closed, and the map of live connections is empty.
\<close>

theorem fault_Close_complete:
  assumes "reach fault_exec fault_New p" "fp_closer p = ClReturned"
  shows "all_done p \<and> {..<fp_next p} \<subseteq> fp_shut p \<and> fp_live p = []"
proof -
  have inv: "fault_inv p" by (rule fp.invar_reach [OF assms(1)])
  with assms(2) have d: "all_done p" by (simp add: fault_inv_def)
  then have "owned h = {}" "tracked h = {}" if "h \<in> set (fp_handlers p)" for h
    using that by (auto simp: all_done_def list_all_iff)
  with inv d show ?thesis by (auto simp: fault_inv_def all_done_def)
qed

theorem fault_Close_complete_witness:
  "\<exists>p. run_steps fault_exec
     [FpAccept True, FpDispatch, FpHandle 0 True False, FpHandle 0 True False, FpHandle 0 True False,
      FpClose, FpClose, FpClose, FpClose, FpClose, FpAccept False, FpHandle 0 True False, FpHandle 0 True False,
      FpHandle 0 True False, FpHandle 0 True False, FpHandle 0 True False, FpClose] fault_New = Some p \<and>
     fp_closer p = ClReturned \<and> {..<2} \<subseteq> fp_shut p \<and> fp_live p = []"
proof -
  obtain p where p: "run_steps fault_exec
     [FpAccept True, FpDispatch, FpHandle 0 True False, FpHandle 0 True False, FpHandle 0 True False,
      FpClose, FpClose, FpClose, FpClose, FpClose, FpAccept False, FpHandle 0 True False, FpHandle 0 True False,
      FpHandle 0 True False, FpHandle 0 True False, FpHandle 0 True False, FpClose] fault_New = Some p"
    "fp_closer p = ClReturned" "fp_next p = 2"
    by (simp add: fault_New_def fault_defs all_done_def)
  from fault_Close_complete [OF reach_run [OF reach_init p(1)] p(2)] p show ?thesis by simp
qed

text \<open>
  C38. \<^verbatim>\<open>Close\<close> does not sever everything: a client whose goroutine dials while \<^verbatim>\<open>Close\<close> marks the proxy closed is not
  tracked any more, so \<^verbatim>\<open>Close\<close> does not see it. It then waits for a session that nobody in the proxy ends:
  both connections are open, nothing is listed as live, and the only events left are those of the test's
  controls and further calls of \<^verbatim>\<open>Close\<close>, which change nothing of this, and of the two peers.
\<close>

theorem fault_Close_can_hang:
  "\<exists>p. reach fault_exec fault_New p \<and> fp_closer p = ClSever [] \<and> fp_handlers p = [HPiping 0 1] \<and>
     fp_shut p = {} \<and> fp_live p = [] \<and>
     (\<forall>e. fault_exec e p = None \<or> (\<exists>d. e = FpSetLatency d) \<or> (\<exists>on. e = FpBlackhole on) \<or> e = FpSever \<or>
          (\<exists>ok. e = FpHandle 0 ok True) \<or> e = FpCloseAgain \<and> fault_exec e p = Some p)"
proof -
  let ?es = "[FpAccept True, FpDispatch, FpHandle 0 True False, FpClose, FpClose, FpHandle 0 True False,
      FpHandle 0 True False, FpAccept False, FpClose]"
  obtain p where p: "run_steps fault_exec ?es fault_New = Some p" "fp_closer p = ClSever []" "fp_handlers p = [HPiping 0 1]"
    "fp_shut p = {}" "fp_live p = []" "fp_accept p = AccEnded" "fp_pending p = []"
    by (simp add: fault_New_def fault_defs)
  have "fault_exec e p = None \<or> (\<exists>d. e = FpSetLatency d) \<or> (\<exists>on. e = FpBlackhole on) \<or> e = FpSever \<or>
      (\<exists>ok. e = FpHandle 0 ok True) \<or> e = FpCloseAgain \<and> fault_exec e p = Some p" for e
    using p(2-) by (cases e) (auto simp: fault_defs all_done_def)
  with p show ?thesis using reach_run [OF reach_init p(1)] by blast
qed

end
