(* ===== verification/Spec2Isabelle.thy ===== *)
theory Spec2Isabelle
  imports Relay TxStatus Startup RouterScored Registry Pool PoolLease Manager Classify Config Scram Backend Session
    Serve Metrics ProxyServer Deployment Sharing Bench Report Loadgen FaultProxy
begin

text \<open>
  pgpilot is a proxy between PostgreSQL clients and one primary with its replicas. It authenticates
  each client, keeps pools of authenticated server connections, sends writes to the primary and reads
  to a replica that has replayed what the session wrote (LSN fencing), and polls the health and the
  replication position of every backend. This development models the proxy, file by file, as
  executable definitions and proves what each part promises; this theory imports all of it and states
  the properties of a running proxy, which span its parts.

  \<^bold>\<open>How the parts fit together.\<close> \<^verbatim>\<open>cmd/pgpilot\<close> loads the configuration and wires a pool manager, a registry
  and a routing policy into a server. The server accepts clients and runs one session each. A session
  negotiates the startup, runs the server side of SCRAM, and then works in one of three modes: routing
  (a backend per statement), transaction pooling (a backend per transaction) or session pooling (one
  backend). It takes connections from the manager, which has one pool per user, database and address;
  a pool opens connections with \<^verbatim>\<open>backend.Dial\<close>, the client side of SCRAM. In routing mode it classifies
  each query, asks the registry for a snapshot, filters the replicas by the fence and lets the policy
  choose.

  \<^bold>\<open>Theories and sources.\<close> In the order of the imports; paths are under \<^verbatim>\<open>src/internal\<close> unless they start
  with \<^verbatim>\<open>cmd\<close>.

  \<^item> \<^verbatim>\<open>Prelude\<close>: machine integers and big-endian bytes, Go's string functions, and two locales: the
    invariant of a system that runs event by event (\<open>step_invariant\<close>) and its refinement of an abstract
    labelled step relation, which gives trace inclusion for runs (\<open>refinement\<close>).
  \<^item> \<^verbatim>\<open>Wire\<close>, \<^verbatim>\<open>Relay\<close>: readers with a failing end, writers with bounded room, \<^verbatim>\<open>io.ReadFull\<close> and \<^verbatim>\<open>io.CopyN\<close>; on
    them \<^verbatim>\<open>protocol/message.go\<close> and the relays and message readers of \<^verbatim>\<open>proxy/session.go\<close>. Whole streams are
    forwarded byte for byte, every message is inspected once, and on any failure what was written is a
    prefix of what was read.
  \<^item> \<^verbatim>\<open>TxStatus\<close>: \<^verbatim>\<open>protocol/txstatus.go\<close>, \<^verbatim>\<open>protocol/codec.go\<close> and \<^verbatim>\<open>trackBackend\<close>: the tracker holds the last
    status the backend announced.
  \<^item> \<^verbatim>\<open>Startup\<close>: \<^verbatim>\<open>proxy/startup.go\<close> and \<^verbatim>\<open>negotiateStartup\<close>.
  \<^item> \<^verbatim>\<open>Floats\<close>: \<^verbatim>\<open>float64\<close> as rationals with IEEE rounding, infinities and NaN, and \<^verbatim>\<open>strconv.ParseFloat\<close>.
  \<^item> \<^verbatim>\<open>Router\<close>, \<^verbatim>\<open>RouterScored\<close>: \<^verbatim>\<open>router/*.go\<close>. The locales \<open>policy\<close> and \<open>load_policy\<close> state what the \<^verbatim>\<open>Policy\<close>
    interface promises (a choice among the candidates, counts that follow the outstanding reads); each
    of the three policies interprets one of them, and so does the union the sessions share.
  \<^item> \<^verbatim>\<open>Registry\<close>: \<^verbatim>\<open>registry/registry.go\<close>. The circuit breaker as a function of the poll results, the
    backoff with its 64-bit shift, parsing of positions and health rows, snapshots, reconfiguration.
  \<^item> \<^verbatim>\<open>Pool\<close>, \<^verbatim>\<open>PoolLease\<close>: \<^verbatim>\<open>pool/pool.go\<close> as a transition system, one step per critical section, dial, ping,
    timer and channel operation, for any number of goroutines. The invariant accounts for every
    connection and every slot, and the queue is in the order of arrival; \<^verbatim>\<open>PoolLease\<close> is the abstract specification
    of leases: what the callers see of a run of the pool is a trace of it.
  \<^item> \<^verbatim>\<open>Manager\<close>: \<^verbatim>\<open>backend/manager.go\<close>, a map of such pools.
  \<^item> \<^verbatim>\<open>Classify\<close>: \<^verbatim>\<open>classify/classify.go\<close> and \<^verbatim>\<open>detect/detect.go\<close> on parse trees of protocol buffers.
  \<^item> \<^verbatim>\<open>GoDuration\<close>, \<^verbatim>\<open>GoFlag\<close>, \<^verbatim>\<open>Utf8\<close>, \<^verbatim>\<open>GoJSON\<close>, \<^verbatim>\<open>GoDecode\<close>: of the standard library, durations as they are printed and parsed, command
    line flags, runes, JSON text and how it is stored into variables; with the round trips.
  \<^item> \<^verbatim>\<open>Config\<close>, \<^verbatim>\<open>ConfigFile\<close>: \<^verbatim>\<open>config/config.go\<close>: defaults and validation; the decoding of the file's text, field by field.
  \<^item> \<^verbatim>\<open>Crypto\<close>, \<^verbatim>\<open>Scram\<close>: SHA-256, HMAC and base64 as the standard library computes them; \<^verbatim>\<open>scram/scram.go\<close> in
    both roles: completeness and soundness of the exchange.
  \<^item> \<^verbatim>\<open>Backend\<close>: \<^verbatim>\<open>backend/backend.go\<close> over decoded messages, with a reader per call that reads ahead and is dropped.
  \<^item> \<^verbatim>\<open>Session\<close>: routing mode of \<^verbatim>\<open>proxy/session.go\<close>. What the session is answered (by the manager, the
    connections, the registry, the policy, the parser, the clock) is a record of functions of a step
    counter, so every behaviour of the other parts and every interleaving with other sessions is some
    environment; what the session does is a log of events. The properties are about the log.
  \<^item> \<^verbatim>\<open>Serve\<close>: the rest of \<^verbatim>\<open>proxy/session.go\<close> over the same environment.
  \<^item> \<^verbatim>\<open>Metrics\<close>: \<^verbatim>\<open>metrics/*.go\<close> and the metrics source of \<^verbatim>\<open>cmd/pgpilot/main.go\<close>.
  \<^item> \<^verbatim>\<open>ProxyServer\<close>: \<^verbatim>\<open>proxy/proxy.go\<close>, and \<^verbatim>\<open>cmd/pgpilot/main.go\<close> from the command line to the return of \<^verbatim>\<open>run\<close>: flags, wiring,
    metrics endpoint, server, reload, shutdown.
  \<^item> \<^verbatim>\<open>Deployment\<close>: the composition. The snapshots and the policy of a session's environment are those of the
    registry and the policy that \<^verbatim>\<open>run\<close> started; such an environment has what the session's properties ask for.
  \<^item> \<^verbatim>\<open>Sharing\<close>: the sessions and the manager together. Each session is a goroutine of the pools and does what
    its log says, a pool grants it the connection it logs as acquired, and the pools take their own steps
    in between; what a pool has handed out is what the sessions of its key hold.
  \<^item> \<^verbatim>\<open>Bench\<close>, \<^verbatim>\<open>Report\<close>, \<^verbatim>\<open>Loadgen\<close>: \<^verbatim>\<open>bench/*.go\<close>, \<^verbatim>\<open>cmd/benchreport\<close> and \<^verbatim>\<open>cmd/loadgen\<close>: the workload, the percentiles, the
    fence-fallback rate, the table, the charts and the files, and the two commands with their flags.
  \<^item> \<^verbatim>\<open>FaultProxy\<close>: \<^verbatim>\<open>faultproxy/faultproxy.go\<close> as a transition system.

  \<^bold>\<open>What the lemmas show.\<close> Safety of routing: read your writes under strict fencing, writes only to the
  primary, nothing before a proof of the password, connections pooled only after a reset. Accounting:
  sessions and pools neither lose nor duplicate a connection, and the bounds on them hold; a
  connection is used only by the one session that has it, and is back in its pool at the end. Progress:
  sessions end, failover ends, waiters that give up return, the server can always stop. Function: relay,
  SCRAM, policies, breaker, parsing and printing do what they are documented to do. Errors: where the
  code does less than it says, the theorem states what it does.

  \<^bold>\<open>Bounds and termination.\<close> There is no fuel. The relays end because every turn reads a header; a
  session is run on the finite list of messages its client sends; \<^verbatim>\<open>dispatchRead\<close>, whose loop ends only
  because a failed address is excluded from the next turn, is a partial function into \<open>option\<close>, and that
  it returns is proved for environments whose snapshots name finitely many, non-empty addresses and where, with the
  scored policy, counts and estimates are in range and lags are finite; with infinite lags it is proved not to
  return. The waits and
  timers of the pool are events that may happen at any time.

  \<^bold>\<open>Parameters.\<close> Code outside the repository enters as arguments: the SQL parser and fingerprint
  (\<^verbatim>\<open>pg_query\<close>), the message encoders of pgproto3 (messages are decoded values; how many a read of the socket
  returns is a parameter), PBKDF2, the database driver of the
  benchmark (pgx), the Prometheus registry. The operating system is arguments too: the contents of a file,
  whether an address can be bound or a file written. Go's standard library is modelled where the sources
  compute with it.

  \<^bold>\<open>Not modelled.\<close> Logging, which nothing reads back; sockets, deadlines and contexts, which are failing
  reads and writes or events; signals, which are the cancellation of the root context and the reload; the
  HTTP server of the metrics endpoint beyond its address and paths; the JSON text that loadgen prints,
  beyond the result that is handed to the encoder; a read of the socket that ends inside a message; the statements
  that a pinned session relays in the extended protocol, which are not in its log. The properties of a
  deployed proxy below are about the configuration it was started with; what a reload changes is in \<^verbatim>\<open>ProxyServer\<close>.
\<close>

section \<open>A deployed proxy\<close>

text \<open>C1. Read your writes, in a running proxy with strict fencing. Let the servers be such that a position a
  replica reports in a poll up to time t is one it has replayed by then, and that it does not lose what
  it has replayed. Then every query that a session sends to a replica reaches one that has replayed
  every fence the session has set before, that is every position it read from the primary after a
  write. The snapshots and the routing policy are those of the program that was started from the command
  line and the configuration file, whatever the other sessions do; no reload has changed them, and with the scored
  policy the lags are numbers.\<close>

theorem read_your_writes:
  assumes "run_start n ctx files net args = Inr (RunServing sys endpoint srv)" "[] \<notin> set (c_Replicas (sy_cfg sys))" "deployed show_err sys polls env"
    and "f_Mode (c_Fencing (sy_cfg sys)) = FenceStrict"
    and "\<And>t a lsn lag. Some (RoleReplica, lsn, lag) \<in> set (poll_results None (polls t a)) \<Longrightarrow> lsn \<le> replayed a t"
    and "\<And>a t t'. t \<le> t' \<Longrightarrow> replayed a t \<le> replayed a t'"
    and "serveRouting (sy_cfg sys) env msgs s = Some s'" "ss_log s = []"
    and "ss_log s' = pre @ LSend t addr c full # post" "addr \<noteq> c_Primary (sy_cfg sys)" "LFence l \<in> set pre"
  shows "l \<le> replayed addr t"
proof -
  obtain decoded where "run_setup n ctx decoded = Inr sys" using run_start_setup [OF assms(1)] by blast
  note env = deployed_env_in [OF this assms(2,3)]
  from strict_fence_respected [OF env assms(8,4,7,9,10)] obtain t0 st where
    st: "t0 < t" "st \<in> set (e_snapshot env t0)" "s_Addr st = addr" "s_Role st = RoleReplica" "s_Healthy st" "l \<le> s_LSN st"
    using assms(11) by blast
  from assms(3) st(2) obtain sts1 where
    "st \<in> set (Snapshot sts1 (polled show_err (reg_cfg (sy_reg sys)) (backendsFrom (sy_cfg sys)) (polls t0)))"
    unfolding deployed_def by metis
  from snapshot_polled [OF this st(4,5)] assms(5) [of "s_LSN st" _ t0 addr] st(3) have "s_LSN st \<le> replayed addr t0" by auto
  also have "\<dots> \<le> replayed addr t" using st(1) by (intro assms(6)) simp
  finally show ?thesis using st(6) by simp
qed

text \<open>A proxy of one primary and one replica, and what its polls see.\<close>

definition wit_polls :: "nat \<Rightarrow> address \<Rightarrow> (int \<times> (string + nat) \<times> (nat \<Rightarrow> string + string list)) list" where
  "wit_polls t a = [(0, Inr 7, \<lambda>c. Inr [if a = ''p:5432'' then ''f'' else ''t'', ''0/64'', ''0''])]"

lemma wit_row: "parseHealthRow [''t'', ''0/64'', ''0''] = Inr (RoleReplica, 100, Fin 0)"
  "parseHealthRow [''f'', ''0/64'', ''0''] = Inr (RolePrimary, 100, Fin 0)"
  by (simp_all add: parseHealthRow_def wit_lsn ParseFloat_def go_defs f64_round_def)

definition wit_mgr_cfg :: ManagerPoolConfig where
  "wit_mgr_cfg = \<lparr>mpc_MaxSize = 10, mpc_MaxWaiters = 0, mpc_AcquireTimeout = 5 * second, mpc_IdleTimeout = 300 * second\<rparr>"

lemma wit_started:
  "\<exists>sys endpoint srv. run_start 4 0 (\<lambda>path. Some (config_text wit_session_cfg)) Inr [] = Inr (RunServing sys endpoint srv) \<and>
     sy_cfg sys = wit_session_cfg \<and> sy_policy sys = PRoundRobin NewRoundRobin \<and>
     sy_mgr sys = NewManager ''p:5432'' (users_map (c_Users wit_session_cfg)) wit_mgr_cfg 4"
proof -
  have "applyDefaults wit_session_cfg = wit_session_cfg"
    by (simp add: applyDefaults_def wit_session_cfg_def wit_config_def Let_def second_def ModeSession_def FenceStrict_def policy_name_defs)
  moreover have "validate wit_session_cfg = None"
    by (simp add: validate_def wit_session_cfg_def wit_config_def)
  ultimately have "Load (Inr wit_session_cfg) = Inr wit_session_cfg" by (simp add: Load_def)
  moreover have "c_Users wit_session_cfg = [\<lparr>u_Name = ''app'', u_Password = ''pw''\<rparr>]" "c_Policy wit_session_cfg = PolicyRoundRobin"
    "c_Pool wit_session_cfg = \<lparr>po_Mode = ModeSession, po_MaxSize = 10, po_MaxWaiters = 0, po_AcquireTimeout = 5 * second, po_IdleTimeout = 300 * second\<rparr>"
    by (simp_all add: wit_session_cfg_def wit_config_def)
  moreover have "decode_file (Some (config_text wit_session_cfg)) = Inr wit_session_cfg"
  proof -
    have "go_config wit_session_cfg" by code_simp
    from Decode_text [OF this, of "[]"] show ?thesis by (simp add: decode_file_def)
  qed
  moreover have "Level_UnmarshalText ''info'' = Some 0" by code_simp
  ultimately show ?thesis
    by (simp add: run_start_def default_flags_def Server_Listen_def Server_New_def run_setup_def Let_def Registry_Start_def Registry_New_def Registry_launch_def router_New_def wit_ends wit_mgr_cfg_def)
qed

lemma wit_deployed:
  assumes "sy_cfg sys = wit_session_cfg" "sy_policy sys = PRoundRobin NewRoundRobin"
  shows "deployed (\<lambda>_. []) sys wit_polls wit_env"
proof -
  have "polled (\<lambda>_. []) rcfg (backendsFrom wit_session_cfg) (wit_polls t) =
      [\<lparr>bs_name = ''primary'', bs_addr = ''p:5432'', bs_role = RolePrimary, bs_lsn = 100, bs_lagSeconds = Fin 0,
        bs_healthy = True, bs_lastErr = [], bs_lastPoll = 0, bs_failures = 0\<rparr>,
       \<lparr>bs_name = ''replica1'', bs_addr = ''r1:5432'', bs_role = RoleReplica, bs_lsn = 100, bs_lagSeconds = Fin 0,
        bs_healthy = True, bs_lastErr = [], bs_lastPoll = 0, bs_failures = 0\<rparr>]" for rcfg t
    by (simp add: polled_def launch_def wit_polls_def pollOnce_def wit_row recordSuccess_def backendsFrom_def wit_session_cfg_def
        wit_config_def Itoa_def Itoa_nat.simps char_of_def bit_0)
  then have snap: "e_snapshot wit_env t = Snapshot [] (polled (\<lambda>_. []) rcfg (backendsFrom wit_session_cfg) (wit_polls t))" for rcfg t
    by (simp add: wit_answers wit_primary_def wit_replica_def Snapshot_def status_of_def primary_lsn_def)
  have pol: "policy_run Policy_Choose Policy_Release policy_good sane_latency (sy_policy sys) [] [] = Some (e_policy wit_env t, [])" for t
    by (simp add: assms wit_answers)
  have "sane_lag lag" if "Some (role, lsn, lag) \<in> set (poll_results None (wit_polls t a))" for t a role lsn lag
    using that by (auto simp: wit_polls_def poll_result_def wit_row sane_lag_def split: if_splits)
  with snap pol assms(1) show ?thesis unfolding deployed_def by (metis list.size(3) zero_less_diff one_less_power one_less_numeral_iff semiring_norm(76) zero_less_numeral)
qed

theorem read_your_writes_witness:
  "\<exists>s'. serveRouting wit_session_cfg wit_env [(MsgQuery, wit_msg (CHR ''W'')), (MsgQuery, wit_msg (CHR ''R''))] wit_start = Some s' \<and>
     LSend 8 ''r1:5432'' 7 (wit_msg (CHR ''R'')) \<in> set (ss_log s') \<and> LFence 100 \<in> set (ss_log s') \<and>
     (100 :: uint64) \<le> (\<lambda>a t. 100) ''r1:5432'' (8 :: nat)"
proof -
  obtain sys endpoint srv where sys: "run_start 4 0 (\<lambda>path. Some (config_text wit_session_cfg)) Inr [] = Inr (RunServing sys endpoint srv)" "sy_cfg sys = wit_session_cfg" "sy_policy sys = PRoundRobin NewRoundRobin"
    using wit_started by blast
  from wit_run obtain s' where s':
    "serveRouting wit_session_cfg wit_env [(MsgQuery, wit_msg (CHR ''W'')), (MsgQuery, wit_msg (CHR ''R''))] wit_start = Some s'"
    "ss_log s' = [LAcquire ''p:5432'' 0, LRouting TargetPrimary ReasonWrite, LSend 1 ''p:5432'' 0 (wit_msg (CHR ''W'')),
        LRelay 0, LLatency TargetPrimary 5, LFence 100, LRelease ''p:5432'' 0, LChoose ''r1:5432'' [], LAcquire ''r1:5432'' 7] @
       LSend 8 ''r1:5432'' 7 (wit_msg (CHR ''R'')) #
       [LRouting TargetReplica ReasonRead, LRelay 7, LPolicyRelease ''r1:5432'' [] 5, LLatency TargetReplica 5, LRelease ''r1:5432'' 7]"
    by blast
  have l: "[] \<notin> set (c_Replicas (sy_cfg sys))" "f_Mode (c_Fencing (sy_cfg sys)) = FenceStrict" "ss_log wit_start = []"
    "''r1:5432'' \<noteq> c_Primary (sy_cfg sys)"
    by (simp_all add: sys wit_start_def wit_session_cfg_def wit_config_def)
  have 1: "lsn \<le> (\<lambda>a t. 100) a t" if "Some (RoleReplica, lsn, lag) \<in> set (poll_results None (wit_polls t a))" for t a lsn lag
    using that by (auto simp: wit_polls_def poll_result_def wit_row split: if_splits)
  have bound: "(100 :: uint64) \<le> (\<lambda>a t. 100) ''r1:5432'' (8 :: nat)"
    by (rule read_your_writes [OF sys(1) l(1) wit_deployed [OF sys(2,3)] l(2) 1 _ s'(1) [folded sys(2)] l(3) s'(2) l(4)]) simp_all
  show ?thesis
  proof (intro exI conjI)
    show "(100 :: uint64) \<le> (\<lambda>a t. 100) ''r1:5432'' (8 :: nat)" by (rule bound)
    show "serveRouting wit_session_cfg wit_env [(MsgQuery, wit_msg (CHR ''W'')), (MsgQuery, wit_msg (CHR ''R''))] wit_start = Some s'"
      by (rule s'(1))
  qed (simp_all add: s'(2))
qed

text \<open>C3. Every session of a running proxy ends and leaks nothing, in every mode and with every routing policy:
  whatever the client sends and whatever the backends and the other sessions do, \<^verbatim>\<open>serve\<close> returns, every
  connection it acquired has been given back exactly once, released or discarded, to the pool it came
  from, and every choice of the policy has been released exactly once. (With the scored policy, when the lags the
  servers report are numbers.)\<close>

theorem deployed_sessions_end:
  assumes "run_start n ctx files net args = Inr (RunServing sys endpoint srv)" "[] \<notin> set (c_Replicas (sy_cfg sys))" "\<And>u d. deployed show_err sys (polls u d) (envs u d)"
    and "ss_log s = []"
  shows "\<exists>e cc' s'. serve (sy_cfg sys) envs se w r cc msgs s = Some (e, cc', s') \<and>
           tally ev_acquired (ss_log s') = tally ev_returned (ss_log s') \<and>
           tally ev_chosen (ss_log s') = tally ev_released (ss_log s')"
proof -
  obtain decoded where "run_setup n ctx decoded = Inr sys" using run_start_setup [OF assms(1)] by blast
  note env = deployed_env_in [OF this assms(2,3)]
  from serve_inv [of _ envs, OF env assms(4), where cfg = "sy_cfg sys" and se = se and w = w and r = r and cc = cc and msgs = msgs]
  show ?thesis by (auto simp: sinv_def)
qed

theorem deployed_sessions_end_witness:
  "\<exists>cc e cc' s'. serve wit_session_cfg (\<lambda>u d. wit_env) wit_serve_env (open_writer [])
      \<lparr>rd_data = packet_bytes [0, 3, 0, 0], rd_end = EOF\<rparr> cc [] wit_start = Some (e, cc', s') \<and>
    LAcquire ''p:5432'' 0 \<in> set (ss_log s') \<and> tally ev_acquired (ss_log s') = tally ev_returned (ss_log s')"
proof -
  obtain sys endpoint srv where sys: "run_start 4 0 (\<lambda>path. Some (config_text wit_session_cfg)) Inr [] = Inr (RunServing sys endpoint srv)" "sy_cfg sys = wit_session_cfg" "sy_policy sys = PRoundRobin NewRoundRobin"
    using wit_started by blast
  have l: "[] \<notin> set (c_Replicas (sy_cfg sys))" "ss_log wit_start = []"
    by (simp_all add: sys wit_start_def wit_session_cfg_def wit_config_def)
  from wit_serve obtain cc cc' s' where s: "serve wit_session_cfg (\<lambda>u d. wit_env) wit_serve_env (open_writer [])
       \<lparr>rd_data = packet_bytes [0, 3, 0, 0], rd_end = EOF\<rparr> cc [] wit_start = Some (None, cc', s')"
     "ss_log s' = [LAcquire ''p:5432'' 0, LReset 0] @ LRelease ''p:5432'' 0 # []" by blast
  from deployed_sessions_end [OF sys(1) l(1) wit_deployed [OF sys(2,3)] l(2), where se = wit_serve_env and w = "open_writer []"
      and r = "\<lparr>rd_data = packet_bytes [0, 3, 0, 0], rd_end = EOF\<rparr>" and cc = cc and msgs = "[]"] s(1)
  have "tally ev_acquired (ss_log s') = tally ev_returned (ss_log s')" by (auto simp: sys(2))
  moreover have "LAcquire ''p:5432'' 0 \<in> set (ss_log s')" using s(2) by simp
  ultimately show ?thesis using s(1) by blast
qed

text \<open>C4. The sessions of a running proxy share its connections without getting in each other's way. Whatever the
  sessions do, in every mode, and however their calls interleave with each other and with the steps of the
  pools: what a session does next with a connection it can do, that is, the pool takes back what the
  session returns; a session sends on, relays from, resets and returns only a connection it has acquired
  and not returned; no two sessions of a user and database have a connection at the same time; and when
  all sessions are over, no connection of any pool is out.\<close>

theorem sessions_share_connections:
  assumes "run_start n ctx files net args = Inr (RunServing sys endpoint srv)" "[] \<notin> set (c_Replicas (sy_cfg sys))"
    and "\<And>i u d. deployed show_err sys (polls i u d) (envs i u d)" "\<And>i. ss_log (s i) = []"
    and "\<And>i. i < n \<Longrightarrow> serve (sy_cfg sys) (envs i) (se i) (w i) (r i) (cc i) (msgs i) (s i) = Some (err i, cc' i, s' i)"
    and "reach (shared_exec who (\<lambda>i. ss_log (s' i)) n) (shared_init (sy_mgr sys)) st"
  shows "(\<forall>i e. i < n \<and> sh_next (\<lambda>i. ss_log (s' i)) st i = Some e \<and> ev_acquired e = {#} \<longrightarrow>
            shared_exec who (\<lambda>i. ss_log (s' i)) n (ShSession i) st \<noteq> None \<and> uses_held (sh_past (\<lambda>i. ss_log (s' i)) st i) e) \<and>
         (\<forall>i j a c. i < n \<and> j < n \<and> who i = who j \<and> (a, c) \<in># held (sh_past (\<lambda>i. ss_log (s' i)) st i) \<and>
            (a, c) \<in># held (sh_past (\<lambda>i. ss_log (s' i)) st j) \<longrightarrow> i = j) \<and>
         ((\<forall>i<n. sh_next (\<lambda>i. ss_log (s' i)) st i = None) \<longrightarrow> (\<forall>k. pool_out (sh_mgr st) k = []))"
proof -
  let ?logs = "\<lambda>i. ss_log (s' i)"
  obtain decoded where d: "run_setup n ctx decoded = Inr sys" using run_start_setup [OF assms(1)] by blast
  note env = deployed_env_in [OF d assms(2,3)]
  have fin: "log_held (?logs i)" "tally ev_acquired (?logs i) = tally ev_returned (?logs i)" if "i < n" for i
    using serve_inv [of _ "envs i" "s i", OF env assms(4), where cfg = "sy_cfg sys" and se = "se i" and w = "w i" and r = "r i" and cc = "cc i" and msgs = "msgs i"]
      assms(5) [OF that] by (auto simp: sinv_def)
  have inv: "shared_inv who ?logs n st"
    using sh.invar_reach [OF assms(6)] fin(1) run_setup_mgr [OF d] by blast
  have "shared_exec who ?logs n (ShSession i) st \<noteq> None \<and> uses_held (sh_past ?logs st i) e"
    if i: "i < n" "sh_next ?logs st i = Some e" "ev_acquired e = {#}" for i e
    using session_step [where logs = ?logs, OF inv i(1) fin(1) [OF i(1)] i(2,3)] sh_next_uses(2) [where logs = ?logs, OF fin(1) [OF i(1)] i(2)] by (metis option.distinct(1))
  moreover have "\<forall>i j a c. i < n \<and> j < n \<and> who i = who j \<and> (a, c) \<in># held (sh_past ?logs st i) \<and> (a, c) \<in># held (sh_past ?logs st j) \<longrightarrow> i = j"
    using shared_exclusive [OF inv] by blast
  moreover have "\<forall>k. pool_out (sh_mgr st) k = []" if "\<forall>i<n. sh_next ?logs st i = None"
    using shared_over [OF inv] that fin(2) by blast
  ultimately show ?thesis by blast
qed

text \<open>Two sessions of one user, one after the other on the same connection.\<close>

lemma wit_shared_run:
  assumes "logs = (\<lambda>i. [LAcquire ''p:5432'' 0, LReset 0] @ LRelease ''p:5432'' 0 # [])" "k = \<lparr>k_user = ''app'', k_database = ''app'', k_addr = ''p:5432''\<rparr>"
  shows "\<exists>st. run_steps (shared_exec (\<lambda>i. (''app'', ''app'')) logs 4)
      [ShCall 0 ''p:5432'', ShCall 1 ''p:5432'', ShPool k (EvTurn 0), ShPool k (EvNew 0 True), ShSession 0, ShSession 0,
       ShPool k (EvTurn 1), ShPool k (EvPing 1 True)]
      (shared_init (NewManager ''p:5432'' (users_map (c_Users wit_session_cfg)) wit_mgr_cfg 4)) = Some st \<and>
      sh_past logs st 0 = logs 0 \<and> sh_past logs st 1 = [LAcquire ''p:5432'' 0] \<and> sh_next logs st 1 = Some (LReset 0) \<and> pool_out (sh_mgr st) k = [0]"
  unfolding assms
  by (simp add: shared_init_def NewManager_def AcquireAt_def poolFor_def users_map_def wit_session_cfg_def wit_config_def wit_mgr_cfg_def
      pool_config_def pool_run_simps session_key_def set_pool_def Manager_step_def ReleaseAt_def lookup_pool_def granted_def sh_next_def
      sh_past_def advance_def pool_out_def numeral_eq_Suc second_def)


theorem sessions_share_connections_witness:
  "\<exists>cc cc' s' st. serve wit_session_cfg (\<lambda>u d. wit_env) wit_serve_env (open_writer [])
       \<lparr>rd_data = packet_bytes [0, 3, 0, 0], rd_end = EOF\<rparr> cc [] wit_start = Some (None, cc', s') \<and>
     reach (shared_exec (\<lambda>i. (''app'', ''app'')) (\<lambda>i. ss_log s') 4)
       (shared_init (NewManager ''p:5432'' (users_map (c_Users wit_session_cfg)) wit_mgr_cfg 4)) st \<and>
     (''p:5432'', 0) \<in># held (sh_past (\<lambda>i. ss_log s') st 1) \<and> (''p:5432'', 0) \<notin># held (sh_past (\<lambda>i. ss_log s') st 0) \<and>
     shared_exec (\<lambda>i. (''app'', ''app'')) (\<lambda>i. ss_log s') 4 (ShSession 1) st \<noteq> None"
proof -
  obtain sys endpoint srv where sys: "run_start 4 0 (\<lambda>path. Some (config_text wit_session_cfg)) Inr [] = Inr (RunServing sys endpoint srv)" "sy_cfg sys = wit_session_cfg" "sy_policy sys = PRoundRobin NewRoundRobin"
    "sy_mgr sys = NewManager ''p:5432'' (users_map (c_Users wit_session_cfg)) wit_mgr_cfg 4"
    using wit_started by blast
  obtain cc cc' s' where s': "serve wit_session_cfg (\<lambda>u d. wit_env) wit_serve_env (open_writer [])
       \<lparr>rd_data = packet_bytes [0, 3, 0, 0], rd_end = EOF\<rparr> cc [] wit_start = Some (None, cc', s')"
     "ss_log s' = [LAcquire ''p:5432'' 0, LReset 0] @ LRelease ''p:5432'' 0 # []"
    using wit_serve by blast
  let ?logs = "\<lambda>i :: nat. ss_log s'"
  from wit_shared_run [of ?logs, OF _ refl] s'(2) obtain es st where
    run: "run_steps (shared_exec (\<lambda>i. (''app'', ''app'')) ?logs 4) es (shared_init (sy_mgr sys)) = Some st"
    and st: "sh_past ?logs st 1 = [LAcquire ''p:5432'' 0]" "sh_next ?logs st 1 = Some (LReset 0)"
    unfolding sys(4) by blast
  note r = reach_run [OF reach_init run]
  have l: "[] \<notin> set (c_Replicas (sy_cfg sys))" "ss_log wit_start = []"
    by (simp_all add: sys wit_start_def wit_session_cfg_def wit_config_def)
  note * = sessions_share_connections [where s' = "\<lambda>i. s'" and s = "\<lambda>i. wit_start", OF sys(1) l(1) wit_deployed [OF sys(2,3)] l(2) s'(1) [folded sys(2)] r]
  have h: "(''p:5432'', 0) \<in># held (sh_past ?logs st 1)" unfolding st(1) by (simp add: held_def)
  have "shared_exec (\<lambda>i. (''app'', ''app'')) ?logs 4 (ShSession 1) st \<noteq> None"
    using * [THEN conjunct1, rule_format, of 1 "LReset 0"] st(2) by (simp del: shared_exec.simps)
  moreover have "(''p:5432'', 0) \<notin># held (sh_past ?logs st 0)"
    using * [THEN conjunct2, THEN conjunct1, rule_format, of 1 0 "''p:5432''" 0] h by auto
  ultimately show ?thesis using s'(1) r h unfolding sys(4) by blast
qed

end
